(* ===== verification/Loqui_Prelude.thy ===== *)
theory Loqui_Prelude
  imports Main "HOL-Library.Word" "HOL-Library.Monad_Syntax"
begin

text \<open>
  Shared vocabulary of the development.

  Machine types: C's \<open>uint8_t\<close>, \<open>uint16_t\<close>, \<open>uint32_t\<close> and (on an LP64 target)
  \<open>size_t\<close> are words of 8, 16, 32 and 64 bits, so additions wrap where the C code's do.

  Undefined behaviour: an operation of the C code that could read or write outside an
  object returns an \<open>option\<close>; \<open>None\<close> is undefined behaviour. A theorem that a
  function returns \<open>Some\<close> is therefore a memory-safety statement.

  Pointers: a \<open>char *\<close> into the heap is a \<open>byte list option\<close>: \<open>None\<close> is NULL,
  \<open>Some m\<close> an allocation whose cells from offset 0 on that have been written so far
  are \<open>m\<close> (a cell behind \<open>m\<close> is allocated but uninitialised, or outside the object).

  Allocation: \<open>malloc\<close> and \<open>realloc\<close> may fail. An \<open>allocator\<close> says which request
  sizes are granted while one operation of the model runs; theorems quantify over it.

  Exceptions are those the code raises or its C helpers raise; \<open>ForeignError\<close> stands for an
  exception of a callback or a codec that the program is given.

  Python: an operation that returns to Python either raises (\<open>Inl\<close>) or returns
  (\<open>Inr\<close>). A value of Cython type \<open>bytes\<close> may be \<open>None\<close>: it is a \<open>byte list option\<close>.
\<close>

unbundle bit_operations_syntax

section \<open>Types\<close>

type_synonym byte = "8 word"
type_synonym u16 = "16 word"
type_synonym u32 = "32 word"
type_synonym size_t = "64 word"
type_synonym char_ptr = "byte list option"
type_synonym allocator = "size_t \<Rightarrow> bool"
type_synonym pybytes = "byte list option"

datatype py_error =
    MemoryError
  | TypeError
  | ValueError
  | UnboundLocalError
  | SystemError
  | OverflowError
  | LoquiDecoderError int
  | AttributeError
  | IndexError
  | PickleError
  | RuntimeError
  | SocketError
  | GeventTimeout
  | ConnectionError
  | NoEncoderAvailable
  | ConnectionTerminated
  | StreamDefunct
  | NotClientException
  | NotServerException
  | LoquiErrorReceived u16 "byte list option"
  | ForeignError nat

type_synonym 'a py = "py_error + 'a"

section \<open>Collections of facts\<close>

named_theorems defs \<open>definitions of the straight-line operations of the model\<close>
named_theorems wf_intros \<open>operations that keep a well-formedness invariant\<close>

section \<open>Lists\<close>

lemma take_splice:
  "n \<le> length m \<Longrightarrow> take (n + length xs) (take n m @ xs @ drop k m) = take n m @ xs"
  by simp

lemma nth_take_prefix: "i < n \<Longrightarrow> i < length xs \<Longrightarrow> take n xs ! i = xs ! i"
  by simp

section \<open>Running an operation over a list\<close>

text \<open>
  Feed the elements one after the other, collecting what each step returns, until one fails.
\<close>

fun run_all :: "('s \<Rightarrow> 'a \<Rightarrow> ('s \<times> 'b list) option) \<Rightarrow> 's \<Rightarrow> 'a list \<Rightarrow> ('s \<times> 'b list) option" where
  "run_all f s [] = Some (s, [])"
| "run_all f s (x # xs) =
     (case f s x of
        None \<Rightarrow> None
      | Some (s', out) \<Rightarrow> map_option (\<lambda>(s'', rest). (s'', out @ rest)) (run_all f s' xs))"

section \<open>Options and sums\<close>

lemma bind_Some_iff:
  "(Option.bind m f = Some y) \<longleftrightarrow> (\<exists>x. m = Some x \<and> f x = Some y)"
  by (cases m) auto

lemma bind_None_iff:
  "(Option.bind m f = None) \<longleftrightarrow> (m = None \<or> (\<exists>x. m = Some x \<and> f x = None))"
  by (cases m) auto

section \<open>Words\<close>

lemma unat_add_small:
  fixes a b :: size_t
  shows "unat a + unat b < 2 ^ 64 \<Longrightarrow> unat (a + b) = unat a + unat b"
  by (simp add: unat_word_ariths)

lemma unat_add_le_size:
  fixes a b :: size_t
  shows "unat (a + b) \<le> unat a + unat b"
  by (simp add: unat_word_ariths)

lemma unat_double_small:
  fixes a :: size_t
  shows "2 * unat a < 2 ^ 64 \<Longrightarrow> unat (a * 2) = 2 * unat a"
  by (simp add: unat_word_ariths)

lemma unat_diff_le:
  fixes a b :: size_t
  shows "b \<le> a \<Longrightarrow> unat (a - b) = unat a - unat b"
  by (simp add: unat_sub)

lemma unat_of_nat_size:
  "n < 2 ^ 64 \<Longrightarrow> unat (of_nat n :: size_t) = n"
  by (simp add: unat_of_nat)

lemma unat_ucast_u32_size [simp]: "unat (ucast (x :: u32) :: size_t) = unat x"
  by (simp add: unsigned_ucast_eq take_bit_nat_eq_self
      less_le_trans [OF unsigned_less [of x]])

lemma unat_u32_bound: "unat (x :: u32) < 2 ^ 32"
  using unsigned_less [of x] by simp

lemma unat_size_bound: "unat (x :: size_t) < 2 ^ 64"
  using unsigned_less [of x] by simp

end
