(* ===== verification/Loqui_Buffer.thy ===== *)
theory Loqui_Buffer
  imports Loqui_Prelude
begin

text \<open>
  \<open>c/buffer.h\<close>: the growable byte buffer that the encoder and the decoder append to.
  The record has the C struct's three fields. \<open>buf\<close> is the pointer (see the prelude):
  its cells hold everything written since the allocation, which may be more than the first
  \<open>buf_length\<close> bytes, because the code resets \<open>length\<close> without clearing the memory.
  \<open>realloc\<close> and \<open>memcpy\<close> are modelled as the C standard describes them.
\<close>

section \<open>State and operations\<close>

record loqui_buffer_t =
  buf :: char_ptr
  buf_length :: size_t
  allocated_size :: size_t

definition cells :: "char_ptr \<Rightarrow> byte list" where
  "cells p = (case p of None \<Rightarrow> [] | Some m \<Rightarrow> m)"

text \<open>
  \<open>realloc(p, n)\<close>: NULL when the allocator refuses; otherwise a block that keeps the
  old cells up to the new size. A request for 0 bytes is not used by this code and left undefined.
\<close>

definition c_realloc :: "allocator \<Rightarrow> char_ptr \<Rightarrow> size_t \<Rightarrow> char_ptr option" where
  "c_realloc alloc p n =
     (if n = 0 then None
      else Some (if alloc n then Some (take (unat n) (cells p)) else None))"

text \<open>
  \<open>memcpy(p + off, src, l)\<close> into an object of \<open>cap\<close> bytes from a separate one: nothing
  for \<open>l = 0\<close>; undefined when it leaves either object (or a gap of unwritten cells).
\<close>

definition c_memcpy :: "char_ptr \<Rightarrow> size_t \<Rightarrow> size_t \<Rightarrow> byte list \<Rightarrow> size_t \<Rightarrow> char_ptr option" where
  "c_memcpy p cap off src l =
     (if l = 0 then Some p
      else case p of
        None \<Rightarrow> None
      | Some m \<Rightarrow>
          (if unat l \<le> length src \<and> unat off \<le> length m \<and> unat off + unat l \<le> unat cap
           then Some (Some (take (unat off) m @ take (unat l) src @ drop (unat off + unat l) m))
           else None))"

definition loqui_buffer_write ::
    "allocator \<Rightarrow> loqui_buffer_t \<Rightarrow> byte list \<Rightarrow> size_t \<Rightarrow> (int \<times> loqui_buffer_t) option" where
  "loqui_buffer_write alloc pk bytes l =
     (if buf_length pk + l > allocated_size pk
      then let n = (buf_length pk + l) * 2 in
        (case c_realloc alloc (buf pk) n of
           None \<Rightarrow> None
         | Some None \<Rightarrow> Some (-1, pk)
         | Some (Some m) \<Rightarrow>
             (case c_memcpy (Some m) n (buf_length pk) bytes l of
                None \<Rightarrow> None
              | Some p \<Rightarrow> Some (0, \<lparr>buf = p, buf_length = buf_length pk + l, allocated_size = n\<rparr>)))
      else
        (case c_memcpy (buf pk) (allocated_size pk) (buf_length pk) bytes l of
           None \<Rightarrow> None
         | Some p \<Rightarrow> Some (0, pk\<lparr>buf := p, buf_length := buf_length pk + l\<rparr>)))"

definition loqui_buffer_ensure_size ::
    "allocator \<Rightarrow> loqui_buffer_t \<Rightarrow> size_t \<Rightarrow> (int \<times> loqui_buffer_t) option" where
  "loqui_buffer_ensure_size alloc pk at_least =
     (if at_least > allocated_size pk
      then
        (case c_realloc alloc (buf pk) at_least of
           None \<Rightarrow> None
         | Some None \<Rightarrow> Some (-1, pk)
         | Some (Some m) \<Rightarrow> Some (0, pk\<lparr>buf := Some m, allocated_size := at_least\<rparr>))
      else Some (0, pk))"

section \<open>Invariant and abstraction\<close>

text \<open>
  The bytes the buffer holds, and when its three fields agree. Object sizes are below
  \<open>2^62\<close>: no 64-bit allocator grants more of the address space to one object, and below it
  the doubling in \<open>loqui_buffer_write\<close> cannot wrap. \<open>alloc_sane\<close> is that documented bound.
\<close>

definition buf_bytes :: "loqui_buffer_t \<Rightarrow> byte list" where
  "buf_bytes b = take (unat (buf_length b)) (cells (buf b))"

definition max_object :: nat where
  "max_object = 2 ^ 62"

definition alloc_sane :: "allocator \<Rightarrow> bool" where
  "alloc_sane alloc \<longleftrightarrow> (\<forall>n. alloc n \<longrightarrow> unat n < max_object)"

definition buffer_ok :: "loqui_buffer_t \<Rightarrow> bool" where
  "buffer_ok b \<longleftrightarrow>
     unat (buf_length b) \<le> length (cells (buf b)) \<and>
     length (cells (buf b)) \<le> unat (allocated_size b) \<and>
     unat (allocated_size b) < max_object \<and>
     (buf b = None \<longrightarrow> allocated_size b = 0)"

lemma cells_simps [simp]: "cells None = []" "cells (Some m) = m"
  by (simp_all add: cells_def)

lemma max_object_val: "max_object = 4611686018427387904"
  by (simp add: max_object_def)

lemma buffer_ok_bytes: "buffer_ok b \<Longrightarrow> length (buf_bytes b) = unat (buf_length b)"
  by (simp add: buffer_ok_def buf_bytes_def)

lemma buffer_ok_length: "buffer_ok b \<Longrightarrow> length (buf_bytes b) < max_object"
  by (simp add: buffer_ok_def buf_bytes_def)

lemma alloc_saneD: "alloc_sane alloc \<Longrightarrow> alloc n \<Longrightarrow> unat n < max_object"
  by (simp add: alloc_sane_def)

text \<open>An allocator that grants everything below the bound, for concrete runs.\<close>

definition big_allocator :: allocator where
  "big_allocator n \<longleftrightarrow> n < 2 ^ 62"

lemma big_allocator_sane [simp]: "alloc_sane big_allocator"
  by (simp add: alloc_sane_def max_object_def word_less_nat_alt big_allocator_def)

lemma buffer_ok_reset_length [intro]: "buffer_ok b \<Longrightarrow> buffer_ok (b\<lparr>buf_length := 0\<rparr>)"
  by (simp add: buffer_ok_def)

lemma buf_bytes_reset_length [simp]: "buf_bytes (b\<lparr>buf_length := 0\<rparr>) = []"
  by (simp add: buf_bytes_def)

section \<open>memcpy and write\<close>

lemma c_memcpy_append:
  assumes "unat l \<le> length src" and "unat off \<le> length (cells p)"
    and "unat off + unat l \<le> unat cap" and "length (cells p) \<le> unat cap" and "p = None \<longrightarrow> cap = 0"
  obtains p' where "c_memcpy p cap off src l = Some p'"
    and "take (unat off + unat l) (cells p') = take (unat off) (cells p) @ take (unat l) src"
    and "unat off + unat l \<le> length (cells p')" and "length (cells p') \<le> unat cap"
    and "p' = None \<longrightarrow> p = None"
proof (cases "l = 0")
  case True
  with assms that [of p] show ?thesis by (simp add: c_memcpy_def)
next
  case False
  then have "0 < unat l" by (simp add: unat_gt_0)
  with assms obtain m where p: "p = Some m" by (cases p) auto
  let ?m = "take (unat off) m @ take (unat l) src @ drop (unat off + unat l) m"
  have "c_memcpy p cap off src l = Some (Some ?m)"
    using assms False p by (simp add: c_memcpy_def)
  moreover have "take (unat off + unat l) ?m = take (unat off) m @ take (unat l) src"
    using assms p by simp
  ultimately show ?thesis
    using assms p that [of "Some ?m"] by simp
qed

text \<open>The allocator refuses some request of at most twice \<open>n\<close> bytes.\<close>

definition refuses :: "allocator \<Rightarrow> nat \<Rightarrow> bool" where
  "refuses alloc n \<longleftrightarrow> (\<exists>k. \<not> alloc k \<and> unat k \<le> 2 * n)"

lemma refuses_mono: "refuses alloc m \<Longrightarrow> m \<le> n \<Longrightarrow> refuses alloc n"
  by (force simp: refuses_def)

lemma big_not_refused [simp]: "n < 2 ^ 60 \<Longrightarrow> \<not> refuses big_allocator n"
  by (auto simp: refuses_def word_less_nat_alt big_allocator_def)

text \<open>
  The contract of \<open>loqui_buffer_write\<close>: within the object bound it never leaves the
  allocation, and it either appends the first \<open>l\<close> bytes or reports failure and changes nothing.
\<close>

lemma buffer_write_cases:
  assumes ok: "buffer_ok b" and sane: "alloc_sane alloc"
    and src: "unat l \<le> length bytes" and small: "unat l \<le> 2 ^ 32"
  obtains (written) b' where "loqui_buffer_write alloc b bytes l = Some (0, b')" and "buffer_ok b'"
      and "buf_bytes b' = buf_bytes b @ take (unat l) bytes"
      and "allocated_size b \<le> allocated_size b'"
  | (refused) "loqui_buffer_write alloc b bytes l = Some (-1, b)"
      and "allocated_size b < buf_length b + l" and "refuses alloc (length (buf_bytes b) + unat l)"
      and "\<not> alloc ((buf_length b + l) * 2)"
proof -
  have len: "unat (buf_length b) < max_object" and cap: "unat (allocated_size b) < max_object"
    using ok by (simp_all add: buffer_ok_def)
  have sum: "unat (buf_length b + l) = unat (buf_length b) + unat l"
    using len small by (simp add: unat_add_small max_object_val)
  have dbl: "unat ((buf_length b + l) * 2) = 2 * (unat (buf_length b) + unat l)"
    using unat_double_small [of "buf_length b + l"] len small unfolding sum
    by (simp add: max_object_val)
  show ?thesis
  proof (cases "buf_length b + l > allocated_size b")
    case False
    then have fits: "unat (buf_length b) + unat l \<le> unat (allocated_size b)"
      by (simp add: not_less word_le_nat_alt sum)
    obtain p' where p': "c_memcpy (buf b) (allocated_size b) (buf_length b) bytes l = Some p'"
      and tk: "take (unat (buf_length b) + unat l) (cells p')
        = take (unat (buf_length b)) (cells (buf b)) @ take (unat l) bytes"
      and le: "unat (buf_length b) + unat l \<le> length (cells p')"
        "length (cells p') \<le> unat (allocated_size b)" and nn: "p' = None \<longrightarrow> buf b = None"
      using c_memcpy_append [of l bytes "buf_length b" "buf b" "allocated_size b"] ok src fits
      by (auto simp: buffer_ok_def)
    show ?thesis
      using written [of "b\<lparr>buf := p', buf_length := buf_length b + l\<rparr>"] False p' tk le nn ok
      by (simp add: loqui_buffer_write_def buffer_ok_def buf_bytes_def sum)
  next
    case True
    let ?n = "(buf_length b + l) * 2"
    have pos: "0 < unat (buf_length b) + unat l"
      using True unfolding word_less_nat_alt sum by linarith
    then have n0: "?n \<noteq> 0"
      using dbl by (metis gr_implies_not_zero mult_is_0 unat_0 zero_neq_numeral)
    show ?thesis
    proof (cases "alloc ?n")
      case False
      have "refuses alloc (length (buf_bytes b) + unat l)"
        unfolding refuses_def using False dbl buffer_ok_bytes [OF ok] by (intro exI [of _ ?n]) simp
      with False True n0 show ?thesis
        using refused by (simp add: loqui_buffer_write_def c_realloc_def Let_def)
    next
      case granted: True
      let ?m = "take (unat ?n) (cells (buf b))"
      have lt: "unat ?n < max_object" using alloc_saneD [OF sane granted] .
      have keep: "unat (buf_length b) \<le> length ?m"
        using ok dbl by (simp add: buffer_ok_def)
      obtain p' where p': "c_memcpy (Some ?m) ?n (buf_length b) bytes l = Some p'"
        and tk: "take (unat (buf_length b) + unat l) (cells p')
          = take (unat (buf_length b)) ?m @ take (unat l) bytes"
        and le: "unat (buf_length b) + unat l \<le> length (cells p')"
          "length (cells p') \<le> unat ?n" and nn: "p' = None \<longrightarrow> Some ?m = None"
        using c_memcpy_append [of l bytes "buf_length b" "Some ?m" ?n] src keep dbl
        by (auto simp: dbl)
      show ?thesis
        using written [of "\<lparr>buf = p', buf_length = buf_length b + l, allocated_size = ?n\<rparr>"]
          True n0 granted p' tk le nn lt dbl
        by (simp add: loqui_buffer_write_def c_realloc_def Let_def buffer_ok_def buf_bytes_def
            sum word_less_nat_alt word_le_nat_alt min_def)
    qed
  qed
qed

lemma buffer_ok_full: "buffer_ok b \<Longrightarrow> buf_length b \<le> allocated_size b"
  by (simp add: buffer_ok_def word_le_nat_alt)

lemma buffer_write_empty: "buffer_ok b \<Longrightarrow> loqui_buffer_write alloc b bytes 0 = Some (0, b)"
  using buffer_ok_full [of b] by (simp add: loqui_buffer_write_def c_memcpy_def leD)

text \<open>A write that fits needs no allocation and always succeeds.\<close>

lemma buffer_write_fits:
  assumes "buffer_ok b" and "alloc_sane alloc" and "unat l \<le> length bytes" and "unat l \<le> 2 ^ 32"
    and "unat (buf_length b) + unat l \<le> unat (allocated_size b)"
  obtains b' where "loqui_buffer_write alloc b bytes l = Some (0, b')" and "buffer_ok b'"
    and "buf_bytes b' = buf_bytes b @ take (unat l) bytes"
    and "allocated_size b \<le> allocated_size b'"
proof -
  have "unat (buf_length b + l) \<le> unat (allocated_size b)"
    using assms(5) unat_add_le_size [of "buf_length b" l] by linarith
  then have "\<not> allocated_size b < buf_length b + l"
    by (simp add: not_less word_le_nat_alt)
  then show ?thesis
    using buffer_write_cases [OF assms(1-4)] that by metis
qed

lemma buffer_ensure_cases:
  assumes ok: "buffer_ok b" and sane: "alloc_sane alloc"
  obtains (ensured) b' where "loqui_buffer_ensure_size alloc b n = Some (0, b')" and "buffer_ok b'"
      and "buf_bytes b' = buf_bytes b" and "buf_length b' = buf_length b"
      and "n \<le> allocated_size b'" and "allocated_size b \<le> allocated_size b'"
  | (refused) "loqui_buffer_ensure_size alloc b n = Some (-1, b)"
      and "allocated_size b < n" and "\<not> alloc n"
proof (cases "allocated_size b < n")
  case False
  with ensured [of b] ok show ?thesis by (simp add: loqui_buffer_ensure_size_def)
next
  case True
  then have n0: "n \<noteq> 0" by auto
  show ?thesis
  proof (cases "alloc n")
    case False
    with True n0 refused show ?thesis by (simp add: loqui_buffer_ensure_size_def c_realloc_def)
  next
    case granted: True
    let ?b = "b\<lparr>buf := Some (take (unat n) (cells (buf b))), allocated_size := n\<rparr>"
    have lt: "unat (allocated_size b) < unat n" using True by (simp add: word_less_nat_alt)
    have "loqui_buffer_ensure_size alloc b n = Some (0, ?b)"
      using True n0 granted by (simp add: loqui_buffer_ensure_size_def c_realloc_def)
    moreover have "buffer_ok ?b" and "buf_bytes ?b = buf_bytes b"
      using ok lt alloc_saneD [OF sane granted] by (auto simp: buffer_ok_def buf_bytes_def min_def)
    ultimately show ?thesis using ensured True by simp
  qed
qed

text \<open>An allocator that grants every request for an object of possible size.\<close>

definition ample :: "allocator \<Rightarrow> bool" where
  "ample alloc \<longleftrightarrow> (\<forall>k. alloc k \<longleftrightarrow> unat k < max_object)"

lemma ample_sane: "ample alloc \<Longrightarrow> alloc_sane alloc"
  by (simp add: ample_def alloc_sane_def)

lemma ample_refuses: "ample alloc \<Longrightarrow> refuses alloc n \<Longrightarrow> max_object \<le> 2 * n"
  by (auto simp: ample_def refuses_def)

lemma ample_exists: "ample big_allocator"
  by (simp add: ample_def big_allocator_def max_object_def word_less_nat_alt)

section \<open>Properties\<close>

text \<open>
  \<open>loqui_buffer_write\<close> on a well-formed buffer never accesses memory outside its
  allocation. It appends exactly the bytes given, or returns -1 with the buffer unchanged, and then the
  allocator refused a request of at most twice the bytes needed.
\<close>

theorem buffer_write_contract:
  assumes "buffer_ok b" and "alloc_sane alloc" and "unat l \<le> length bytes" and "unat l \<le> 2 ^ 32"
  shows "(\<exists>b'. loqui_buffer_write alloc b bytes l = Some (0, b') \<and> buffer_ok b' \<and>
            buf_bytes b' = buf_bytes b @ take (unat l) bytes) \<or>
         loqui_buffer_write alloc b bytes l = Some (-1, b) \<and>
            refuses alloc (length (buf_bytes b) + unat l)"
  by (rule buffer_write_cases [OF assms]) auto

lemma buffer_write_contract_witness:
  "\<exists>b'. loqui_buffer_write big_allocator \<lparr>buf = Some [7], buf_length = 1, allocated_size = 1\<rparr> [8, 9] 2
      = Some (0, b') \<and> buffer_ok b' \<and> buf_bytes b' = [7, 8, 9]"
  using buffer_write_contract [of "\<lparr>buf = Some [7], buf_length = 1, allocated_size = 1\<rparr>"
      big_allocator 2 "[8, 9]"]
  by (auto simp: buffer_ok_def buf_bytes_def max_object_def)

text \<open>
  \<open>loqui_buffer_ensure_size\<close> makes the allocation at least as large as asked and
  keeps the contents, or returns -1 and changes nothing.
\<close>

theorem buffer_ensure_contract:
  assumes "buffer_ok b" and "alloc_sane alloc"
  shows "(\<exists>b'. loqui_buffer_ensure_size alloc b n = Some (0, b') \<and> buffer_ok b' \<and>
            buf_bytes b' = buf_bytes b \<and> n \<le> allocated_size b') \<or>
         loqui_buffer_ensure_size alloc b n = Some (-1, b) \<and> \<not> alloc n"
  by (rule buffer_ensure_cases [OF assms]) auto

lemma buffer_ensure_contract_witness:
  "\<exists>b'. loqui_buffer_ensure_size big_allocator \<lparr>buf = Some [7], buf_length = 1, allocated_size = 1\<rparr> 100
      = Some (0, b') \<and> buffer_ok b' \<and> buf_bytes b' = [7] \<and> 100 \<le> allocated_size b'"
  using buffer_ensure_contract [of "\<lparr>buf = Some [7], buf_length = 1, allocated_size = 1\<rparr>"
      big_allocator 100]
  by (auto simp: buffer_ok_def buf_bytes_def max_object_def big_allocator_def)

end
