(* ===== verification/Loqui_Sysdep.thy ===== *)
theory Loqui_Sysdep
  imports Loqui_Prelude
begin

text \<open>
  \<open>c/sysdep.h\<close>: the byte-order macros. \<open>_loqui_be16\<close> and \<open>_loqui_be32\<close> convert
  between host and network order; \<open>_loqui_store16\<close> and \<open>_loqui_store32\<close> copy the converted
  value's object representation to memory; \<open>_loqui_load16\<close> and \<open>_loqui_load32\<close> assemble
  a value from bytes with shifts. The host's byte order is a parameter, so that the wire format
  can be shown not to depend on it. \<open>ntohs\<close> and \<open>ntohl\<close>, used on a non-Windows
  little-endian host, are the same byte swaps as the macros' own fall-back expressions, which are
  the ones modelled here.
\<close>

section \<open>Definitions\<close>

datatype endianness = LittleEndian | BigEndian

definition loqui_be16 :: "endianness \<Rightarrow> u16 \<Rightarrow> u16" where
  "loqui_be16 e x =
     (case e of LittleEndian \<Rightarrow> push_bit 8 x OR drop_bit 8 x | BigEndian \<Rightarrow> x)"

definition loqui_be32 :: "endianness \<Rightarrow> u32 \<Rightarrow> u32" where
  "loqui_be32 e x =
     (case e of
        LittleEndian \<Rightarrow>
          push_bit 24 x OR (push_bit 8 x AND 0x00ff0000) OR (drop_bit 8 x AND 0x0000ff00)
            OR drop_bit 24 x
      | BigEndian \<Rightarrow> x)"

text \<open>The object representation of an integer: what \<open>memcpy(to, &val, n)\<close> copies.\<close>

definition object_bytes16 :: "endianness \<Rightarrow> u16 \<Rightarrow> byte list" where
  "object_bytes16 e v =
     (let bs = [ucast v, ucast (drop_bit 8 v)]
      in case e of LittleEndian \<Rightarrow> bs | BigEndian \<Rightarrow> rev bs)"

definition object_bytes32 :: "endianness \<Rightarrow> u32 \<Rightarrow> byte list" where
  "object_bytes32 e v =
     (let bs = [ucast v, ucast (drop_bit 8 v), ucast (drop_bit 16 v), ucast (drop_bit 24 v)]
      in case e of LittleEndian \<Rightarrow> bs | BigEndian \<Rightarrow> rev bs)"

definition loqui_store16 :: "endianness \<Rightarrow> u16 \<Rightarrow> byte list" where
  "loqui_store16 e num = object_bytes16 e (loqui_be16 e num)"

definition loqui_store32 :: "endianness \<Rightarrow> u32 \<Rightarrow> byte list" where
  "loqui_store32 e num = object_bytes32 e (loqui_be32 e num)"

text \<open>
  The loads read consecutive bytes at an offset; reading a cell that is not there is undefined.
\<close>

definition loqui_load16 :: "byte list \<Rightarrow> nat \<Rightarrow> u16 option" where
  "loqui_load16 m off =
     (if off + 2 \<le> length m
      then Some (push_bit 8 (ucast (m ! off)) OR ucast (m ! (off + 1)))
      else None)"

definition loqui_load32 :: "byte list \<Rightarrow> nat \<Rightarrow> u32 option" where
  "loqui_load32 m off =
     (if off + 4 \<le> length m
      then Some (push_bit 24 (ucast (m ! off)) OR push_bit 16 (ucast (m ! (off + 1)))
                 OR push_bit 8 (ucast (m ! (off + 2))) OR ucast (m ! (off + 3)))
      else None)"

section \<open>Network byte order, on every host\<close>

definition be16_bytes :: "u16 \<Rightarrow> byte list" where
  "be16_bytes x = [ucast (drop_bit 8 x), ucast x]"

definition be32_bytes :: "u32 \<Rightarrow> byte list" where
  "be32_bytes x = [ucast (drop_bit 24 x), ucast (drop_bit 16 x), ucast (drop_bit 8 x), ucast x]"

lemma bit_low_byte: "n < 8 \<Longrightarrow> bit (255 :: int) n"
proof -
  assume "n < 8"
  then have "bit (mask 8 :: int) n" by (simp add: bit_mask_iff)
  then show ?thesis by (simp add: mask_numeral)
qed

lemma bit_second_byte: "n < 8 \<Longrightarrow> \<not> bit (65280 :: int) n"
proof -
  assume "n < 8"
  then have "\<not> bit (push_bit 8 (mask 8) :: int) n" by (simp add: bit_simps)
  then show ?thesis by (simp add: mask_numeral)
qed

lemma store16_bytes: "loqui_store16 e x = be16_bytes x"
  by (cases e)
    (auto simp: loqui_store16_def loqui_be16_def object_bytes16_def be16_bytes_def
      bit_simps intro!: bit_word_eqI)

lemma store32_bytes: "loqui_store32 e x = be32_bytes x"
  by (cases e)
    (auto simp: loqui_store32_def loqui_be32_def object_bytes32_def be32_bytes_def
      bit_simps bit_low_byte bit_second_byte intro!: bit_word_eqI)

lemma length_be_bytes [simp]: "length (be16_bytes x) = 2" "length (be32_bytes y) = 4"
  by (simp_all add: be16_bytes_def be32_bytes_def)

text \<open>A load reads back what a store wrote, whatever is around it and on every host.\<close>

lemma byte_index_cases:
  fixes n :: nat
  assumes "n < 32"
  obtains m where "m < 8" and "n = m" | m where "m < 8" and "n = 8 + m"
    | m where "m < 8" and "n = 16 + m" | m where "m < 8" and "n = 24 + m"
proof -
  consider "n < 8" | "8 \<le> n" "n < 16" | "16 \<le> n" "n < 24" | "24 \<le> n"
    by linarith
  then show ?thesis
    using assms that(1) [of n] that(2) [of "n - 8"] that(3) [of "n - 16"] that(4) [of "n - 24"]
    by cases simp_all
qed

lemma assemble32:
  "push_bit 24 (ucast (ucast (drop_bit 24 x) :: byte))
     OR push_bit 16 (ucast (ucast (drop_bit 16 x) :: byte))
     OR push_bit 8 (ucast (ucast (drop_bit 8 x) :: byte)) OR ucast (ucast x :: byte) = (x :: u32)"
  (is "?l = x")
proof (rule bit_word_eqI)
  fix n
  assume "n < LENGTH(32)"
  then have "n < 32" by simp
  then show "bit ?l n = bit x n"
    by (cases n rule: byte_index_cases) (auto simp: bit_simps)
qed

lemma assemble16:
  "push_bit 8 (ucast (ucast (drop_bit 8 x) :: byte)) OR ucast (ucast x :: byte) = (x :: u16)"
  (is "?l = x")
proof (rule bit_word_eqI)
  fix n
  assume "n < LENGTH(16)"
  then have "n < 32" and "n < 16" by simp_all
  then show "bit ?l n = bit x n"
    by (cases n rule: byte_index_cases) (auto simp: bit_simps)
qed

lemma load16_be16: "loqui_load16 (xs @ be16_bytes x @ ys) (length xs) = Some x"
  by (simp add: loqui_load16_def be16_bytes_def nth_append assemble16)

lemma load32_be32: "loqui_load32 (xs @ be32_bytes x @ ys) (length xs) = Some x"
  by (simp add: loqui_load32_def be32_bytes_def nth_append assemble32)

lemma load16_at: "length xs = off \<Longrightarrow> loqui_load16 (xs @ be16_bytes x @ ys) off = Some x"
  using load16_be16 [of xs x ys] by simp

lemma load32_at: "length xs = off \<Longrightarrow> loqui_load32 (xs @ be32_bytes x @ ys) off = Some x"
  using load32_be32 [of xs x ys] by simp

lemma load32_defined: "off + 4 \<le> length m \<Longrightarrow> \<exists>v. loqui_load32 m off = Some v"
  by (simp add: loqui_load32_def)

lemma load16_defined: "off + 2 \<le> length m \<Longrightarrow> \<exists>v. loqui_load16 m off = Some v"
  by (simp add: loqui_load16_def)

text \<open>A load depends on the bytes it reads only.\<close>

lemma load32_take: "off + 4 \<le> n \<Longrightarrow> n \<le> length m \<Longrightarrow> loqui_load32 (take n m) off = loqui_load32 m off"
  by (simp add: loqui_load32_def)

lemma load16_take: "off + 2 \<le> n \<Longrightarrow> n \<le> length m \<Longrightarrow> loqui_load16 (take n m) off = loqui_load16 m off"
  by (simp add: loqui_load16_def)

text \<open>And every four (or two) bytes are the network form of some value.\<close>

lemma byte_no_high_bit [simp]: "\<not> bit (b :: byte) (8 + n)" "\<not> bit (b :: byte) (16 + n)" "\<not> bit (b :: byte) (24 + n)"
  using bit_imp_le_length [of b "8 + n"] bit_imp_le_length [of b "16 + n"] bit_imp_le_length [of b "24 + n"]
  by auto

lemma be32_of_bytes:
  "be32_bytes (push_bit 24 (ucast a) OR push_bit 16 (ucast b) OR push_bit 8 (ucast c) OR ucast d) = [a, b, c, d]"
  for a b c d :: byte
  by (auto simp: be32_bytes_def bit_simps intro!: bit_word_eqI)

lemma be16_of_bytes:
  "be16_bytes (push_bit 8 (ucast a) OR ucast b) = [a, b]" for a b :: byte
  by (auto simp: be16_bytes_def bit_simps intro!: bit_word_eqI)

lemma take4: "off + 4 \<le> length m \<Longrightarrow> take 4 (drop off m) = [m ! off, m ! (off+1), m ! (off+2), m ! (off+3)]"
  by (simp add: take_Suc_conv_app_nth numeral_eq_Suc ac_simps)

lemma take2: "off + 2 \<le> length m \<Longrightarrow> take 2 (drop off m) = [m ! off, m ! (off+1)]"
  by (simp add: take_Suc_conv_app_nth numeral_eq_Suc)

lemma load32_bytes: "loqui_load32 m off = Some x \<Longrightarrow> be32_bytes x = take 4 (drop off m)"
  by (auto simp: loqui_load32_def be32_of_bytes take4 split: if_splits)

lemma load16_bytes: "loqui_load16 m off = Some x \<Longrightarrow> be16_bytes x = take 2 (drop off m)"
  by (auto simp: loqui_load16_def be16_of_bytes take2 split: if_splits)

section \<open>Properties\<close>

text \<open>
  What the store macros write does not depend on the host's byte order: it is network byte
  order on a little-endian and on a big-endian host.
\<close>

theorem store_host_independent:
  "loqui_store16 e x = be16_bytes x \<and> loqui_store32 e y = be32_bytes y"
  by (simp add: store16_bytes store32_bytes)

text \<open>
  A load reads back the value a store wrote, on every host and at every place in memory.
\<close>

theorem load_after_store:
  "loqui_load16 (xs @ loqui_store16 e x @ ys) (length xs) = Some x \<and>
   loqui_load32 (xs @ loqui_store32 e y @ ys) (length xs) = Some y"
  by (simp add: store16_bytes store32_bytes load16_be16 load32_be32)

end
