(* ===== verification/Loqui_Wire.thy ===== *)
theory Loqui_Wire
  imports Loqui_Sysdep
begin

text \<open>
  \<open>c/constants.h\<close>, and the wire format the README's tables describe: the opcodes, and for
  each frame the bytes it is made of. The format is the abstract specification that the encoder
  and the decoder are proved against; it is not itself a translation of code.
\<close>

section \<open>Constants\<close>

definition LOQUI_VERSION :: byte where [simp]: "LOQUI_VERSION = 1"

definition LOQUI_DATA_SIZE_MAX :: size_t where "LOQUI_DATA_SIZE_MAX = 1024 * 1024 * 50"

definition LOQUI_OP_HELLO :: byte where [simp]: "LOQUI_OP_HELLO = 1"
definition LOQUI_OP_HELLO_ACK :: byte where [simp]: "LOQUI_OP_HELLO_ACK = 2"
definition LOQUI_OP_PING :: byte where [simp]: "LOQUI_OP_PING = 3"
definition LOQUI_OP_PONG :: byte where [simp]: "LOQUI_OP_PONG = 4"
definition LOQUI_OP_REQUEST :: byte where [simp]: "LOQUI_OP_REQUEST = 5"
definition LOQUI_OP_RESPONSE :: byte where [simp]: "LOQUI_OP_RESPONSE = 6"
definition LOQUI_OP_PUSH :: byte where [simp]: "LOQUI_OP_PUSH = 7"
definition LOQUI_OP_GOAWAY :: byte where [simp]: "LOQUI_OP_GOAWAY = 8"
definition LOQUI_OP_ERROR :: byte where [simp]: "LOQUI_OP_ERROR = 9"

datatype loqui_decoder_status =
    LOQUI_DECODE_NEEDS_MORE
  | LOQUI_DECODE_COMPLETE
  | LOQUI_DECODE_MEMORY_ERROR
  | LOQUI_DECODE_INVALID_OPCODE
  | LOQUI_DECODE_INVALID_SIZE

fun status_value :: "loqui_decoder_status \<Rightarrow> int" where
  "status_value LOQUI_DECODE_NEEDS_MORE = 1"
| "status_value LOQUI_DECODE_COMPLETE = 2"
| "status_value LOQUI_DECODE_MEMORY_ERROR = -1"
| "status_value LOQUI_DECODE_INVALID_OPCODE = -2"
| "status_value LOQUI_DECODE_INVALID_SIZE = -3"

lemma data_size_max_unat [simp]: "unat LOQUI_DATA_SIZE_MAX = 52428800"
  by (simp add: LOQUI_DATA_SIZE_MAX_def)

section \<open>Frames and their bytes\<close>

text \<open>
  A frame as the README lists them. Payloads are opaque bytes; the payload size field is
  the payload's length.
\<close>

datatype frame =
    FHello byte byte "byte list"
  | FHelloAck byte u32 "byte list"
  | FPing byte u32
  | FPong byte u32
  | FRequest byte u32 "byte list"
  | FResponse byte u32 "byte list"
  | FPush byte "byte list"
  | FGoAway byte u16 "byte list"
  | FError byte u32 u16 "byte list"

definition size_field :: "byte list \<Rightarrow> byte list" where
  "size_field p = be32_bytes (of_nat (length p))"

text \<open>The opcode, the header behind it, and the payload.\<close>

fun frame_opcode :: "frame \<Rightarrow> byte" where
  "frame_opcode (FHello _ _ _) = LOQUI_OP_HELLO"
| "frame_opcode (FHelloAck _ _ _) = LOQUI_OP_HELLO_ACK"
| "frame_opcode (FPing _ _) = LOQUI_OP_PING"
| "frame_opcode (FPong _ _) = LOQUI_OP_PONG"
| "frame_opcode (FRequest _ _ _) = LOQUI_OP_REQUEST"
| "frame_opcode (FResponse _ _ _) = LOQUI_OP_RESPONSE"
| "frame_opcode (FPush _ _) = LOQUI_OP_PUSH"
| "frame_opcode (FGoAway _ _ _) = LOQUI_OP_GOAWAY"
| "frame_opcode (FError _ _ _ _) = LOQUI_OP_ERROR"

fun frame_header :: "frame \<Rightarrow> byte list" where
  "frame_header (FHello fl v p) = fl # v # size_field p"
| "frame_header (FHelloAck fl pi p) = fl # be32_bytes pi @ size_field p"
| "frame_header (FPing fl s) = fl # be32_bytes s"
| "frame_header (FPong fl s) = fl # be32_bytes s"
| "frame_header (FRequest fl s p) = fl # be32_bytes s @ size_field p"
| "frame_header (FResponse fl s p) = fl # be32_bytes s @ size_field p"
| "frame_header (FPush fl p) = fl # size_field p"
| "frame_header (FGoAway fl c p) = fl # be16_bytes c @ size_field p"
| "frame_header (FError fl s c p) = fl # be32_bytes s @ be16_bytes c @ size_field p"

fun frame_payload :: "frame \<Rightarrow> byte list" where
  "frame_payload (FHello _ _ p) = p"
| "frame_payload (FHelloAck _ _ p) = p"
| "frame_payload (FPing _ _) = []"
| "frame_payload (FPong _ _) = []"
| "frame_payload (FRequest _ _ p) = p"
| "frame_payload (FResponse _ _ p) = p"
| "frame_payload (FPush _ p) = p"
| "frame_payload (FGoAway _ _ p) = p"
| "frame_payload (FError _ _ _ p) = p"

definition wire :: "frame \<Rightarrow> byte list" where
  "wire f = frame_opcode f # frame_header f @ frame_payload f"

text \<open>The largest payload the protocol's decoder accepts: 50 MiB.\<close>

definition max_payload :: nat where
  "max_payload = 52428800"

section \<open>Cutting a stream into raw frames\<close>

text \<open>
  Header sizes (behind the opcode) and where the payload size field stands in the header.
  A header size of 0 marks a byte that is no opcode.
\<close>

definition header_len :: "byte \<Rightarrow> nat" where
  "header_len op =
     (if op = 1 then 6 else if op = 2 then 9 else if op = 3 then 5 else if op = 4 then 5
      else if op = 5 then 9 else if op = 6 then 9 else if op = 7 then 5 else if op = 8 then 7
      else if op = 9 then 11 else 0)"

definition size_offset :: "byte \<Rightarrow> nat option" where
  "size_offset op =
     (if op = 1 then Some 2 else if op = 2 \<or> op = 5 \<or> op = 6 then Some 5
      else if op = 7 then Some 1 else if op = 8 then Some 3 else if op = 9 then Some 7 else None)"

definition payload_len :: "byte \<Rightarrow> byte list \<Rightarrow> nat" where
  "payload_len op hdr =
     (case size_offset op of None \<Rightarrow> 0
      | Some off \<Rightarrow> (case loqui_load32 hdr off of None \<Rightarrow> 0 | Some n \<Rightarrow> unat n))"

datatype raw_frame = Raw (raw_op: byte) (raw_header: "byte list") (raw_payload: "byte list")

datatype cut_result =
    Incomplete
  | BadOpcode
  | BadSize
  | Frame raw_frame "byte list"

text \<open>The first frame of a stream of bytes and the bytes behind it.\<close>

fun cut_frame :: "byte list \<Rightarrow> cut_result" where
  "cut_frame [] = Incomplete"
| "cut_frame (op # bs) =
     (let h = header_len op in
      if h = 0 then BadOpcode
      else if length bs < h then Incomplete
      else let n = payload_len op (take h bs) in
        if n > max_payload then BadSize
        else if length bs < h + n then Incomplete
        else Frame (Raw op (take h bs) (take n (drop h bs))) (drop (h + n) bs))"

lemma size_offset_in_header: "size_offset op = Some off \<Longrightarrow> off + 4 \<le> header_len op"
  by (auto simp: size_offset_def header_len_def split: if_splits)

lemma header_len_pos_le: "header_len op \<le> 11"
  by (simp add: header_len_def)

lemma payload_len_take:
  "header_len op \<le> length bs \<Longrightarrow> payload_len op (take (header_len op) bs) = payload_len op bs"
  using size_offset_in_header [of op]
  by (auto simp: payload_len_def load32_take split: option.splits)

lemma payload_len_prefix:
  "header_len op \<le> length bs \<Longrightarrow> payload_len op (take (header_len op) (bs @ ys)) = payload_len op bs"
  by (simp add: payload_len_take)

lemma cut_frame_header:
  assumes "header_len op \<noteq> 0" and "header_len op \<le> length bs"
  shows "cut_frame (op # bs @ ys) =
    (let h = header_len op; n = payload_len op bs in
     if n > max_payload then BadSize
     else if length bs + length ys < h + n then Incomplete
     else Frame (Raw op (take h bs) (take n (drop h (bs @ ys)))) (drop (h + n) (bs @ ys)))"
  using assms by (simp add: Let_def payload_len_take)

lemma payload_len_bound: "payload_len op hdr < 2 ^ 32"
  using unat_u32_bound by (auto simp: payload_len_def split: option.splits)

lemma cut_frame_consumes:
  "cut_frame bs = Frame r rest \<Longrightarrow> length rest < length bs"
  by (cases bs) (auto simp: Let_def split: if_splits)

lemma cut_frame_append:
  "cut_frame bs = Frame r rest \<Longrightarrow> cut_frame (bs @ ys) = Frame r (rest @ ys)"
  by (cases bs) (auto simp: Let_def split: if_splits)

lemma cut_frame_append_bad:
  "cut_frame bs = BadOpcode \<Longrightarrow> cut_frame (bs @ ys) = BadOpcode"
  "cut_frame bs = BadSize \<Longrightarrow> cut_frame (bs @ ys) = BadSize"
  by (cases bs; auto simp: Let_def split: if_splits)+

definition raw_of :: "frame \<Rightarrow> raw_frame" where
  "raw_of f = Raw (frame_opcode f) (frame_header f) (frame_payload f)"

text \<open>The frame's own bytes are cut off whole, whatever follows them.\<close>

lemma header_len_frame: "length (frame_header f) = header_len (frame_opcode f)"
  by (cases f) (simp_all add: header_len_def size_field_def)

lemma payload_len_frame:
  assumes "length (frame_payload f) < 2 ^ 32"
  shows "payload_len (frame_opcode f) (frame_header f) = length (frame_payload f)"
proof -
  have n: "unat (of_nat (length (frame_payload f)) :: u32) = length (frame_payload f)"
    using assms by (simp add: unat_of_nat)
  have l0: "loqui_load32 (a # b # be32_bytes x) 2 = Some x" for a b x
    using load32_at [of "[a, b]" 2 x "[]"] by simp
  have l1: "loqui_load32 (a # be32_bytes y @ be32_bytes x) 5 = Some x" for a x y
    using load32_at [of "a # be32_bytes y" 5 x "[]"] by simp
  have l2: "loqui_load32 (a # be32_bytes x) 1 = Some x" for a x
    using load32_at [of "[a]" 1 x "[]"] by simp
  have l3: "loqui_load32 (a # be16_bytes y @ be32_bytes x) 3 = Some x" for a x y
    using load32_at [of "a # be16_bytes y" 3 x "[]"] by simp
  have l4: "loqui_load32 (a # be32_bytes z @ be16_bytes y @ be32_bytes x) 7 = Some x" for a x y z
    using load32_at [of "a # be32_bytes z @ be16_bytes y" 7 x "[]"] by simp
  show ?thesis
    using n by (cases f) (simp_all add: payload_len_def size_offset_def size_field_def l0 l1 l2 l2 [unfolded One_nat_def] l3 l4)
qed

lemma cut_frame_wire:
  assumes "length (frame_payload f) \<le> max_payload"
  shows "cut_frame (wire f @ rest) = Frame (raw_of f) rest"
proof -
  have small: "length (frame_payload f) < 2 ^ 32"
    using assms by (simp add: max_payload_def)
  have pos: "header_len (frame_opcode f) \<noteq> 0"
    by (cases f) (simp_all add: header_len_def)
  show ?thesis
    using assms pos header_len_frame [of f, symmetric] payload_len_frame [OF small]
    by (simp add: wire_def raw_of_def Let_def)
qed

section \<open>Every raw frame is a frame\<close>

lemma header_split:
  assumes "length h = Suc (off + 4)" and "loqui_load32 h (Suc off) = Some n"
  shows "h = h ! 0 # take off (tl h) @ be32_bytes n"
proof -
  have "h = hd h # tl h" using assms(1) by (cases h) auto
  moreover have "tl h = take off (tl h) @ drop off (tl h)" by simp
  moreover have "drop off (tl h) = be32_bytes n"
    using load32_bytes [OF assms(2)] assms(1) by (simp add: drop_Suc)
  ultimately show ?thesis by (metis hd_conv_nth list.discI)
qed

lemma raw_is_frame:
  assumes op: "header_len op \<noteq> 0" and hl: "length h = header_len op"
    and pl: "length p = payload_len op h"
  obtains f where "raw_of f = Raw op h p"
proof -
  have u32: "\<exists>x. be32_bytes x = bs" if "length bs = 4" for bs
    using that load32_bytes [of bs 0] load32_defined [of 0 bs] by auto
  have u16: "\<exists>x. be16_bytes x = bs" if "length bs = 2" for bs
    using that load16_bytes [of bs 0] load16_defined [of 0 bs] by auto
  have sf: "size_field p = be32_bytes n \<and> h = h ! 0 # take off (tl h) @ be32_bytes n"
    if "size_offset op = Some (Suc off)" "header_len op = Suc (off + 4)" "loqui_load32 h (Suc off) = Some n" for off n
    using that pl header_split [of h off n] hl by (simp add: payload_len_def size_field_def)
  have ops: "op = 1 \<or> op = 2 \<or> op = 3 \<or> op = 4 \<or> op = 5 \<or> op = 6 \<or> op = 7 \<or> op = 8 \<or> op = 9"
    using op by (auto simp: header_len_def split: if_splits)
  have sized: "\<exists>mid. h = h ! 0 # mid @ size_field p \<and> length mid = off"
    if "size_offset op = Some (Suc off)" "header_len op = Suc (off + 4)" for off
  proof -
    obtain n where "loqui_load32 h (Suc off) = Some n"
      using load32_defined [of "Suc off" h] \<open>header_len op = Suc (off + 4)\<close> hl by auto
    then show ?thesis using sf [OF that] hl that by (metis length_take length_tl diff_Suc_1 min_absorb2 le_add1)
  qed
  consider (1) "op = 1" | (2) "op = 2 \<or> op = 5 \<or> op = 6" | (3) "op = 3 \<or> op = 4" | (7) "op = 7" | (8) "op = 8" | (9) "op = 9"
    using ops by blast
  then show ?thesis
  proof cases
    case 1
    then obtain mid where "h = h ! 0 # mid @ size_field p" "length mid = 1"
      using sized [of 1] by (auto simp: size_offset_def header_len_def)
    then show ?thesis using that [of "FHello (h ! 0) (hd mid) p"] 1 by (cases mid) (auto simp: raw_of_def)
  next
    case 2
    then obtain mid where m: "h = h ! 0 # mid @ size_field p" "length mid = 4"
      using sized [of 4] by (auto simp: size_offset_def header_len_def)
    then obtain x where "be32_bytes x = mid" using u32 by blast
    then show ?thesis
      using that [of "FHelloAck (h ! 0) x p"] that [of "FRequest (h ! 0) x p"] that [of "FResponse (h ! 0) x p"] 2 m
      by (auto simp: raw_of_def)
  next
    case 3
    then have "length h = 5" "p = []" using hl pl by (auto simp: header_len_def payload_len_def size_offset_def)
    then obtain x where "h = h ! 0 # be32_bytes x" using u32 [of "tl h"] by (cases h) auto
    then show ?thesis
      using that [of "FPing (h ! 0) x"] that [of "FPong (h ! 0) x"] 3 \<open>p = []\<close> by (auto simp: raw_of_def)
  next
    case 7
    then have "h = h ! 0 # size_field p" using sized [of 0] by (auto simp: size_offset_def header_len_def)
    then show ?thesis using that [of "FPush (h ! 0) p"] 7 by (auto simp: raw_of_def)
  next
    case 8
    then obtain mid where m: "h = h ! 0 # mid @ size_field p" "length mid = 2"
      using sized [of 2] by (auto simp: size_offset_def header_len_def)
    then obtain x where "be16_bytes x = mid" using u16 by blast
    then show ?thesis using that [of "FGoAway (h ! 0) x p"] 8 m by (auto simp: raw_of_def)
  next
    case 9
    then obtain mid where m: "h = h ! 0 # mid @ size_field p" "length mid = 6"
      using sized [of 6] by (auto simp: size_offset_def header_len_def)
    then obtain x y where "be32_bytes x = take 4 mid" "be16_bytes y = drop 4 mid"
      using u32 [of "take 4 mid"] u16 [of "drop 4 mid"] by auto
    then show ?thesis using that [of "FError (h ! 0) x y p"] 9 m by (auto simp: raw_of_def) (metis append.assoc append_take_drop_id)
  qed
qed
text \<open>
  So cutting accepts exactly the encodings: a stream from which a frame is cut starts with that
  frame's bytes, and no two frames have the same bytes.
\<close>

lemma cut_frame_sound:
  assumes "cut_frame s = Frame raw rest"
  obtains f where "raw = raw_of f" and "s = wire f @ rest" and "length (frame_payload f) \<le> max_payload"
proof -
  obtain op bs where s: "s = op # bs"
    using assms by (cases s) auto
  define h where "h = header_len op"
  define n where "n = payload_len op (take h bs)"
  have h0: "h \<noteq> 0" and le: "h + n \<le> length bs" and nmax: "n \<le> max_payload"
    and raw: "raw = Raw op (take h bs) (take n (drop h bs))" and rest: "rest = drop (h + n) bs"
    using assms by (auto simp: s h_def n_def Let_def split: if_splits)
  obtain f where f: "raw_of f = Raw op (take h bs) (take n (drop h bs))"
    using raw_is_frame [of op "take h bs" "take n (drop h bs)"] h0 le
    by (auto simp: h_def [symmetric] n_def [symmetric])
  moreover have "s = wire f @ rest"
    using f s rest append_take_drop_id [of h bs] append_take_drop_id [of n "drop h bs"]
    by (simp add: raw_of_def wire_def add.commute)
  moreover have "length (frame_payload f) \<le> max_payload"
    using f nmax le by (simp add: raw_of_def)
  ultimately show ?thesis using that [of f] raw by simp
qed

lemma raw_of_inject: "raw_of f = raw_of g \<longleftrightarrow> f = g"
proof
  have be32: "x = y" if "be32_bytes x = be32_bytes y" for x y
    using load32_be32 [of "[]" x "[]"] load32_be32 [of "[]" y "[]"] that by simp
  have be16: "x = y" if "be16_bytes x = be16_bytes y" for x y
    using load16_be16 [of "[]" x "[]"] load16_be16 [of "[]" y "[]"] that by simp
  show "raw_of f = raw_of g \<Longrightarrow> f = g"
    by (cases f; cases g) (auto simp: raw_of_def size_field_def dest: be32 be16)
qed simp

text \<open>The frame of a raw frame, read off its fields.\<close>

definition field32 :: "byte list \<Rightarrow> nat \<Rightarrow> u32" where
  "field32 h off = (case loqui_load32 h off of None \<Rightarrow> 0 | Some x \<Rightarrow> x)"

definition field16 :: "byte list \<Rightarrow> nat \<Rightarrow> u16" where
  "field16 h off = (case loqui_load16 h off of None \<Rightarrow> 0 | Some x \<Rightarrow> x)"

fun frame_of :: "raw_frame \<Rightarrow> frame" where
  "frame_of (Raw op h p) =
     (if op = 1 then FHello (h ! 0) (h ! 1) p
      else if op = 2 then FHelloAck (h ! 0) (field32 h 1) p
      else if op = 3 then FPing (h ! 0) (field32 h 1)
      else if op = 4 then FPong (h ! 0) (field32 h 1)
      else if op = 5 then FRequest (h ! 0) (field32 h 1) p
      else if op = 6 then FResponse (h ! 0) (field32 h 1) p
      else if op = 7 then FPush (h ! 0) p
      else if op = 8 then FGoAway (h ! 0) (field16 h 1) p
      else FError (h ! 0) (field32 h 1) (field16 h 5) p)"

lemma frame_of_raw [simp]: "frame_of (raw_of f) = f"
proof -
  have l1: "loqui_load32 (a # be32_bytes x @ r) (Suc 0) = Some x" for a x r
    using load32_at [of "[a]" 1 x r] by simp
  have l2: "loqui_load32 (a # be32_bytes x) (Suc 0) = Some x" for a x
    using load32_at [of "[a]" 1 x "[]"] by simp
  have l3: "loqui_load16 (a # be16_bytes x @ r) (Suc 0) = Some x" for a x r
    using load16_at [of "[a]" 1 x r] by simp
  have l4: "loqui_load16 (a # be32_bytes y @ be16_bytes x @ r) 5 = Some x" for a x y r
    using load16_at [of "a # be32_bytes y" 5 x r] by simp
  show ?thesis
    by (cases f) (simp_all add: raw_of_def field32_def field16_def l1 l2 l3 l4)
qed

section \<open>Cutting a whole stream\<close>

text \<open>
  All complete frames of a stream, in order, and how it ends: with the bytes of an incomplete
  frame or with one the protocol does not allow.
\<close>

datatype stream_end = Rest "byte list" | Bad loqui_decoder_status

function deframe :: "byte list \<Rightarrow> raw_frame list \<times> stream_end" where
  "deframe s =
     (case cut_frame s of
        Frame raw rest \<Rightarrow> (let (raws, e) = deframe rest in (raw # raws, e))
      | Incomplete \<Rightarrow> ([], Rest s)
      | BadOpcode \<Rightarrow> ([], Bad LOQUI_DECODE_INVALID_OPCODE)
      | BadSize \<Rightarrow> ([], Bad LOQUI_DECODE_INVALID_SIZE))"
  by pat_completeness auto
termination
  by (relation "measure length") (auto dest: cut_frame_consumes)

declare deframe.simps [simp del]

lemma deframe_simps:
  "cut_frame s = Frame raw rest \<Longrightarrow> deframe s = (raw # fst (deframe rest), snd (deframe rest))"
  "cut_frame s = Incomplete \<Longrightarrow> deframe s = ([], Rest s)"
  "cut_frame s = BadOpcode \<Longrightarrow> deframe s = ([], Bad LOQUI_DECODE_INVALID_OPCODE)"
  "cut_frame s = BadSize \<Longrightarrow> deframe s = ([], Bad LOQUI_DECODE_INVALID_SIZE)"
  by (subst deframe.simps; simp add: case_prod_beta)+

lemma deframe_append:
  "deframe s = (raws, Rest r) \<Longrightarrow> deframe (s @ t) = (raws @ fst (deframe (r @ t)), snd (deframe (r @ t)))"
proof (induction s arbitrary: raws rule: deframe.induct)
  case (1 s)
  show ?case
  proof (cases "cut_frame s")
    case (Frame raw rest)
    obtain raws' where r: "deframe rest = (raws', Rest r)" "raws = raw # raws'"
      using 1(2) deframe_simps(1) [OF Frame] by (cases "deframe rest") auto
    show ?thesis
      using 1(1) [OF Frame r(1)] r(2) deframe_simps(1) [OF cut_frame_append [OF Frame]] by simp
  qed (use 1(2) in \<open>auto simp: deframe_simps\<close>)
qed

lemma deframe_wires:
  assumes "\<And>f. f \<in> set fs \<Longrightarrow> length (frame_payload f) \<le> max_payload"
  shows "deframe (concat (List.map wire fs) @ s) = (List.map raw_of fs @ fst (deframe s), snd (deframe s))"
  using assms
  by (induction fs) (simp_all add: deframe_simps(1) [OF cut_frame_wire])

text \<open>The frames of a stream; every raw frame cut off it is one.\<close>

definition stream_frames :: "byte list \<Rightarrow> frame list" where
  "stream_frames s = List.map frame_of (fst (deframe s))"

lemma deframe_frames: "deframe s = (List.map raw_of (stream_frames s), snd (deframe s))"
proof (induction s rule: deframe.induct)
  case (1 s)
  show ?case
  proof (cases "cut_frame s")
    case (Frame raw rest)
    obtain f where "raw = raw_of f" using cut_frame_sound [OF Frame] by blast
    then show ?thesis
      using 1 [OF Frame] deframe_simps(1) [OF Frame] by (simp add: stream_frames_def prod_eq_iff)
  qed (simp_all add: deframe_simps stream_frames_def)
qed

lemma stream_frames_append:
  assumes "snd (deframe s) = Rest r"
  shows "stream_frames (s @ t) = stream_frames s @ stream_frames (r @ t)"
    and "snd (deframe (s @ t)) = snd (deframe (r @ t))"
  using deframe_append [of s "fst (deframe s)" r t] assms
  by (simp_all add: stream_frames_def prod_eq_iff)

lemma stream_frames_wires:
  assumes "\<And>f. f \<in> set fs \<Longrightarrow> length (frame_payload f) \<le> max_payload"
  shows "stream_frames (concat (List.map wire fs)) = fs" and "snd (deframe (concat (List.map wire fs))) = Rest []"
  using deframe_wires [OF assms, where fs = fs and s = "[]"]
  by (simp_all add: stream_frames_def comp_def deframe_simps)

text \<open>The stream is its frames' bytes and the rest.\<close>

lemma stream_split:
  "snd (deframe s) = Rest r \<Longrightarrow> s = concat (List.map wire (stream_frames s)) @ r"
proof (induction s rule: deframe.induct)
  case (1 s)
  show ?case
  proof (cases "cut_frame s")
    case (Frame raw rest)
    obtain f where f: "raw = raw_of f" "s = wire f @ rest" using cut_frame_sound [OF Frame] by blast
    moreover have "rest = concat (List.map wire (stream_frames rest)) @ r"
      using 1(1) [OF Frame] 1(2) deframe_simps(1) [OF Frame] by simp
    ultimately show ?thesis
      using deframe_simps(1) [OF Frame] by (simp add: stream_frames_def)
  qed (use 1(2) in \<open>simp_all add: deframe_simps stream_frames_def\<close>)
qed

lemma rest_incomplete:
  "snd (deframe s) = Rest r \<Longrightarrow> deframe r = ([], Rest r)"
proof (induction s rule: deframe.induct)
  case (1 s)
  show ?case
  proof (cases "cut_frame s")
    case (Frame raw rest)
    then show ?thesis using 1(1) [OF Frame] 1(2) deframe_simps(1) [OF Frame] by simp
  qed (use 1(2) in \<open>auto simp: deframe_simps\<close>)
qed

end
