(* ===== verification/Loqui_Encoder.thy ===== *)
theory Loqui_Encoder
  imports Loqui_Buffer Loqui_Wire
begin

text \<open>
  \<open>c/encoder.h\<close>: one function per frame. Each fills a header on the stack, appends it to
  the buffer and then appends the payload. The stack array starts as zeros here; the lemmas below
  show that every cell of it is overwritten.
\<close>

section \<open>The append functions\<close>

definition put :: "byte list \<Rightarrow> nat \<Rightarrow> byte list \<Rightarrow> byte list" where
  "put a off bs = take off a @ bs @ drop (off + length bs) a"

definition stack_array :: "nat \<Rightarrow> byte list" where
  "stack_array n = replicate n 0"

definition store16_at :: "byte list \<Rightarrow> nat \<Rightarrow> u16 \<Rightarrow> byte list" where
  "store16_at a off v = put a off (loqui_store16 LittleEndian v)"

definition store32_at :: "byte list \<Rightarrow> nat \<Rightarrow> u32 \<Rightarrow> byte list" where
  "store32_at a off v = put a off (loqui_store32 LittleEndian v)"

definition loqui_append_hello ::
    "allocator \<Rightarrow> loqui_buffer_t \<Rightarrow> byte \<Rightarrow> u32 \<Rightarrow> byte list \<Rightarrow> (int \<times> loqui_buffer_t) option" where
  "loqui_append_hello alloc b flags sz data =
     (let a = stack_array 7;
          a = a[0 := LOQUI_OP_HELLO];
          a = a[1 := flags];
          a = a[2 := LOQUI_VERSION];
          a = store32_at a 3 sz
      in case loqui_buffer_write alloc b a 7 of
           None \<Rightarrow> None
         | Some (ret, b) \<Rightarrow>
             if ret < 0 then Some (ret, b) else loqui_buffer_write alloc b data (ucast sz))"

definition loqui_append_hello_ack ::
    "allocator \<Rightarrow> loqui_buffer_t \<Rightarrow> byte \<Rightarrow> u32 \<Rightarrow> u32 \<Rightarrow> byte list
      \<Rightarrow> (int \<times> loqui_buffer_t) option" where
  "loqui_append_hello_ack alloc b flags ping_interval sz data =
     (let a = stack_array 10;
          a = a[0 := LOQUI_OP_HELLO_ACK];
          a = a[1 := flags];
          a = store32_at a 2 ping_interval;
          a = store32_at a 6 sz
      in case loqui_buffer_write alloc b a 10 of
           None \<Rightarrow> None
         | Some (ret, b) \<Rightarrow>
             if ret < 0 then Some (ret, b) else loqui_buffer_write alloc b data (ucast sz))"

definition loqui_append_ping ::
    "allocator \<Rightarrow> loqui_buffer_t \<Rightarrow> byte \<Rightarrow> u32 \<Rightarrow> (int \<times> loqui_buffer_t) option" where
  "loqui_append_ping alloc b flags seq =
     (let a = stack_array 6;
          a = a[0 := LOQUI_OP_PING];
          a = a[1 := flags];
          a = store32_at a 2 seq
      in loqui_buffer_write alloc b a 6)"

definition loqui_append_pong ::
    "allocator \<Rightarrow> loqui_buffer_t \<Rightarrow> byte \<Rightarrow> u32 \<Rightarrow> (int \<times> loqui_buffer_t) option" where
  "loqui_append_pong alloc b flags seq =
     (let a = stack_array 6;
          a = a[0 := LOQUI_OP_PONG];
          a = a[1 := flags];
          a = store32_at a 2 seq
      in loqui_buffer_write alloc b a 6)"

definition loqui_append_request ::
    "allocator \<Rightarrow> loqui_buffer_t \<Rightarrow> byte \<Rightarrow> u32 \<Rightarrow> u32 \<Rightarrow> byte list
      \<Rightarrow> (int \<times> loqui_buffer_t) option" where
  "loqui_append_request alloc b flags seq sz data =
     (let a = stack_array 10;
          a = a[0 := LOQUI_OP_REQUEST];
          a = a[1 := flags];
          a = store32_at a 2 seq;
          a = store32_at a 6 sz
      in case loqui_buffer_write alloc b a 10 of
           None \<Rightarrow> None
         | Some (ret, b) \<Rightarrow>
             if ret < 0 then Some (ret, b) else loqui_buffer_write alloc b data (ucast sz))"

definition loqui_append_response ::
    "allocator \<Rightarrow> loqui_buffer_t \<Rightarrow> byte \<Rightarrow> u32 \<Rightarrow> u32 \<Rightarrow> byte list
      \<Rightarrow> (int \<times> loqui_buffer_t) option" where
  "loqui_append_response alloc b flags seq sz data =
     (let a = stack_array 10;
          a = a[0 := LOQUI_OP_RESPONSE];
          a = a[1 := flags];
          a = store32_at a 2 seq;
          a = store32_at a 6 sz
      in case loqui_buffer_write alloc b a 10 of
           None \<Rightarrow> None
         | Some (ret, b) \<Rightarrow>
             if ret < 0 then Some (ret, b) else loqui_buffer_write alloc b data (ucast sz))"

definition loqui_append_push ::
    "allocator \<Rightarrow> loqui_buffer_t \<Rightarrow> byte \<Rightarrow> u32 \<Rightarrow> byte list \<Rightarrow> (int \<times> loqui_buffer_t) option" where
  "loqui_append_push alloc b flags sz data =
     (let a = stack_array 6;
          a = a[0 := LOQUI_OP_PUSH];
          a = a[1 := flags];
          a = store32_at a 2 sz
      in case loqui_buffer_write alloc b a 6 of
           None \<Rightarrow> None
         | Some (ret, b) \<Rightarrow>
             if ret < 0 then Some (ret, b) else loqui_buffer_write alloc b data (ucast sz))"

definition loqui_append_goaway ::
    "allocator \<Rightarrow> loqui_buffer_t \<Rightarrow> byte \<Rightarrow> u16 \<Rightarrow> u32 \<Rightarrow> byte list
      \<Rightarrow> (int \<times> loqui_buffer_t) option" where
  "loqui_append_goaway alloc b flags code sz data =
     (let a = stack_array 8;
          a = a[0 := LOQUI_OP_GOAWAY];
          a = a[1 := flags];
          a = store16_at a 2 code;
          a = store32_at a 4 sz
      in case loqui_buffer_write alloc b a 8 of
           None \<Rightarrow> None
         | Some (ret, b) \<Rightarrow>
             if ret < 0 then Some (ret, b) else loqui_buffer_write alloc b data (ucast sz))"

definition loqui_append_error ::
    "allocator \<Rightarrow> loqui_buffer_t \<Rightarrow> byte \<Rightarrow> u16 \<Rightarrow> u32 \<Rightarrow> u32 \<Rightarrow> byte list
      \<Rightarrow> (int \<times> loqui_buffer_t) option" where
  "loqui_append_error alloc b flags code seq sz data =
     (let a = stack_array 12;
          a = a[0 := LOQUI_OP_ERROR];
          a = a[1 := flags];
          a = store32_at a 2 seq;
          a = store16_at a 6 code;
          a = store32_at a 8 sz
      in case loqui_buffer_write alloc b a 12 of
           None \<Rightarrow> None
         | Some (ret, b) \<Rightarrow>
             if ret < 0 then Some (ret, b)
             else if sz = 0 then Some (0, b)
             else loqui_buffer_write alloc b data (ucast sz))"

section \<open>What the append functions write\<close>

lemma put_append: "length xs = off \<Longrightarrow> put (xs @ ys) off bs = xs @ bs @ drop (length bs) ys"
  by (simp add: put_def)

lemmas header_defs = stack_array_def store16_at_def store32_at_def store16_bytes store32_bytes
  put_def be16_bytes_def be32_bytes_def numeral_nat

text \<open>
  The outcome of appending a header and then a payload: all of it (0), or a refused
  allocation (-1) of at most twice the bytes then needed, which leaves the buffer as it was, or,
  when the payload's allocation is the one refused, with the header in it and no payload.
\<close>

definition append_outcome ::
    "allocator \<Rightarrow> loqui_buffer_t \<Rightarrow> byte list \<Rightarrow> byte list \<Rightarrow> (int \<times> loqui_buffer_t) option \<Rightarrow> bool" where
  "append_outcome alloc b hdr payload r \<longleftrightarrow>
     (\<exists>b'. buffer_ok b' \<and>
        (r = Some (0, b') \<and> buf_bytes b' = buf_bytes b @ hdr @ payload \<or>
         r = Some (-1, b') \<and> refuses alloc (length (buf_bytes b) + length hdr + length payload) \<and>
           (b' = b \<or> payload \<noteq> [] \<and> buf_bytes b' = buf_bytes b @ hdr)))"

lemma append_outcome_cases:
  assumes "append_outcome alloc b hdr payload r"
  obtains (sent) b' where "r = Some (0, b')" and "buffer_ok b'"
      and "buf_bytes b' = buf_bytes b @ hdr @ payload"
  | (unchanged) "r = Some (-1, b)" and "refuses alloc (length (buf_bytes b) + length hdr + length payload)"
  | (torn) b' where "r = Some (-1, b')" and "buffer_ok b'" and "payload \<noteq> []"
      and "buf_bytes b' = buf_bytes b @ hdr"
      and "refuses alloc (length (buf_bytes b) + length hdr + length payload)"
  using assms by (auto simp: append_outcome_def)

lemma append_header_only:
  assumes "buffer_ok b" and "alloc_sane alloc" and "length hdr = unat l" and "unat l \<le> 2 ^ 32"
  shows "append_outcome alloc b hdr [] (loqui_buffer_write alloc b hdr l)"
  using assms
  by (auto simp: append_outcome_def intro: buffer_write_cases [of b alloc l hdr])

lemma append_header_payload:
  assumes ok: "buffer_ok b" and sane: "alloc_sane alloc"
    and hdr: "length hdr = unat l" "unat l \<le> 2 ^ 32" and data: "unat (sz :: u32) \<le> length data"
  shows "append_outcome alloc b hdr (take (unat sz) data)
    (case loqui_buffer_write alloc b hdr l of
       None \<Rightarrow> None
     | Some (ret, b) \<Rightarrow>
         if ret < 0 then Some (ret, b) else loqui_buffer_write alloc b data (ucast sz))"
proof -
  have small: "unat (ucast sz :: size_t) \<le> 2 ^ 32"
    using unat_u32_bound [of sz] by simp
  have le: "unat l \<le> length hdr" using hdr by simp
  show ?thesis
  proof (rule buffer_write_cases [OF ok sane le hdr(2)])
    fix b1
    assume w: "loqui_buffer_write alloc b hdr l = Some (0, b1)" and ok1: "buffer_ok b1"
      and b1: "buf_bytes b1 = buf_bytes b @ take (unat l) hdr"
    have le1: "unat (ucast sz :: size_t) \<le> length data" using data by simp
    have torn: "take (unat sz) data \<noteq> []" if "allocated_size b1 < buf_length b1 + ucast sz"
      using that buffer_ok_full [OF ok1] data by (cases "sz = 0") (auto simp: unat_eq_0)
    have len: "length (buf_bytes b1) = length (buf_bytes b) + length hdr" using b1 hdr by simp
    show ?thesis
      by (rule buffer_write_cases [OF ok1 sane le1 small])
        (use torn data in \<open>auto simp: append_outcome_def w b1 hdr ok1 len\<close>)
  next
    assume "loqui_buffer_write alloc b hdr l = Some (-1, b)"
      and "refuses alloc (length (buf_bytes b) + unat l)"
    then show ?thesis
      using ok hdr refuses_mono [of alloc "length (buf_bytes b) + unat l"] by (auto simp: append_outcome_def)
  qed
qed

text \<open>The header each function builds is the frame's, and nothing of the array is left over.\<close>

lemma size_field_take:
  "unat (n :: u32) \<le> length data \<Longrightarrow> size_field (take (unat n) data) = be32_bytes n"
  by (simp add: size_field_def min_def)

lemma hello_header:
  "(stack_array 7)[0 := op, 1 := fl, 2 := v] = [op, fl, v, 0, 0, 0, 0]"
  "store32_at [x0, x1, x2, 0, 0, 0, 0] 3 sz = x0 # x1 # x2 # be32_bytes sz"
  by (simp_all add: header_defs eval_nat_numeral)

lemma ten_byte_header:
  "(stack_array 10)[0 := op, 1 := fl] = [op, fl, 0, 0, 0, 0, 0, 0, 0, 0]"
  "store32_at (store32_at [op, fl, 0, 0, 0, 0, 0, 0, 0, 0] 2 v) 6 sz
    = op # fl # be32_bytes v @ be32_bytes sz"
  by (simp_all add: header_defs eval_nat_numeral)

lemma six_byte_header:
  "(stack_array 6)[0 := op, 1 := fl] = [op, fl, 0, 0, 0, 0]"
  "store32_at [op, fl, 0, 0, 0, 0] 2 v = op # fl # be32_bytes v"
  by (simp_all add: header_defs eval_nat_numeral)

lemma goaway_header:
  "(stack_array 8)[0 := op, 1 := fl] = [op, fl, 0, 0, 0, 0, 0, 0]"
  "store32_at (store16_at [op, fl, 0, 0, 0, 0, 0, 0] 2 c) 4 v
    = op # fl # be16_bytes c @ be32_bytes v"
  by (simp_all add: header_defs eval_nat_numeral)

lemma error_header:
  "(stack_array 12)[0 := op, 1 := fl] = [op, fl, 0, 0, 0, 0, 0, 0, 0, 0, 0, 0]"
  "store32_at (store16_at (store32_at [op, fl, 0, 0, 0, 0, 0, 0, 0, 0, 0, 0] 2 s) 6 c) 8 v
    = op # fl # be32_bytes s @ be16_bytes c @ be32_bytes v"
  by (simp_all add: header_defs eval_nat_numeral)

lemmas built_headers = hello_header [unfolded One_nat_def] ten_byte_header [unfolded One_nat_def]
  six_byte_header [unfolded One_nat_def] goaway_header [unfolded One_nat_def]
  error_header [unfolded One_nat_def]

text \<open>The outcome of sending frame \<open>f\<close>: its header and its payload appended.\<close>

definition frame_outcome ::
    "allocator \<Rightarrow> loqui_buffer_t \<Rightarrow> frame \<Rightarrow> (int \<times> loqui_buffer_t) option \<Rightarrow> bool" where
  "frame_outcome alloc b f r = append_outcome alloc b (frame_opcode f # frame_header f) (frame_payload f) r"

lemma append_hello_outcome:
  assumes "buffer_ok b" and "alloc_sane alloc" and "unat sz \<le> length data"
  shows "frame_outcome alloc b (FHello fl LOQUI_VERSION (take (unat sz) data)) (loqui_append_hello alloc b fl sz data)"
  using append_header_payload [of b alloc "frame_opcode (FHello fl LOQUI_VERSION (take (unat sz) data)) # frame_header (FHello fl LOQUI_VERSION (take (unat sz) data))" 7 sz data] assms
  by (simp add: frame_outcome_def loqui_append_hello_def built_headers size_field_take Let_def)

lemma append_hello_ack_outcome:
  assumes "buffer_ok b" and "alloc_sane alloc" and "unat sz \<le> length data"
  shows "frame_outcome alloc b (FHelloAck fl v (take (unat sz) data)) (loqui_append_hello_ack alloc b fl v sz data)"
  using append_header_payload [of b alloc "frame_opcode (FHelloAck fl v (take (unat sz) data)) # frame_header (FHelloAck fl v (take (unat sz) data))" 10 sz data] assms
  by (simp add: frame_outcome_def loqui_append_hello_ack_def built_headers size_field_take Let_def)

lemma append_request_outcome:
  assumes "buffer_ok b" and "alloc_sane alloc" and "unat sz \<le> length data"
  shows "frame_outcome alloc b (FRequest fl v (take (unat sz) data)) (loqui_append_request alloc b fl v sz data)"
  using append_header_payload [of b alloc "frame_opcode (FRequest fl v (take (unat sz) data)) # frame_header (FRequest fl v (take (unat sz) data))" 10 sz data] assms
  by (simp add: frame_outcome_def loqui_append_request_def built_headers size_field_take Let_def)

lemma append_response_outcome:
  assumes "buffer_ok b" and "alloc_sane alloc" and "unat sz \<le> length data"
  shows "frame_outcome alloc b (FResponse fl v (take (unat sz) data)) (loqui_append_response alloc b fl v sz data)"
  using append_header_payload [of b alloc "frame_opcode (FResponse fl v (take (unat sz) data)) # frame_header (FResponse fl v (take (unat sz) data))" 10 sz data] assms
  by (simp add: frame_outcome_def loqui_append_response_def built_headers size_field_take Let_def)

lemma append_push_outcome:
  assumes "buffer_ok b" and "alloc_sane alloc" and "unat sz \<le> length data"
  shows "frame_outcome alloc b (FPush fl (take (unat sz) data)) (loqui_append_push alloc b fl sz data)"
  using append_header_payload [of b alloc "frame_opcode (FPush fl (take (unat sz) data)) # frame_header (FPush fl (take (unat sz) data))" 6 sz data] assms
  by (simp add: frame_outcome_def loqui_append_push_def built_headers size_field_take Let_def)

lemma append_goaway_outcome:
  assumes "buffer_ok b" and "alloc_sane alloc" and "unat sz \<le> length data"
  shows "frame_outcome alloc b (FGoAway fl c (take (unat sz) data)) (loqui_append_goaway alloc b fl c sz data)"
  using append_header_payload [of b alloc "frame_opcode (FGoAway fl c (take (unat sz) data)) # frame_header (FGoAway fl c (take (unat sz) data))" 8 sz data] assms
  by (simp add: frame_outcome_def loqui_append_goaway_def built_headers size_field_take Let_def)

lemma append_ping_outcome:
  assumes "buffer_ok b" and "alloc_sane alloc"
  shows "frame_outcome alloc b (FPing fl v) (loqui_append_ping alloc b fl v)"
  using append_header_only [of b alloc "frame_opcode (FPing fl v) # frame_header (FPing fl v)" 6] assms
  by (simp add: frame_outcome_def loqui_append_ping_def built_headers Let_def)

lemma append_pong_outcome:
  assumes "buffer_ok b" and "alloc_sane alloc"
  shows "frame_outcome alloc b (FPong fl v) (loqui_append_pong alloc b fl v)"
  using append_header_only [of b alloc "frame_opcode (FPong fl v) # frame_header (FPong fl v)" 6] assms
  by (simp add: frame_outcome_def loqui_append_pong_def built_headers Let_def)

lemma append_outcome_return:
  "append_outcome alloc b hdr p r \<Longrightarrow> append_outcome alloc b hdr p
    (case r of None \<Rightarrow> None | Some (ret, b) \<Rightarrow> if ret < 0 then Some (ret, b) else Some (0, b))"
  by (auto simp: append_outcome_def)

lemma append_error_outcome:
  assumes "buffer_ok b" and "alloc_sane alloc" and "unat sz \<le> length data"
  shows "frame_outcome alloc b (FError fl v c (take (unat sz) data)) (loqui_append_error alloc b fl c v sz data)"
proof (cases "sz = 0")
  case True
  then show ?thesis
    using append_outcome_return [OF append_header_only
        [of b alloc "frame_opcode (FError fl v c []) # frame_header (FError fl v c [])" 12]] assms
    by (simp add: frame_outcome_def loqui_append_error_def built_headers Let_def size_field_def
        cong: option.case_cong if_cong)
next
  case False
  then show ?thesis
    using append_header_payload [of b alloc "frame_opcode (FError fl v c (take (unat sz) data)) # frame_header (FError fl v c (take (unat sz) data))" 12 sz data] assms
    by (simp add: frame_outcome_def loqui_append_error_def built_headers size_field_take Let_def
        cong: option.case_cong prod.case_cong if_cong)
qed

section \<open>Properties\<close>

text \<open>The append function of a frame, called with the frame's fields.\<close>

fun append_frame :: "allocator \<Rightarrow> loqui_buffer_t \<Rightarrow> frame \<Rightarrow> (int \<times> loqui_buffer_t) option" where
  "append_frame alloc b (FHello fl v p) = loqui_append_hello alloc b fl (of_nat (length p)) p"
| "append_frame alloc b (FHelloAck fl pint p) = loqui_append_hello_ack alloc b fl pint (of_nat (length p)) p"
| "append_frame alloc b (FPing fl s) = loqui_append_ping alloc b fl s"
| "append_frame alloc b (FPong fl s) = loqui_append_pong alloc b fl s"
| "append_frame alloc b (FRequest fl s p) = loqui_append_request alloc b fl s (of_nat (length p)) p"
| "append_frame alloc b (FResponse fl s p) = loqui_append_response alloc b fl s (of_nat (length p)) p"
| "append_frame alloc b (FPush fl p) = loqui_append_push alloc b fl (of_nat (length p)) p"
| "append_frame alloc b (FGoAway fl c p) = loqui_append_goaway alloc b fl c (of_nat (length p)) p"
| "append_frame alloc b (FError fl s c p) = loqui_append_error alloc b fl c s (of_nat (length p)) p"

fun current_version :: "frame \<Rightarrow> bool" where
  "current_version (FHello fl v p) \<longleftrightarrow> v = LOQUI_VERSION"
| "current_version _ \<longleftrightarrow> True"

lemma append_frame_outcome:
  assumes "buffer_ok b" and "alloc_sane alloc" and "current_version f" and "length (frame_payload f) < 2 ^ 32"
  shows "frame_outcome alloc b f (append_frame alloc b f)"
proof -
  have n: "unat (of_nat (length p) :: u32) = length p" if "length p < 2 ^ 32" for p :: "byte list"
    using that by (simp add: unat_of_nat)
  note outs = append_hello_outcome [OF assms(1,2)] append_hello_ack_outcome [OF assms(1,2)]
    append_ping_outcome [OF assms(1,2)] append_pong_outcome [OF assms(1,2)]
    append_request_outcome [OF assms(1,2)] append_response_outcome [OF assms(1,2)]
    append_push_outcome [OF assms(1,2)] append_goaway_outcome [OF assms(1,2)]
    append_error_outcome [OF assms(1,2)]
  show ?thesis
  proof (cases f)
    case (FHello fl v p)
    with assms show ?thesis using outs(1) [of "of_nat (length p)" p fl] n [of p] by simp
  next
    case (FHelloAck fl v p)
    with assms show ?thesis using outs(2) [of "of_nat (length p)" p fl v] n [of p] by simp
  next
    case (FRequest fl v p)
    with assms show ?thesis using outs(5) [of "of_nat (length p)" p fl v] n [of p] by simp
  next
    case (FResponse fl v p)
    with assms show ?thesis using outs(6) [of "of_nat (length p)" p fl v] n [of p] by simp
  next
    case (FPush fl p)
    with assms show ?thesis using outs(7) [of "of_nat (length p)" p fl] n [of p] by simp
  next
    case (FGoAway fl c p)
    with assms show ?thesis using outs(8) [of "of_nat (length p)" p fl c] n [of p] by simp
  next
    case (FError fl v c p)
    with assms show ?thesis using outs(9) [of "of_nat (length p)" p fl v c] n [of p] by simp
  qed (use outs in simp_all)
qed

text \<open>
  Each append function appends exactly its frame's bytes (opcode, flags, fields in network
  order, payload size, payload), or returns -1 because an allocation was refused, and then the buffer
  is unchanged or holds the header without its payload.
\<close>

theorem append_encodes:
  assumes "buffer_ok b" and "alloc_sane alloc" and "current_version f" and "length (frame_payload f) < 2 ^ 32"
  shows "\<exists>b'. buffer_ok b' \<and>
    (append_frame alloc b f = Some (0, b') \<and> buf_bytes b' = buf_bytes b @ wire f \<or>
     append_frame alloc b f = Some (-1, b') \<and>
       refuses alloc (length (buf_bytes b) + length (wire f)) \<and>
       (b' = b \<or> frame_payload f \<noteq> [] \<and>
          buf_bytes b' = buf_bytes b @ frame_opcode f # frame_header f))"
  using append_frame_outcome [OF assms]
  by (auto simp: frame_outcome_def append_outcome_def wire_def ac_simps)

lemma append_encodes_witness:
  "\<exists>b'. append_frame big_allocator \<lparr>buf = None, buf_length = 0, allocated_size = 0\<rparr> (FPush 1 [7, 8])
      = Some (0, b') \<and> buf_bytes b' = [7, 1, 0, 0, 0, 2, 7, 8]"
proof -
  have "wire (FPush 1 [7, 8]) = [7, 1, 0, 0, 0, 2, 7, 8]"
    by (simp add: wire_def size_field_def be32_bytes_def)
  then show ?thesis
    using append_encodes [of "\<lparr>buf = None, buf_length = 0, allocated_size = 0\<rparr>" big_allocator
        "FPush 1 [7, 8]"]
    by (auto simp: buffer_ok_def buf_bytes_def max_object_def)
qed

end
