(* ===== verification/Loqui_Decoder.thy ===== *)
theory Loqui_Decoder
  imports Loqui_Buffer Loqui_Wire
begin

text \<open>
  \<open>c/decoder.h\<close>: the incremental frame decoder. It is fed chunks of a byte stream and
  keeps the frame read so far in a \<open>loqui_decode_buffer_t\<close>; the opcode is kept in its own
  field, the header and the payload in the buffer. The lemmas at the end prove it against
  \<open>cut_frame\<close>: fed with any chunk, it does what cutting the first frame off
  everything received says.
\<close>

section \<open>State and accessors\<close>

record loqui_decode_buffer_t =
  loqui_buffer :: loqui_buffer_t
  opcode :: byte
  data_size_remaining :: size_t
  header_size :: size_t
  decode_complete :: byte

definition loqui_get_header_size :: "byte \<Rightarrow> size_t" where
  "loqui_get_header_size op =
     (if op = LOQUI_OP_HELLO then 1 + 1 + 4
      else if op = LOQUI_OP_HELLO_ACK then 1 + 4 + 4
      else if op = LOQUI_OP_ERROR then 1 + 4 + 2 + 4
      else if op = LOQUI_OP_PING \<or> op = LOQUI_OP_PONG then 1 + 4
      else if op = LOQUI_OP_REQUEST \<or> op = LOQUI_OP_RESPONSE then 1 + 4 + 4
      else if op = LOQUI_OP_PUSH then 1 + 4
      else if op = LOQUI_OP_GOAWAY then 1 + 2 + 4
      else 0)"

text \<open>
  The accessors read the buffer's memory; \<open>None\<close> is a read outside what was written. The
  offsets are the sums of the sizes of the fields before: flags 1, sequence number and ping interval 4,
  code 2, version 1.
\<close>

definition loqui_get_flags :: "loqui_decode_buffer_t \<Rightarrow> byte option" where
  "loqui_get_flags pk =
     (let m = cells (buf (loqui_buffer pk)) in if 0 < length m then Some (m ! 0) else None)"

definition loqui_get_data_payload_size :: "loqui_decode_buffer_t \<Rightarrow> size_t option" where
  "loqui_get_data_payload_size pk =
     (let m = cells (buf (loqui_buffer pk)); op = opcode pk in
      if op = LOQUI_OP_REQUEST \<or> op = LOQUI_OP_RESPONSE \<or> op = LOQUI_OP_HELLO_ACK
      then map_option ucast (loqui_load32 m 5)
      else if op = LOQUI_OP_PUSH then map_option ucast (loqui_load32 m 1)
      else if op = LOQUI_OP_GOAWAY then map_option ucast (loqui_load32 m 3)
      else if op = LOQUI_OP_ERROR then map_option ucast (loqui_load32 m 7)
      else if op = LOQUI_OP_HELLO then map_option ucast (loqui_load32 m 2)
      else Some 0)"

definition loqui_get_seq :: "loqui_decode_buffer_t \<Rightarrow> u32 option" where
  "loqui_get_seq pk =
     (let m = cells (buf (loqui_buffer pk)); op = opcode pk in
      if op = LOQUI_OP_REQUEST \<or> op = LOQUI_OP_RESPONSE \<or> op = LOQUI_OP_PING
        \<or> op = LOQUI_OP_PONG \<or> op = LOQUI_OP_ERROR
      then loqui_load32 m 1 else Some 0)"

definition loqui_get_version :: "loqui_decode_buffer_t \<Rightarrow> byte option" where
  "loqui_get_version pk =
     (let m = cells (buf (loqui_buffer pk)) in
      if opcode pk = LOQUI_OP_HELLO then (if 1 < length m then Some (m ! 1) else None) else Some 0)"

definition loqui_get_code :: "loqui_decode_buffer_t \<Rightarrow> u16 option" where
  "loqui_get_code pk =
     (let m = cells (buf (loqui_buffer pk)); op = opcode pk in
      if op = LOQUI_OP_GOAWAY then loqui_load16 m 1
      else if op = LOQUI_OP_ERROR then loqui_load16 m 5
      else Some 0)"

definition loqui_get_ping_interval :: "loqui_decode_buffer_t \<Rightarrow> u32 option" where
  "loqui_get_ping_interval pk =
     (let m = cells (buf (loqui_buffer pk)) in
      if opcode pk = LOQUI_OP_HELLO_ACK then loqui_load32 m 1 else Some 0)"

section \<open>Decoding\<close>

definition loqui_decoder_reset :: "loqui_decode_buffer_t \<Rightarrow> loqui_decode_buffer_t" where
  "loqui_decoder_reset pk = pk\<lparr>opcode := 0, data_size_remaining := 0, decode_complete := 0\<rparr>"

type_synonym decode_step = "loqui_decoder_status \<times> loqui_decode_buffer_t \<times> size_t"

text \<open>
  The second half of \<open>loqui_read_append_data\<close>, from \<open>Do we have bytes to consume?\<close> on:
  the payload. \<open>sz\<close> and \<open>data\<close> are what is left of the chunk, \<open>consumed\<close> the value
  of \<open>*consumed\<close>, which the C code updates through the pointer.
\<close>

definition loqui_read_status :: "loqui_decode_buffer_t \<Rightarrow> size_t \<Rightarrow> decode_step option" where
  "loqui_read_status pk consumed =
     (if data_size_remaining pk = 0
      then Some (LOQUI_DECODE_COMPLETE, pk\<lparr>decode_complete := 1\<rparr>, consumed)
      else Some (LOQUI_DECODE_NEEDS_MORE, pk, consumed))"

definition loqui_read_payload ::
    "allocator \<Rightarrow> loqui_decode_buffer_t \<Rightarrow> size_t \<Rightarrow> byte list \<Rightarrow> size_t \<Rightarrow> decode_step option" where
  "loqui_read_payload alloc pk sz data consumed =
     (let bytes_to_consume = data_size_remaining pk;
          bytes_to_consume = (if bytes_to_consume > sz then sz else bytes_to_consume)
      in if bytes_to_consume > 0
         then (case loqui_buffer_write alloc (loqui_buffer pk) data bytes_to_consume of
                 None \<Rightarrow> None
               | Some (rv, b) \<Rightarrow>
                   if rv < 0 then Some (LOQUI_DECODE_MEMORY_ERROR, pk\<lparr>loqui_buffer := b\<rparr>, consumed)
                   else loqui_read_status
                     (pk\<lparr>loqui_buffer := b,
                         data_size_remaining := data_size_remaining pk - bytes_to_consume\<rparr>)
                     (consumed + bytes_to_consume))
         else loqui_read_status pk consumed)"

text \<open>
  The end of the header: the size field is read, checked, and the buffer grown for the payload.
  This stretch of \<open>loqui_read_append_data\<close> and the payload half above are the parts the
  function is composed of.
\<close>

definition loqui_read_header_end ::
    "allocator \<Rightarrow> loqui_decode_buffer_t \<Rightarrow> size_t \<Rightarrow> byte list \<Rightarrow> size_t \<Rightarrow> decode_step option" where
  "loqui_read_header_end alloc pk sz data consumed =
     (case loqui_get_data_payload_size pk of
        None \<Rightarrow> None
      | Some n \<Rightarrow>
          let pk = pk\<lparr>data_size_remaining := n\<rparr> in
          if n > LOQUI_DATA_SIZE_MAX then Some (LOQUI_DECODE_INVALID_SIZE, pk, consumed)
          else if n > 0
          then (case loqui_buffer_ensure_size alloc (loqui_buffer pk) (header_size pk + n) of
              None \<Rightarrow> None
            | Some (rv, b) \<Rightarrow>
                let pk = pk\<lparr>loqui_buffer := b\<rparr> in
                if rv < 0 then Some (LOQUI_DECODE_MEMORY_ERROR, pk, consumed)
                else loqui_read_payload alloc pk sz data consumed)
          else loqui_read_payload alloc pk sz data consumed)"

definition loqui_read_append_data ::
    "allocator \<Rightarrow> loqui_decode_buffer_t \<Rightarrow> size_t \<Rightarrow> byte list \<Rightarrow> size_t \<Rightarrow> decode_step option" where
  "loqui_read_append_data alloc pk sz data consumed =
     (if opcode pk = 0 then Some (LOQUI_DECODE_INVALID_OPCODE, pk, consumed)
      else if buf_length (loqui_buffer pk) < header_size pk
      then let chunk = header_size pk - buf_length (loqui_buffer pk);
               chunk = (if chunk > sz then sz else chunk) in
        (case loqui_buffer_write alloc (loqui_buffer pk) data chunk of
           None \<Rightarrow> None
         | Some (rv, b) \<Rightarrow>
             let pk = pk\<lparr>loqui_buffer := b\<rparr> in
             if rv < 0 then Some (LOQUI_DECODE_MEMORY_ERROR, pk, consumed)
             else let consumed = consumed + chunk in
               if buf_length b < header_size pk
               then Some (LOQUI_DECODE_NEEDS_MORE, pk, consumed)
               else loqui_read_header_end alloc pk (sz - chunk) (drop (unat chunk) data) consumed)
      else loqui_read_payload alloc pk sz data consumed)"

definition loqui_read_new_data ::
    "allocator \<Rightarrow> loqui_decode_buffer_t \<Rightarrow> size_t \<Rightarrow> byte list \<Rightarrow> size_t \<Rightarrow> decode_step option" where
  "loqui_read_new_data alloc pk sz data consumed =
     (case data of
        [] \<Rightarrow> None
      | op # data \<Rightarrow>
          let hs = loqui_get_header_size op in
          if hs = 0 then Some (LOQUI_DECODE_INVALID_OPCODE, pk, consumed)
          else let consumed = consumed + 1; sz = sz - 1;
                   pk = pk\<lparr>loqui_buffer := (loqui_buffer pk)\<lparr>buf_length := 0\<rparr>,
                           data_size_remaining := 0, opcode := op, header_size := hs\<rparr>
            in if sz > 0 then loqui_read_append_data alloc pk sz data consumed
               else Some (LOQUI_DECODE_NEEDS_MORE, pk, consumed))"

definition loqui_decoder_read_data ::
    "allocator \<Rightarrow> loqui_decode_buffer_t \<Rightarrow> size_t \<Rightarrow> byte list \<Rightarrow> size_t \<Rightarrow> decode_step option" where
  "loqui_decoder_read_data alloc pk sz data consumed =
     (if decode_complete pk = 1 then Some (LOQUI_DECODE_COMPLETE, pk, consumed)
      else if opcode pk = 0 then loqui_read_new_data alloc pk sz data consumed
      else loqui_read_append_data alloc pk sz data consumed)"

section \<open>The accessors read the header\<close>

lemma header_size_len: "unat (loqui_get_header_size op) = header_len op"
  by (simp add: loqui_get_header_size_def header_len_def)

lemma header_size_zero: "loqui_get_header_size op = 0 \<longleftrightarrow> header_len op = 0"
  by (simp add: loqui_get_header_size_def header_len_def)

text \<open>With the whole header in the buffer, the payload size is the one in the size field.\<close>

lemma payload_size_read:
  assumes "header_len (opcode pk) \<noteq> 0"
    and "header_len (opcode pk) \<le> length (buf_bytes (loqui_buffer pk))"
    and "buffer_ok (loqui_buffer pk)"
  shows "loqui_get_data_payload_size pk
    = Some (of_nat (payload_len (opcode pk) (buf_bytes (loqui_buffer pk))))"
proof -
  let ?m = "cells (buf (loqui_buffer pk))" and ?b = "buf_bytes (loqui_buffer pk)"
  have len: "length ?b \<le> length ?m" by (simp add: buf_bytes_def)
  have ld: "loqui_load32 ?b off = loqui_load32 ?m off" and le: "off + 4 \<le> length ?m"
    if "size_offset (opcode pk) = Some off" for off
    using size_offset_in_header [OF that] assms(2,3) len
    by (auto simp: buf_bytes_def buffer_ok_def intro!: load32_take)
  have "loqui_get_data_payload_size pk =
    (case size_offset (opcode pk) of None \<Rightarrow> Some 0
     | Some off \<Rightarrow> map_option ucast (loqui_load32 ?m off))"
    using assms(1)
    by (auto simp: loqui_get_data_payload_size_def size_offset_def header_len_def Let_def)
  also have "\<dots> = Some (of_nat (payload_len (opcode pk) ?b))"
  proof (cases "size_offset (opcode pk)")
    case None
    then show ?thesis by (simp add: payload_len_def)
  next
    case (Some off)
    then obtain v where "loqui_load32 ?m off = Some v"
      using load32_defined [OF le] by blast
    with Some show ?thesis by (simp add: payload_len_def ld unat_ucast_u32_size [symmetric]
        del: unat_ucast_u32_size)
  qed
  finally show ?thesis .
qed

section \<open>Invariant and abstraction\<close>

text \<open>
  The bytes of the frame being read that have arrived so far: the opcode and what the buffer holds.
\<close>

definition pending :: "loqui_decode_buffer_t \<Rightarrow> byte list" where
  "pending pk = (if opcode pk = 0 then [] else opcode pk # buf_bytes (loqui_buffer pk))"

text \<open>
  Between two calls the decoder is idle (no opcode), in the middle of a header, or in the
  middle of a payload for which the buffer has been grown in advance.
\<close>

definition mid_payload :: "loqui_decode_buffer_t \<Rightarrow> bool" where
  "mid_payload pk \<longleftrightarrow>
     (let h = header_len (opcode pk); bs = buf_bytes (loqui_buffer pk); n = payload_len (opcode pk) bs
      in h \<le> length bs \<and> n \<le> max_payload \<and>
         length bs + unat (data_size_remaining pk) = h + n \<and>
         h + n \<le> unat (allocated_size (loqui_buffer pk)))"

definition decoder_ok :: "loqui_decode_buffer_t \<Rightarrow> bool" where
  "decoder_ok pk \<longleftrightarrow>
     buffer_ok (loqui_buffer pk) \<and> decode_complete pk = 0 \<and>
     (opcode pk \<noteq> 0 \<longrightarrow>
        header_len (opcode pk) \<noteq> 0 \<and> unat (header_size pk) = header_len (opcode pk) \<and>
        (length (buf_bytes (loqui_buffer pk)) < header_len (opcode pk) \<or>
         mid_payload pk \<and> 0 < data_size_remaining pk))"

text \<open>A frame that has been read completely and waits to be consumed.\<close>

definition frame_held :: "loqui_decode_buffer_t \<Rightarrow> raw_frame \<Rightarrow> bool" where
  "frame_held pk r \<longleftrightarrow>
     buffer_ok (loqui_buffer pk) \<and> decode_complete pk = 1 \<and>
     opcode pk = raw_op r \<and> header_len (raw_op r) \<noteq> 0 \<and>
     unat (header_size pk) = header_len (raw_op r) \<and>
     length (raw_header r) = header_len (raw_op r) \<and>
     length (raw_payload r) = payload_len (raw_op r) (raw_header r) \<and>
     length (raw_payload r) \<le> max_payload \<and>
     buf_bytes (loqui_buffer pk) = raw_header r @ raw_payload r"

text \<open>
  What a decoding step has to do, given everything received of the current frame
  (\<open>stream\<close>, which ends with the chunk) and the length of the chunk: the status is what
  cutting the stream gives, or an allocation was refused.
\<close>

definition decodes ::
    "allocator \<Rightarrow> byte list \<Rightarrow> nat \<Rightarrow> nat \<Rightarrow> decode_step option \<Rightarrow> bool" where
  "decodes alloc stream already n r \<longleftrightarrow>
     (\<exists>st pk' consumed. r = Some (st, pk', consumed) \<and> buffer_ok (loqui_buffer pk') \<and>
        (case st of
           LOQUI_DECODE_NEEDS_MORE \<Rightarrow>
             cut_frame stream = Incomplete \<and> decoder_ok pk' \<and> pending pk' = stream \<and>
             unat consumed = already + n
         | LOQUI_DECODE_COMPLETE \<Rightarrow>
             (\<exists>raw rest. cut_frame stream = Frame raw rest \<and> frame_held pk' raw \<and>
                length rest \<le> n \<and> unat consumed + length rest = already + n)
         | LOQUI_DECODE_INVALID_SIZE \<Rightarrow> cut_frame stream = BadSize
         | LOQUI_DECODE_INVALID_OPCODE \<Rightarrow> cut_frame stream = BadOpcode
         | LOQUI_DECODE_MEMORY_ERROR \<Rightarrow> \<not> (\<forall>k. unat k < max_object \<longrightarrow> alloc k)))"

lemma cut_partial_header:
  "length bs < header_len op \<Longrightarrow> cut_frame (op # bs) = Incomplete"
  by (simp add: Let_def)

text \<open>The last test of a step: is the frame complete now?\<close>

definition in_frame :: "loqui_decode_buffer_t \<Rightarrow> bool" where
  "in_frame pk \<longleftrightarrow>
     buffer_ok (loqui_buffer pk) \<and> opcode pk \<noteq> 0 \<and> decode_complete pk = 0 \<and>
     header_len (opcode pk) \<noteq> 0 \<and> unat (header_size pk) = header_len (opcode pk)"

lemma read_status_decodes:
  assumes "in_frame pk" and "mid_payload pk"
    and tail: "data_size_remaining pk = 0 \<or> tail = []"
    and c: "unat consumed + length tail = already + n" and le: "length tail \<le> n"
  shows "decodes alloc (pending pk @ tail) already n (loqui_read_status pk consumed)"
proof (cases "data_size_remaining pk = 0")
  case True
  let ?bs = "buf_bytes (loqui_buffer pk)" and ?op = "opcode pk"
  let ?h = "header_len (opcode pk)" and ?n = "payload_len (opcode pk) (buf_bytes (loqui_buffer pk))"
  have len: "length ?bs = ?h + ?n" "?n \<le> max_payload"
    using assms(2) True by (auto simp: mid_payload_def Let_def)
  have "cut_frame (pending pk @ tail) = Frame (Raw ?op (take ?h ?bs) (drop ?h ?bs)) tail"
    using assms(1) len cut_frame_header [of ?op ?bs tail]
    by (simp add: pending_def in_frame_def Let_def)
  moreover have "frame_held (pk\<lparr>decode_complete := 1\<rparr>) (Raw ?op (take ?h ?bs) (drop ?h ?bs))"
    using assms(1) len by (simp add: frame_held_def in_frame_def payload_len_take)
  ultimately show ?thesis
    using True assms(1) c le by (auto simp: decodes_def loqui_read_status_def in_frame_def)
next
  case False
  with tail have "tail = []" by simp
  moreover have "0 < data_size_remaining pk" using False by (simp add: word_gt_0)
  moreover have "cut_frame (pending pk) = Incomplete"
    using assms(1,2) \<open>0 < data_size_remaining pk\<close>
      cut_frame_header [of "opcode pk" "buf_bytes (loqui_buffer pk)" "[]"]
    by (auto simp: pending_def in_frame_def mid_payload_def Let_def word_less_nat_alt)
  ultimately show ?thesis
    using assms(1,2) False c
    by (simp add: decodes_def loqui_read_status_def decoder_ok_def in_frame_def)
qed

text \<open>The payload half of a step.\<close>

lemma read_payload_decodes:
  assumes sane: "alloc_sane alloc" and frame: "in_frame pk" and mid: "mid_payload pk"
    and sz: "unat sz = length data" and c: "unat consumed = already + (n - length data)"
    and le: "length data \<le> n" "already + n < 2 ^ 64"
  shows "decodes alloc (pending pk @ data) already n (loqui_read_payload alloc pk sz data consumed)"
proof -
  let ?bs = "buf_bytes (loqui_buffer pk)" and ?op = "opcode pk"
  let ?h = "header_len (opcode pk)" and ?n = "payload_len (opcode pk) (buf_bytes (loqui_buffer pk))"
  let ?r = "data_size_remaining pk"
  define k where "k = (if ?r > sz then sz else ?r)"
  have uk: "unat k = min (unat ?r) (length data)"
    using sz by (auto simp: k_def word_less_nat_alt)
  have len: "?h \<le> length ?bs" "?n \<le> max_payload" "length ?bs + unat ?r = ?h + ?n"
      "?h + ?n \<le> unat (allocated_size (loqui_buffer pk))"
    using mid by (auto simp: mid_payload_def Let_def)
  show ?thesis
  proof (cases "0 < k")
    case False
    then have "k = 0" by (simp add: word_gt_0)
    then have "?r = 0 \<or> data = []" using uk by (auto simp: unat_eq_0 min_def split: if_splits)
    moreover have "loqui_read_payload alloc pk sz data consumed = loqui_read_status pk consumed"
      using False by (simp add: loqui_read_payload_def Let_def k_def [symmetric])
    ultimately show ?thesis
      using read_status_decodes [OF frame mid, of data consumed already n alloc] c le by simp
  next
    case True
    have buf: "buffer_ok (loqui_buffer pk)" using frame by (simp add: in_frame_def)
    have bound: "unat k \<le> length data" "unat k \<le> 2 ^ 32"
        "unat (buf_length (loqui_buffer pk)) + unat k \<le> unat (allocated_size (loqui_buffer pk))"
      using uk len payload_len_bound [of ?op ?bs] buffer_ok_bytes [OF buf] by auto
    obtain b' where w: "loqui_buffer_write alloc (loqui_buffer pk) data k = Some (0, b')"
      and b': "buffer_ok b'" "buf_bytes b' = ?bs @ take (unat k) data"
        "allocated_size (loqui_buffer pk) \<le> allocated_size b'"
      using buffer_write_fits [OF buf sane bound] by blast
    define pk1 where "pk1 = pk\<lparr>loqui_buffer := b', data_size_remaining := ?r - k\<rparr>"
    have r1: "unat (?r - k) = unat ?r - unat k"
      using uk by (intro unat_diff_le) (simp add: word_le_nat_alt)
    have p1: "payload_len ?op (buf_bytes b') = ?n"
      using len(1) b'(2) payload_len_take [of ?op "?bs @ take (unat k) data"] payload_len_prefix [of ?op ?bs]
      by simp
    have frame1: "in_frame pk1" using frame b' by (simp add: in_frame_def pk1_def)
    have mid1: "mid_payload pk1"
      using len b' p1 r1 uk by (simp add: mid_payload_def pk1_def Let_def word_le_nat_alt min_def)
    have tail: "data_size_remaining pk1 = 0 \<or> drop (unat k) data = []"
      using r1 uk by (auto simp: pk1_def unat_eq_0 [symmetric] min_def)
    have c1: "unat (consumed + k) = unat consumed + unat k"
      using c le bound by (intro unat_add_small) simp
    have "loqui_read_payload alloc pk sz data consumed = loqui_read_status pk1 (consumed + k)"
      using True w by (simp add: loqui_read_payload_def Let_def k_def [symmetric] pk1_def)
    moreover have "pending pk1 @ drop (unat k) data = pending pk @ data"
      using frame b' by (simp add: pending_def pk1_def in_frame_def)
    ultimately show ?thesis
      using read_status_decodes [OF frame1 mid1 tail, of "consumed + k" already n alloc] c c1 le bound
      by simp
  qed
qed

lemma refused_request:
  "\<not> alloc k \<Longrightarrow> unat k < max_object \<Longrightarrow> \<not> (\<forall>k. unat k < max_object \<longrightarrow> alloc k)"
  by blast

lemma read_header_end_decodes:
  assumes sane: "alloc_sane alloc" and frame: "in_frame pk"
    and full: "length (buf_bytes (loqui_buffer pk)) = header_len (opcode pk)"
    and sz: "unat sz = length data" and c: "unat consumed = already + (n - length data)"
    and le: "length data \<le> n" "already + n < 2 ^ 64"
  shows "decodes alloc (pending pk @ data) already n (loqui_read_header_end alloc pk sz data consumed)"
proof -
  let ?bs = "buf_bytes (loqui_buffer pk)" and ?op = "opcode pk"
  define pl where "pl = payload_len ?op ?bs"
  have ok: "buffer_ok (loqui_buffer pk)" and op: "?op \<noteq> 0" "header_len ?op \<noteq> 0"
    and hs: "unat (header_size pk) = header_len ?op"
    using frame by (simp_all add: in_frame_def)
  have small: "pl < 2 ^ 32" using payload_len_bound by (simp add: pl_def)
  define v where "v = (of_nat pl :: size_t)"
  have v: "unat v = pl" unfolding v_def using small by (intro unat_of_nat_size) simp
  have size: "loqui_get_data_payload_size pk = Some v"
    using payload_size_read [OF op(2) _ ok] full by (simp add: pl_def v_def)
  have stream: "pending pk @ data = ?op # ?bs @ data" using op by (simp add: pending_def)
  let ?pk1 = "pk\<lparr>data_size_remaining := v\<rparr>"
  show ?thesis
  proof (cases "v > LOQUI_DATA_SIZE_MAX")
    case True
    then have "pl > max_payload" by (simp add: word_less_nat_alt v max_payload_def)
    then have "cut_frame (pending pk @ data) = BadSize"
      using stream cut_frame_header [of ?op ?bs data] op full by (simp add: Let_def pl_def)
    then show ?thesis
      using True size ok by (simp add: loqui_read_header_end_def decodes_def)
  next
    case False
    then have max: "pl \<le> max_payload"
      by (simp add: not_less word_le_nat_alt v max_payload_def)
    have payload: "decodes alloc (pending pk @ data) already n
        (loqui_read_payload alloc (?pk1\<lparr>loqui_buffer := b\<rparr>) sz data consumed)"
      if b: "buffer_ok b" "buf_bytes b = ?bs" "header_len ?op + pl \<le> unat (allocated_size b)" for b
    proof -
      have "in_frame (?pk1\<lparr>loqui_buffer := b\<rparr>)" "mid_payload (?pk1\<lparr>loqui_buffer := b\<rparr>)"
        using frame b full max v by (simp_all add: in_frame_def mid_payload_def pl_def)
      moreover have "pending (?pk1\<lparr>loqui_buffer := b\<rparr>) = pending pk"
        using b by (simp add: pending_def)
      ultimately show ?thesis using read_payload_decodes [OF sane _ _ sz c le] by metis
    qed
    show ?thesis
    proof (cases "v > 0")
      case zero: False
      then have "pl = 0" using v by (simp add: word_gt_0)
      moreover have "header_len ?op \<le> unat (allocated_size (loqui_buffer pk))"
        using ok full by (auto simp: buffer_ok_def buf_bytes_def)
      moreover have "?pk1\<lparr>loqui_buffer := loqui_buffer pk\<rparr> = ?pk1" by simp
      ultimately show ?thesis
        using payload [of "loqui_buffer pk"] ok zero False size
        by (simp add: loqui_read_header_end_def)
    next
      case pos: True
      have sum: "unat (header_size pk + v) = header_len ?op + pl"
        using v hs small header_len_pos_le [of ?op] by (simp add: unat_add_small)
      have bound: "unat (header_size pk + v) < max_object"
        using max header_len_pos_le [of ?op] unfolding sum max_payload_def max_object_val by linarith
      show ?thesis
      proof (rule buffer_ensure_cases [OF ok sane, of "header_size pk + v"])
        fix b'
        assume "loqui_buffer_ensure_size alloc (loqui_buffer pk) (header_size pk + v) = Some (0, b')"
          and "buffer_ok b'" "buf_bytes b' = ?bs" "header_size pk + v \<le> allocated_size b'"
        then show ?thesis
          using payload [of b'] pos False size sum
          by (simp add: loqui_read_header_end_def word_le_nat_alt)
      next
        assume "loqui_buffer_ensure_size alloc (loqui_buffer pk) (header_size pk + v)
            = Some (-1, loqui_buffer pk)"
          and "\<not> alloc (header_size pk + v)"
        then show ?thesis
          using refused_request [OF _ bound] pos False size ok
          by (simp add: loqui_read_header_end_def decodes_def)
      qed
    qed
  qed
qed

lemma read_append_decodes:
  assumes sane: "alloc_sane alloc" and frame: "in_frame pk"
    and at: "length (buf_bytes (loqui_buffer pk)) < header_len (opcode pk) \<or> mid_payload pk"
    and sz: "unat sz = length data" and le: "unat consumed + length data < 2 ^ 64"
  shows "decodes alloc (pending pk @ data) (unat consumed) (length data)
    (loqui_read_append_data alloc pk sz data consumed)"
proof -
  let ?bs = "buf_bytes (loqui_buffer pk)" and ?op = "opcode pk" and ?b = "loqui_buffer pk"
  have ok: "buffer_ok ?b" and op: "?op \<noteq> 0" "header_len ?op \<noteq> 0"
    and hs: "unat (header_size pk) = header_len ?op"
    using frame by (simp_all add: in_frame_def)
  have blen: "unat (buf_length ?b) = length ?bs" using buffer_ok_bytes [OF ok] by simp
  have header: "buf_length ?b < header_size pk \<longleftrightarrow> length ?bs < header_len ?op"
    by (simp add: word_less_nat_alt hs blen)
  show ?thesis
  proof (cases "length ?bs < header_len ?op")
    case False
    with at have mid: "mid_payload pk" by simp
    show ?thesis
      using read_payload_decodes [OF sane frame mid sz, of consumed "unat consumed" "length data"]
        False header op le by (simp add: loqui_read_append_data_def)
  next
    case True
    define rest where "rest = header_size pk - buf_length ?b"
    define k where "k = (if rest > sz then sz else rest)"
    have "unat rest = header_len ?op - length ?bs"
      using True unfolding rest_def hs [symmetric] blen [symmetric]
      by (intro unat_diff_le) (simp add: word_le_nat_alt)
    then have uk: "unat k = min (header_len ?op - length ?bs) (length data)"
      using sz by (auto simp: k_def word_less_nat_alt)
    have kle: "unat k \<le> length data" "unat k \<le> 11" "unat k \<le> 2 ^ 32"
      using uk header_len_pos_le [of ?op] by auto
    have k_def': "(if header_size pk - buf_length ?b > sz then sz
        else header_size pk - buf_length ?b) = k"
      by (simp add: k_def rest_def)
    show ?thesis
    proof (rule buffer_write_cases [OF ok sane kle(1,3)])
      assume w: "loqui_buffer_write alloc ?b data k = Some (-1, ?b)"
        and refused: "\<not> alloc ((buf_length ?b + k) * 2)"
      have "unat (buf_length ?b + k) \<le> 22"
        using unat_add_le_size [of "buf_length ?b" k] kle True blen header_len_pos_le [of ?op]
        by linarith
      then have "unat ((buf_length ?b + k) * 2) < max_object"
        using unat_double_small [of "buf_length ?b + k"] unfolding max_object_val by simp
      then show ?thesis
        using w refused_request [of alloc "(buf_length ?b + k) * 2"] refused True header op ok
        by (simp add: loqui_read_append_data_def Let_def k_def' decodes_def)
    next
      fix b'
      assume w: "loqui_buffer_write alloc ?b data k = Some (0, b')" and ok': "buffer_ok b'"
        and b': "buf_bytes b' = ?bs @ take (unat k) data"
      let ?pk1 = "pk\<lparr>loqui_buffer := b'\<rparr>"
      have frame1: "in_frame ?pk1" using frame ok' by (simp add: in_frame_def)
      have len': "length (buf_bytes b') = length ?bs + unat k" using b' kle by simp
      have more: "buf_length b' < header_size pk \<longleftrightarrow> length ?bs + unat k < header_len ?op"
        using buffer_ok_bytes [OF ok'] by (simp add: word_less_nat_alt hs len')
      have c1: "unat (consumed + k) = unat consumed + unat k"
        using le kle by (intro unat_add_small) simp
      have step: "loqui_read_append_data alloc pk sz data consumed =
        (if buf_length b' < header_size pk then Some (LOQUI_DECODE_NEEDS_MORE, ?pk1, consumed + k)
         else loqui_read_header_end alloc ?pk1 (sz - k) (drop (unat k) data) (consumed + k))"
        using w True header op by (simp add: loqui_read_append_data_def Let_def k_def')
      show ?thesis
      proof (cases "buf_length b' < header_size pk")
        case need: True
        then have "unat k = length data" using uk more by (auto simp: min_def split: if_splits)
        then have all: "buf_bytes b' = ?bs @ data" "length ?bs + length data < header_len ?op"
          using b' need more by simp_all
        then have "cut_frame (pending pk @ data) = Incomplete"
          using cut_partial_header [of "?bs @ data" ?op] op by (simp add: pending_def)
        moreover have "decoder_ok ?pk1"
          using frame1 all by (simp add: decoder_ok_def in_frame_def)
        ultimately show ?thesis
          using need step c1 \<open>unat k = length data\<close> all op ok'
          by (simp add: decodes_def pending_def)
      next
        case full_header: False
        then have full: "length (buf_bytes (loqui_buffer ?pk1)) = header_len (opcode ?pk1)"
          using uk more len' True by (auto simp: min_def split: if_splits)
        have sz1: "unat (sz - k) = length (drop (unat k) data)"
          using sz kle by (subst unat_diff_le) (simp_all add: word_le_nat_alt)
        have c2: "unat (consumed + k) =
            unat consumed + (length data - length (drop (unat k) data))"
          using c1 kle by simp
        have le2: "length (drop (unat k) data) \<le> length data" by simp
        have "pending ?pk1 @ drop (unat k) data = pending pk @ data"
          using b' op by (simp add: pending_def)
        then show ?thesis
          using read_header_end_decodes [OF sane frame1 full sz1 c2 le2 le] full_header step by simp
      qed
    qed
  qed
qed

text \<open>
  A whole step, from the idle state or from the middle of a frame: the decoder's status
  is what cutting the first frame off everything received says.
\<close>

lemma decoder_read_decodes:
  assumes sane: "alloc_sane alloc" and ok: "decoder_ok pk"
    and sz: "unat sz = length data" and data: "data \<noteq> []"
  shows "decodes alloc (pending pk @ data) 0 (length data) (loqui_decoder_read_data alloc pk sz data 0)"
proof (cases "opcode pk = 0")
  case False
  then have "in_frame pk"
    and "length (buf_bytes (loqui_buffer pk)) < header_len (opcode pk) \<or> mid_payload pk"
    using ok by (auto simp: decoder_ok_def in_frame_def)
  moreover have "length data < 2 ^ 64" using unat_size_bound [of sz] sz by simp
  ultimately show ?thesis
    using read_append_decodes [OF sane _ _ sz, of pk 0] False ok
    by (simp add: loqui_decoder_read_data_def decoder_ok_def)
next
  case True
  obtain op ys where data_eq: "data = op # ys" using data by (cases data) auto
  have buf: "buffer_ok (loqui_buffer pk)" using ok by (simp add: decoder_ok_def)
  have step: "loqui_decoder_read_data alloc pk sz data 0 = loqui_read_new_data alloc pk sz data 0"
    using True ok by (simp add: loqui_decoder_read_data_def decoder_ok_def)
  have stream: "pending pk @ data = op # ys" using True data_eq by (simp add: pending_def)
  show ?thesis
  proof (cases "header_len op = 0")
    case True
    then show ?thesis
      unfolding step stream using buf
      by (simp add: loqui_read_new_data_def data_eq header_size_zero decodes_def)
  next
    case False
    then have "op \<noteq> 0" by (auto simp: header_len_def)
    let ?pk = "pk\<lparr>loqui_buffer := (loqui_buffer pk)\<lparr>buf_length := 0\<rparr>,
      data_size_remaining := 0, opcode := op, header_size := loqui_get_header_size op\<rparr>"
    have ok1: "buffer_ok ((loqui_buffer pk)\<lparr>buf_length := 0\<rparr>)"
      using buf by (rule buffer_ok_reset_length)
    have "sz \<noteq> 0" using sz data by auto
    then have sz1: "unat (sz - 1) = length ys"
      using sz data_eq by (subst unat_diff_le) (simp_all add: word_le_nat_alt unat_gt_0 Suc_le_eq)
    have frame: "in_frame ?pk"
      using ok ok1 False \<open>op \<noteq> 0\<close> by (simp add: in_frame_def decoder_ok_def header_size_len)
    have "length ys + 1 < 2 ^ 64" using unat_size_bound [of sz] sz data_eq by simp
    then have append: "decodes alloc (op # ys) 1 (length ys)
        (loqui_read_append_data alloc ?pk (sz - 1) ys 1)"
      using read_append_decodes [OF sane frame _ sz1, of 1] False \<open>op \<noteq> 0\<close>
      by (simp add: pending_def)
    then have append': "decodes alloc (op # ys) 0 (length data)
        (loqui_read_append_data alloc ?pk (sz - 1) ys 1)"
      by (auto simp: decodes_def data_eq split: loqui_decoder_status.splits)
    have "decodes alloc (op # ys) 0 (length data) (Some (LOQUI_DECODE_NEEDS_MORE, ?pk, 1))"
      if "ys = []"
      using that ok1 False \<open>op \<noteq> 0\<close> ok
      by (simp add: decodes_def decoder_ok_def header_size_len pending_def data_eq Let_def)
    then show ?thesis
      unfolding step stream using append' False sz1
      by (auto simp: loqui_read_new_data_def data_eq header_size_zero Let_def word_gt_0)
  qed
qed

section \<open>Properties\<close>

text \<open>
  C12: The decoder implements the cutting of frames off a stream. Whatever was received of the
  current frame before (\<open>pending\<close>) and whatever the chunk, a step never reads or writes outside the
  buffer, and its status is what cutting the bytes received so far gives: a complete frame held in
  the buffer and the number of bytes it took from the chunk, or the whole chunk stored, or an error for a
  byte that is no opcode or a payload above 50 MiB. It fails for lack of memory only if the
  allocator refused a request.
\<close>

theorem decoder_implements_cut:
  assumes "alloc_sane alloc" and "decoder_ok pk" and "unat sz = length data" and "data \<noteq> []"
  shows "decodes alloc (pending pk @ data) 0 (length data) (loqui_decoder_read_data alloc pk sz data 0)"
  using assms by (rule decoder_read_decodes)

definition idle_decoder :: loqui_decode_buffer_t where
  "idle_decoder = \<lparr>loqui_buffer = \<lparr>buf = None, buf_length = 0, allocated_size = 0\<rparr>, opcode = 0,
     data_size_remaining = 0, header_size = 0, decode_complete = 0\<rparr>"

lemma idle_decoder_ok: "decoder_ok idle_decoder" "pending idle_decoder = []"
  by (simp_all add: idle_decoder_def decoder_ok_def pending_def buffer_ok_def max_object_def)

text \<open>A pong and one byte of the next frame: the step completes the pong and leaves the byte.\<close>

lemma decoder_implements_cut_witness:
  "\<exists>pk' c. loqui_decoder_read_data big_allocator idle_decoder 7 [4, 0, 0, 0, 0, 5, 3] 0
      = Some (LOQUI_DECODE_COMPLETE, pk', c) \<and> unat c = 6 \<and> opcode pk' = 4"
proof -
  have cut: "cut_frame [4, 0, 0, 0, 0, 5, 3] = Frame (Raw 4 [0, 0, 0, 0, 5] []) [3]"
    by (simp add: header_len_def payload_len_def size_offset_def)
  have big: "\<forall>k. unat k < max_object \<longrightarrow> big_allocator k"
    by (simp add: big_allocator_def max_object_def word_less_nat_alt)
  obtain st pk' c where r: "loqui_decoder_read_data big_allocator idle_decoder 7 [4, 0, 0, 0, 0, 5, 3] 0
      = Some (st, pk', c)"
    using decoder_implements_cut [of big_allocator idle_decoder 7 "[4, 0, 0, 0, 0, 5, 3]"] idle_decoder_ok
    by (auto simp: decodes_def)
  show ?thesis
    using decoder_implements_cut [of big_allocator idle_decoder 7 "[4, 0, 0, 0, 0, 5, 3]"] cut big
      idle_decoder_ok r
    by (cases st) (auto simp: decodes_def frame_held_def simp del: cut_frame.simps)
qed

end
