(* ===== verification/Loqui_Opcodes.thy ===== *)
theory Loqui_Opcodes
  imports Loqui_Prelude
begin

text \<open>
  \<open>py/loqui/opcodes.c\<close>: the event objects the stream handler produces, one class per opcode.
  Each class is a constructor of \<open>event\<close> with the C struct's fields, and its
  \<open>__cinit__\<close> a function that converts Python integers to the fields' C types, which
  raises \<open>OverflowError\<close> out of range. A \<open>list\<close> of \<open>bytes\<close> is a
  \<open>byte list list\<close>. The constructors' arguments are passed positionally by the
  stream handler; calls from Python are in \<open>Loqui_EventObjects\<close>.
\<close>

datatype event =
    Response byte u32 pybytes
  | Request byte u32 pybytes
  | Push byte pybytes
  | Ping byte u32
  | Pong byte u32
  | Hello byte byte "byte list list" "byte list list"
  | HelloAck byte u32 "byte list" "byte list"
  | GoAway byte u16 pybytes
  | Error byte u16 u32 pybytes

section \<open>Python integers to C integers\<close>

definition PyInt_As_uint8_t :: "int \<Rightarrow> byte py" where
  "PyInt_As_uint8_t n = (if 0 \<le> n \<and> n < 2 ^ 8 then Inr (word_of_int n) else Inl OverflowError)"

definition PyInt_As_uint16_t :: "int \<Rightarrow> u16 py" where
  "PyInt_As_uint16_t n = (if 0 \<le> n \<and> n < 2 ^ 16 then Inr (word_of_int n) else Inl OverflowError)"

definition PyInt_As_uint32_t :: "int \<Rightarrow> u32 py" where
  "PyInt_As_uint32_t n = (if 0 \<le> n \<and> n < 2 ^ 32 then Inr (word_of_int n) else Inl OverflowError)"

lemma uint8_round [simp]: "PyInt_As_uint8_t (uint (w :: byte)) = Inr w"
  using uint_lt2p [of w] by (simp add: PyInt_As_uint8_t_def)

lemma uint16_round [simp]: "PyInt_As_uint16_t (uint (w :: u16)) = Inr w"
  using uint_lt2p [of w] by (simp add: PyInt_As_uint16_t_def)

lemma uint32_round [simp]: "PyInt_As_uint32_t (uint (w :: u32)) = Inr w"
  using uint_lt2p [of w] by (simp add: PyInt_As_uint32_t_def)

section \<open>The constructors\<close>

definition Response_cinit :: "int \<Rightarrow> int \<Rightarrow> pybytes \<Rightarrow> event py" where
  "Response_cinit fl sq d =
     (case PyInt_As_uint8_t fl of Inl e \<Rightarrow> Inl e
      | Inr fl \<Rightarrow> (case PyInt_As_uint32_t sq of Inl e \<Rightarrow> Inl e
      | Inr sq \<Rightarrow> Inr (Response fl sq d)))"

definition Request_cinit :: "int \<Rightarrow> int \<Rightarrow> pybytes \<Rightarrow> event py" where
  "Request_cinit fl sq d =
     (case PyInt_As_uint8_t fl of Inl e \<Rightarrow> Inl e
      | Inr fl \<Rightarrow> (case PyInt_As_uint32_t sq of Inl e \<Rightarrow> Inl e
      | Inr sq \<Rightarrow> Inr (Request fl sq d)))"

definition Push_cinit :: "int \<Rightarrow> pybytes \<Rightarrow> event py" where
  "Push_cinit fl d =
     (case PyInt_As_uint8_t fl of Inl e \<Rightarrow> Inl e | Inr fl \<Rightarrow> Inr (Push fl d))"

definition Ping_cinit :: "int \<Rightarrow> int \<Rightarrow> event py" where
  "Ping_cinit fl sq =
     (case PyInt_As_uint8_t fl of Inl e \<Rightarrow> Inl e
      | Inr fl \<Rightarrow> (case PyInt_As_uint32_t sq of Inl e \<Rightarrow> Inl e
      | Inr sq \<Rightarrow> Inr (Ping fl sq)))"

definition Pong_cinit :: "int \<Rightarrow> int \<Rightarrow> event py" where
  "Pong_cinit fl sq =
     (case PyInt_As_uint8_t fl of Inl e \<Rightarrow> Inl e
      | Inr fl \<Rightarrow> (case PyInt_As_uint32_t sq of Inl e \<Rightarrow> Inl e
      | Inr sq \<Rightarrow> Inr (Pong fl sq)))"

definition Hello_cinit :: "int \<Rightarrow> int \<Rightarrow> byte list list \<Rightarrow> byte list list \<Rightarrow> event py" where
  "Hello_cinit fl ver encs comps =
     (case PyInt_As_uint8_t fl of Inl e \<Rightarrow> Inl e
      | Inr fl \<Rightarrow> (case PyInt_As_uint8_t ver of Inl e \<Rightarrow> Inl e
      | Inr ver \<Rightarrow> Inr (Hello fl ver encs comps)))"

definition HelloAck_cinit :: "int \<Rightarrow> int \<Rightarrow> byte list \<Rightarrow> byte list \<Rightarrow> event py" where
  "HelloAck_cinit fl pint enc cmp =
     (case PyInt_As_uint8_t fl of Inl e \<Rightarrow> Inl e
      | Inr fl \<Rightarrow> (case PyInt_As_uint32_t pint of Inl e \<Rightarrow> Inl e
      | Inr pint \<Rightarrow> Inr (HelloAck fl pint enc cmp)))"

definition GoAway_cinit :: "int \<Rightarrow> int \<Rightarrow> pybytes \<Rightarrow> event py" where
  "GoAway_cinit fl code reason =
     (case PyInt_As_uint8_t fl of Inl e \<Rightarrow> Inl e
      | Inr fl \<Rightarrow> (case PyInt_As_uint16_t code of Inl e \<Rightarrow> Inl e
      | Inr code \<Rightarrow> Inr (GoAway fl code reason)))"

definition Error_cinit :: "int \<Rightarrow> int \<Rightarrow> int \<Rightarrow> pybytes \<Rightarrow> event py" where
  "Error_cinit fl code sq d =
     (case PyInt_As_uint8_t fl of Inl e \<Rightarrow> Inl e
      | Inr fl \<Rightarrow> (case PyInt_As_uint16_t code of Inl e \<Rightarrow> Inl e
      | Inr code \<Rightarrow> (case PyInt_As_uint32_t sq of Inl e \<Rightarrow> Inl e
      | Inr sq \<Rightarrow> Inr (Error fl code sq d))))"

lemmas cinit_defs = Response_cinit_def Request_cinit_def Push_cinit_def Ping_cinit_def
  Pong_cinit_def Hello_cinit_def HelloAck_cinit_def GoAway_cinit_def Error_cinit_def

text \<open>Called with values that came out of C integers, no constructor can fail.\<close>

lemma cinit_of_words [simp]:
  "Response_cinit (uint fl) (uint sq) d = Inr (Response fl sq d)"
  "Request_cinit (uint fl) (uint sq) d = Inr (Request fl sq d)"
  "Push_cinit (uint fl) d = Inr (Push fl d)"
  "Ping_cinit (uint fl) (uint sq) = Inr (Ping fl sq)"
  "Pong_cinit (uint fl) (uint sq) = Inr (Pong fl sq)"
  "Hello_cinit (uint fl) (uint ver) encs comps = Inr (Hello fl ver encs comps)"
  "HelloAck_cinit (uint fl) (uint pint) enc cmp = Inr (HelloAck fl pint enc cmp)"
  "GoAway_cinit (uint fl) (uint code) reason = Inr (GoAway fl code reason)"
  "Error_cinit (uint fl) (uint code) (uint sq) d = Inr (Error fl code sq d)"
  by (simp_all add: cinit_defs)

end
