(* ===== verification/Loqui_Stream.thy ===== *)
theory Loqui_Stream
  imports Loqui_Encoder Loqui_Decoder Loqui_Opcodes
begin

text \<open>
  \<open>py/loqui/stream_handler.c\<close>: \<open>LoquiStreamHandler\<close>, which turns received bytes into
  events and calls of its \<open>send_\<close> methods into bytes to write. This theory translates
  its functions; the next ones prove what they do.

  Conventions. A method takes and returns the handler. \<open>None\<close> is undefined behaviour;
  \<open>Inl\<close> an exception. The methods are called through the C vtable and not overridden in
  Python. CPython's own small allocations (tuples, integers, bytes objects) are taken to succeed.
  Methods declared \<open>except 0\<close> signal an exception by returning 0, so their callers take
  every 0 for one: \<open>except0\<close>.
\<close>

section \<open>Constants and buffers\<close>

definition BIG_BUF_SIZE :: size_t where "BIG_BUF_SIZE = 0x200000"
definition INITIAL_BUFFER_SIZE :: size_t where "INITIAL_BUFFER_SIZE = 0x80000"
definition SEQ_MAX :: u32 where "SEQ_MAX = 0xFFFFFFFE"

record LoquiStreamHandler =
  sh_seq :: u32
  decode_buffer :: loqui_decode_buffer_t
  write_buffer :: loqui_buffer_t
  write_buffer_position :: size_t

text \<open>
  \<open>_reset_buffer\<close> is a \<open>void\<close> function: when \<open>malloc\<close> fails, the
  \<open>MemoryError\<close> it raises is printed and dropped (\<open>__Pyx_WriteUnraisable\<close>), and the
  pointer stays NULL.
\<close>

definition reset_buffer :: "allocator \<Rightarrow> loqui_buffer_t \<Rightarrow> loqui_buffer_t" where
  "reset_buffer alloc b =
     (if buf b \<noteq> None then b\<lparr>buf_length := 0\<rparr>
      else if alloc INITIAL_BUFFER_SIZE
      then b\<lparr>buf := Some [], allocated_size := INITIAL_BUFFER_SIZE, buf_length := 0\<rparr>
      else b)"

definition free_big_buffer :: "loqui_buffer_t \<Rightarrow> loqui_buffer_t" where
  "free_big_buffer b =
     (if allocated_size b \<ge> BIG_BUF_SIZE
      then \<lparr>buf = None, buf_length = 0, allocated_size = 0\<rparr>
      else b\<lparr>buf_length := 0\<rparr>)"

definition get_payload_from_decode_buffer :: "loqui_decode_buffer_t \<Rightarrow> pybytes option" where
  "get_payload_from_decode_buffer pk =
     (case loqui_get_data_payload_size pk of
        None \<Rightarrow> None
      | Some n \<Rightarrow>
          if n = 0 then Some None
          else let m = cells (buf (loqui_buffer pk)) in
            if unat (header_size pk) + unat n \<le> length m
            then Some (Some (take (unat n) (drop (unat (header_size pk)) m)))
            else None)"

definition zero_buffer :: loqui_buffer_t where
  "zero_buffer = \<lparr>buf = None, buf_length = 0, allocated_size = 0\<rparr>"

text \<open>The object's memory is zeroed by its type's allocator before \<open>__cinit__\<close> runs.\<close>

definition LoquiStreamHandler_cinit :: "allocator \<Rightarrow> LoquiStreamHandler" where
  "LoquiStreamHandler_cinit alloc =
     \<lparr>sh_seq = 0,
      decode_buffer = \<lparr>loqui_buffer = reset_buffer alloc zero_buffer, opcode = 0,
        data_size_remaining = 0, header_size = 0, decode_complete = 0\<rparr>,
      write_buffer = reset_buffer alloc zero_buffer,
      write_buffer_position = 0\<rparr>"

section \<open>Sequence numbers\<close>

definition current_seq :: "LoquiStreamHandler \<Rightarrow> u32" where
  "current_seq h = sh_seq h"

definition next_seq :: "LoquiStreamHandler \<Rightarrow> LoquiStreamHandler \<times> u32" where
  "next_seq h =
     (let h = h\<lparr>sh_seq := sh_seq h + 1\<rparr>; n = sh_seq h in
      if n \<ge> SEQ_MAX then (h\<lparr>sh_seq := 0\<rparr>, 0) else (h, n))"

section \<open>Sending\<close>

text \<open>The caller's reading of a return value of a method declared \<open>except 0\<close>.\<close>

definition except0 :: "u32 py \<Rightarrow> u32 py" where
  "except0 r = (case r of Inl e \<Rightarrow> Inl e | Inr n \<Rightarrow> if n = 0 then Inl SystemError else Inr n)"

text \<open>\<open>PyBytes_AsStringAndSize\<close>: the bytes and their number; \<open>TypeError\<close> for \<open>None\<close>.\<close>

definition PyBytes_AsStringAndSize :: "pybytes \<Rightarrow> (byte list \<times> size_t) py" where
  "PyBytes_AsStringAndSize d =
     (case d of None \<Rightarrow> Inl TypeError | Some bs \<Rightarrow> Inr (bs, of_nat (length bs)))"

text \<open>What every \<open>send_\<close> method does with the value of its append function.\<close>

definition finish_send ::
    "LoquiStreamHandler \<Rightarrow> (int \<times> loqui_buffer_t) option \<Rightarrow> u32 \<Rightarrow>
      (LoquiStreamHandler \<times> u32 py) option" where
  "finish_send h r result =
     (case r of
        None \<Rightarrow> None
      | Some (rv, b) \<Rightarrow>
          let h = h\<lparr>write_buffer := b\<rparr> in
          if rv < 0 then Some (h, Inl MemoryError) else Some (h, Inr result))"

definition send_ping ::
    "allocator \<Rightarrow> LoquiStreamHandler \<Rightarrow> byte \<Rightarrow> (LoquiStreamHandler \<times> u32 py) option" where
  "send_ping alloc h flags =
     (let (h, seq) = next_seq h in
      finish_send h (loqui_append_ping alloc (write_buffer h) flags seq) seq)"

definition send_pong ::
    "allocator \<Rightarrow> LoquiStreamHandler \<Rightarrow> byte \<Rightarrow> u32 \<Rightarrow> (LoquiStreamHandler \<times> u32 py) option" where
  "send_pong alloc h flags seq =
     finish_send h (loqui_append_pong alloc (write_buffer h) flags seq) 1"

definition send_request ::
    "allocator \<Rightarrow> LoquiStreamHandler \<Rightarrow> byte \<Rightarrow> pybytes \<Rightarrow> (LoquiStreamHandler \<times> u32 py) option" where
  "send_request alloc h flags data =
     (let (h, seq) = next_seq h in
      case PyBytes_AsStringAndSize data of
        Inl e \<Rightarrow> Some (h, Inl e)
      | Inr (buffer, n) \<Rightarrow>
          finish_send h (loqui_append_request alloc (write_buffer h) flags seq (ucast n) buffer) seq)"

definition send_push ::
    "allocator \<Rightarrow> LoquiStreamHandler \<Rightarrow> byte \<Rightarrow> pybytes \<Rightarrow> (LoquiStreamHandler \<times> u32 py) option" where
  "send_push alloc h flags data =
     (case PyBytes_AsStringAndSize data of
        Inl e \<Rightarrow> Some (h, Inl e)
      | Inr (buffer, n) \<Rightarrow>
          finish_send h (loqui_append_push alloc (write_buffer h) flags (ucast n) buffer) 1)"

text \<open>\<open>b','.join\<close> and \<open>b'%s|%s'\<close>.\<close>

definition COMMA :: byte where "COMMA = 44"
definition PIPE :: byte where "PIPE = 124"

fun bytes_join :: "byte \<Rightarrow> byte list list \<Rightarrow> byte list" where
  "bytes_join sep [] = []"
| "bytes_join sep [x] = x"
| "bytes_join sep (x # y # zs) = x @ sep # bytes_join sep (y # zs)"

definition send_hello ::
    "allocator \<Rightarrow> LoquiStreamHandler \<Rightarrow> byte \<Rightarrow> byte list list \<Rightarrow> byte list list \<Rightarrow>
      (LoquiStreamHandler \<times> u32 py) option" where
  "send_hello alloc h flags supported_encodings supported_compressors =
     (let data = bytes_join COMMA supported_encodings @ PIPE # bytes_join COMMA supported_compressors in
      case PyBytes_AsStringAndSize (Some data) of
        Inl e \<Rightarrow> Some (h, Inl e)
      | Inr (buffer, n) \<Rightarrow>
          finish_send h (loqui_append_hello alloc (write_buffer h) flags (ucast n) buffer) 1)"

text \<open>
  \<open>bytes(b'%s|%s' % (selected_encoding, selected_compressor or ''))\<close>. Without a compressor the second
  value is the literal \<open>''\<close>, which Cython makes a \<open>str\<close>: on Python 3 (\<open>py3\<close>) that is text, and formatting it
  into bytes raises \<open>TypeError\<close>.
\<close>

definition hello_ack_payload :: "bool \<Rightarrow> byte list \<Rightarrow> pybytes \<Rightarrow> byte list py" where
  "hello_ack_payload py3 selected_encoding selected_compressor =
     (case selected_compressor of
        Some (c # cs) \<Rightarrow> Inr (selected_encoding @ PIPE # c # cs)
      | _ \<Rightarrow> if py3 then Inl TypeError else Inr (selected_encoding @ [PIPE]))"

definition send_hello_ack ::
    "bool \<Rightarrow> allocator \<Rightarrow> LoquiStreamHandler \<Rightarrow> byte \<Rightarrow> u32 \<Rightarrow> byte list \<Rightarrow> pybytes \<Rightarrow>
      (LoquiStreamHandler \<times> u32 py) option" where
  "send_hello_ack py3 alloc h flags ping_interval selected_encoding selected_compressor =
     (case hello_ack_payload py3 selected_encoding selected_compressor of
        Inl e \<Rightarrow> Some (h, Inl e)
      | Inr data \<Rightarrow>
          (case PyBytes_AsStringAndSize (Some data) of
             Inl e \<Rightarrow> Some (h, Inl e)
           | Inr (buffer, n) \<Rightarrow>
               finish_send h
                 (loqui_append_hello_ack alloc (write_buffer h) flags ping_interval (ucast n) buffer) 1))"

text \<open>The two versions of Python differ in the call without a compressor only.\<close>

lemma send_hello_ack_python2:
  "send_hello_ack False alloc h fl pint enc cmp =
     (case PyBytes_AsStringAndSize (Some (enc @ PIPE # (case cmp of None \<Rightarrow> [] | Some c \<Rightarrow> c))) of
        Inl e \<Rightarrow> Some (h, Inl e)
      | Inr (buffer, n) \<Rightarrow> finish_send h (loqui_append_hello_ack alloc (write_buffer h) fl pint (ucast n) buffer) 1)"
  by (simp add: send_hello_ack_def hello_ack_payload_def split: option.split list.split)

lemma send_hello_ack_python3:
  "send_hello_ack True alloc h fl pint enc cmp =
     (if cmp = None \<or> cmp = Some [] then Some (h, Inl TypeError) else send_hello_ack False alloc h fl pint enc cmp)"
  by (simp add: send_hello_ack_def hello_ack_payload_def split: option.split list.split)

definition send_response ::
    "allocator \<Rightarrow> LoquiStreamHandler \<Rightarrow> byte \<Rightarrow> u32 \<Rightarrow> pybytes \<Rightarrow>
      (LoquiStreamHandler \<times> u32 py) option" where
  "send_response alloc h flags seq data =
     (case PyBytes_AsStringAndSize data of
        Inl e \<Rightarrow> Some (h, Inl e)
      | Inr (buffer, n) \<Rightarrow>
          finish_send h (loqui_append_response alloc (write_buffer h) flags seq (ucast n) buffer) 1)"

text \<open>\<open>if data:\<close> is false for \<open>None\<close> and for empty bytes; then the pointer stays NULL.\<close>

definition send_error ::
    "allocator \<Rightarrow> LoquiStreamHandler \<Rightarrow> byte \<Rightarrow> u16 \<Rightarrow> u32 \<Rightarrow> pybytes \<Rightarrow>
      (LoquiStreamHandler \<times> u32 py) option" where
  "send_error alloc h flags code seq data =
     (case (if data = None \<or> data = Some [] then Inr ([], 0) else PyBytes_AsStringAndSize data) of
        Inl e \<Rightarrow> Some (h, Inl e)
      | Inr (buffer, n) \<Rightarrow>
          finish_send h (loqui_append_error alloc (write_buffer h) flags code seq (ucast n) buffer) 1)"

definition send_goaway ::
    "allocator \<Rightarrow> LoquiStreamHandler \<Rightarrow> byte \<Rightarrow> u16 \<Rightarrow> pybytes \<Rightarrow>
      (LoquiStreamHandler \<times> u32 py) option" where
  "send_goaway alloc h flags code reason =
     (case (if reason = None \<or> reason = Some [] then Inr ([], 0) else PyBytes_AsStringAndSize reason) of
        Inl e \<Rightarrow> Some (h, Inl e)
      | Inr (buffer, n) \<Rightarrow>
          finish_send h (loqui_append_goaway alloc (write_buffer h) flags code (ucast n) buffer) 1)"

text \<open>The Python-visible methods: the wrapper around \<open>send_ping\<close> and \<open>send_request\<close>.\<close>

definition py_send_ping ::
    "allocator \<Rightarrow> LoquiStreamHandler \<Rightarrow> byte \<Rightarrow> (LoquiStreamHandler \<times> u32 py) option" where
  "py_send_ping alloc h flags = map_option (\<lambda>(h, r). (h, except0 r)) (send_ping alloc h flags)"

definition py_send_request ::
    "allocator \<Rightarrow> LoquiStreamHandler \<Rightarrow> byte \<Rightarrow> pybytes \<Rightarrow> (LoquiStreamHandler \<times> u32 py) option" where
  "py_send_request alloc h flags data =
     map_option (\<lambda>(h, r). (h, except0 r)) (send_request alloc h flags data)"

section \<open>The write buffer\<close>

text \<open>\<open>memcpy\<close> within one object: undefined when the two regions overlap or leave it.\<close>

definition c_memcpy_within :: "char_ptr \<Rightarrow> size_t \<Rightarrow> size_t \<Rightarrow> size_t \<Rightarrow> char_ptr option" where
  "c_memcpy_within p dst src l =
     (if l = 0 then Some p
      else case p of
        None \<Rightarrow> None
      | Some m \<Rightarrow>
          let d = unat dst; s = unat src; n = unat l in
          if s + n \<le> length m \<and> d + n \<le> length m \<and> (d + n \<le> s \<or> s + n \<le> d)
          then Some (Some (take d m @ take n (drop s m) @ drop (d + n) m))
          else None)"

definition reset_or_compact_write_buf ::
    "allocator \<Rightarrow> LoquiStreamHandler \<Rightarrow> LoquiStreamHandler option" where
  "reset_or_compact_write_buf alloc h =
     (let wb = write_buffer h; pos = write_buffer_position h in
      if pos = buf_length wb
      then Some (h\<lparr>write_buffer := reset_buffer alloc (free_big_buffer wb),
                  write_buffer_position := 0\<rparr>)
      else if buf_length wb > pos \<and> pos > allocated_size wb div 2
      then (case c_memcpy_within (buf wb) 0 pos (buf_length wb - pos) of
              None \<Rightarrow> None
            | Some p \<Rightarrow>
                Some (h\<lparr>write_buffer := wb\<lparr>buf := p, buf_length := buf_length wb - pos\<rparr>,
                        write_buffer_position := 0\<rparr>))
      else Some h)"

definition write_buffer_len :: "LoquiStreamHandler \<Rightarrow> size_t" where
  "write_buffer_len h = buf_length (write_buffer h) - write_buffer_position h"

definition write_buffer_get_bytes ::
    "allocator \<Rightarrow> LoquiStreamHandler \<Rightarrow> size_t \<Rightarrow> bool \<Rightarrow> (LoquiStreamHandler \<times> pybytes) option" where
  "write_buffer_get_bytes alloc h n consume =
     (let remaining = write_buffer_len h; n = (if n > remaining then remaining else n) in
      if n = 0 then Some (h, None)
      else let m = cells (buf (write_buffer h)); pos = write_buffer_position h in
        if unat pos + unat n \<le> length m
        then let bytes = take (unat n) (drop (unat pos) m) in
          if consume
          then (case reset_or_compact_write_buf alloc (h\<lparr>write_buffer_position := pos + n\<rparr>) of
                  None \<Rightarrow> None
                | Some h \<Rightarrow> Some (h, Some bytes))
          else Some (h, Some bytes)
        else None)"

definition write_buffer_consume_bytes ::
    "allocator \<Rightarrow> LoquiStreamHandler \<Rightarrow> size_t \<Rightarrow> (LoquiStreamHandler \<times> size_t) option" where
  "write_buffer_consume_bytes alloc h n =
     (let remaining = write_buffer_len h; n = (if n > remaining then remaining else n) in
      case reset_or_compact_write_buf alloc
          (h\<lparr>write_buffer_position := write_buffer_position h + n\<rparr>) of
        None \<Rightarrow> None
      | Some h \<Rightarrow> Some (h, remaining - n))"

end
