(* ===== verification/Loqui_Receive.thy ===== *)
theory Loqui_Receive
  imports Loqui_Stream
begin

text \<open>
  \<open>py/loqui/stream_handler.c\<close>, the receiving half: \<open>on_bytes_received\<close> runs the
  decoder over a chunk and \<open>_consume_decode_buffer\<close> turns each complete frame into an
  event, one definition per opcode branch. The conventions are those of \<open>Loqui_Stream\<close>.
\<close>

section \<open>Consuming a frame\<close>

text \<open>\<open>bytes.split\<close> with a one-byte separator: one piece more than there are separators.\<close>

fun bytes_split :: "byte \<Rightarrow> byte list \<Rightarrow> byte list list" where
  "bytes_split sep [] = [[]]"
| "bytes_split sep (x # xs) =
     (if x = sep then [] # bytes_split sep xs
      else (case bytes_split sep xs of [] \<Rightarrow> [[x]] | y # ys \<Rightarrow> (x # y) # ys))"

definition consume_response :: "loqui_decode_buffer_t \<Rightarrow> event py option" where
  "consume_response pk =
     do { fl \<leftarrow> loqui_get_flags pk;
          sq \<leftarrow> loqui_get_seq pk;
          d \<leftarrow> get_payload_from_decode_buffer pk;
          Some (Response_cinit (uint fl) (uint sq) d) }"

definition consume_request :: "loqui_decode_buffer_t \<Rightarrow> event py option" where
  "consume_request pk =
     do { fl \<leftarrow> loqui_get_flags pk;
          sq \<leftarrow> loqui_get_seq pk;
          d \<leftarrow> get_payload_from_decode_buffer pk;
          Some (Request_cinit (uint fl) (uint sq) d) }"

definition consume_push :: "loqui_decode_buffer_t \<Rightarrow> event py option" where
  "consume_push pk =
     do { fl \<leftarrow> loqui_get_flags pk;
          d \<leftarrow> get_payload_from_decode_buffer pk;
          Some (Push_cinit (uint fl) d) }"

definition consume_pong :: "loqui_decode_buffer_t \<Rightarrow> event py option" where
  "consume_pong pk =
     do { fl \<leftarrow> loqui_get_flags pk;
          sq \<leftarrow> loqui_get_seq pk;
          Some (Pong_cinit (uint fl) (uint sq)) }"

definition consume_goaway :: "loqui_decode_buffer_t \<Rightarrow> event py option" where
  "consume_goaway pk =
     do { fl \<leftarrow> loqui_get_flags pk;
          code \<leftarrow> loqui_get_code pk;
          d \<leftarrow> get_payload_from_decode_buffer pk;
          Some (GoAway_cinit (uint fl) (uint code) d) }"

definition consume_error :: "loqui_decode_buffer_t \<Rightarrow> event py option" where
  "consume_error pk =
     do { fl \<leftarrow> loqui_get_flags pk;
          code \<leftarrow> loqui_get_code pk;
          sq \<leftarrow> loqui_get_seq pk;
          d \<leftarrow> get_payload_from_decode_buffer pk;
          Some (Error_cinit (uint fl) (uint code) (uint sq) d) }"

text \<open>
  \<open>payload.split(b'|')\<close> and the unpacking of its result into two names. The generated C
  calls the C function of \<open>bytes.split\<close> on the payload without checking that it is a
  \<open>bytes\<close> object (\<open>__Pyx_CallUnboundCMethod1\<close>), and the payload of an empty frame is
  \<open>None\<close>: undefined.
\<close>

definition split_pair :: "pybytes \<Rightarrow> (byte list \<times> byte list) py option" where
  "split_pair payload =
     (case payload of
        None \<Rightarrow> None
      | Some bs \<Rightarrow>
          (case bytes_split PIPE bs of
             [l, r] \<Rightarrow> Some (Inr (l, r))
           | _ \<Rightarrow> Some (Inl ValueError)))"

definition consume_hello :: "loqui_decode_buffer_t \<Rightarrow> event py option" where
  "consume_hello pk =
     do { payload \<leftarrow> get_payload_from_decode_buffer pk;
          parts \<leftarrow> split_pair payload;
          (case parts of
             Inl e \<Rightarrow> Some (Inl e)
           | Inr (encs, cmps) \<Rightarrow>
               do { fl \<leftarrow> loqui_get_flags pk;
                    ver \<leftarrow> loqui_get_version pk;
                    Some (Hello_cinit (uint fl) (uint ver)
                      (bytes_split COMMA encs) (bytes_split COMMA cmps)) }) }"

definition consume_hello_ack :: "loqui_decode_buffer_t \<Rightarrow> event py option" where
  "consume_hello_ack pk =
     do { payload \<leftarrow> get_payload_from_decode_buffer pk;
          parts \<leftarrow> split_pair payload;
          (case parts of
             Inl e \<Rightarrow> Some (Inl e)
           | Inr (enc, cmp) \<Rightarrow>
               do { fl \<leftarrow> loqui_get_flags pk;
                    pint \<leftarrow> loqui_get_ping_interval pk;
                    Some (HelloAck_cinit (uint fl) (uint pint) enc cmp) }) }"

text \<open>A ping is answered while it is being consumed.\<close>

definition consume_ping ::
    "allocator \<Rightarrow> LoquiStreamHandler \<Rightarrow> (LoquiStreamHandler \<times> event py) option" where
  "consume_ping alloc h =
     do { fl \<leftarrow> loqui_get_flags (decode_buffer h);
          sq \<leftarrow> loqui_get_seq (decode_buffer h);
          (case Ping_cinit (uint fl) (uint sq) of
             Inl e \<Rightarrow> Some (h, Inl e)
           | Inr response \<Rightarrow>
               do { (h, r) \<leftarrow> send_pong alloc h fl sq;
                    (case except0 r of
                       Inl e \<Rightarrow> Some (h, Inl e)
                     | Inr _ \<Rightarrow> Some (h, Inr response)) }) }"

definition reset_decode_buf :: "allocator \<Rightarrow> loqui_decode_buffer_t \<Rightarrow> loqui_decode_buffer_t" where
  "reset_decode_buf alloc pk =
     (let pk = loqui_decoder_reset pk;
          pk = pk\<lparr>loqui_buffer := free_big_buffer (loqui_buffer pk)\<rparr>
      in pk\<lparr>loqui_buffer := reset_buffer alloc (loqui_buffer pk)\<rparr>)"

text \<open>
  The branch on the opcode: it leaves \<open>response\<close> assigned, raises, or (no branch taken)
  leaves it unassigned, \<open>None\<close>.
\<close>

definition consume_branch ::
    "allocator \<Rightarrow> LoquiStreamHandler \<Rightarrow> (LoquiStreamHandler \<times> event py option) option" where
  "consume_branch alloc h =
     (let pk = decode_buffer h; op = opcode pk in
      if op = LOQUI_OP_RESPONSE then map_option (\<lambda>r. (h, Some r)) (consume_response pk)
      else if op = LOQUI_OP_REQUEST then map_option (\<lambda>r. (h, Some r)) (consume_request pk)
      else if op = LOQUI_OP_PUSH then map_option (\<lambda>r. (h, Some r)) (consume_push pk)
      else if op = LOQUI_OP_PING then map_option (\<lambda>(h, r). (h, Some r)) (consume_ping alloc h)
      else if op = LOQUI_OP_PONG then map_option (\<lambda>r. (h, Some r)) (consume_pong pk)
      else if op = LOQUI_OP_GOAWAY then map_option (\<lambda>r. (h, Some r)) (consume_goaway pk)
      else if op = LOQUI_OP_HELLO then map_option (\<lambda>r. (h, Some r)) (consume_hello pk)
      else if op = LOQUI_OP_HELLO_ACK then map_option (\<lambda>r. (h, Some r)) (consume_hello_ack pk)
      else if op = LOQUI_OP_ERROR then map_option (\<lambda>r. (h, Some r)) (consume_error pk)
      else Some (h, None))"

text \<open>
  Only after the branch is the decode buffer reset: an exception in it skips the reset. When no
  branch was taken, reading the unassigned local raises after the reset.
\<close>

definition consume_decode_buffer ::
    "allocator \<Rightarrow> LoquiStreamHandler \<Rightarrow> (LoquiStreamHandler \<times> event py) option" where
  "consume_decode_buffer alloc h =
     (case consume_branch alloc h of
        None \<Rightarrow> None
      | Some (h, Some (Inl e)) \<Rightarrow> Some (h, Inl e)
      | Some (h, Some (Inr response)) \<Rightarrow>
          Some (h\<lparr>decode_buffer := reset_decode_buf alloc (decode_buffer h)\<rparr>, Inr response)
      | Some (h, None) \<Rightarrow>
          Some (h\<lparr>decode_buffer := reset_decode_buf alloc (decode_buffer h)\<rparr>, Inl UnboundLocalError))"

section \<open>How much a decoding step consumes\<close>

text \<open>
  The loop's termination: a step never consumes more than there is, and consumes the opcode
  when it starts on a new frame.
\<close>

lemma read_status_consumed:
  "loqui_read_status pk c = Some (st, pk', c') \<Longrightarrow> c' = c"
  by (auto simp: loqui_read_status_def split: if_splits)

lemma read_payload_consumed:
  assumes "loqui_read_payload alloc pk sz data c = Some (st, pk', c')"
  obtains k where "c' = c + k" and "k \<le> sz"
proof -
  let ?k = "if data_size_remaining pk > sz then sz else data_size_remaining pk"
  have "c' = c \<or> c' = c + ?k"
    using assms
    by (auto simp: loqui_read_payload_def Let_def split: option.splits if_splits
        dest: read_status_consumed)
  moreover have "?k \<le> sz" by (simp add: not_less)
  ultimately show ?thesis
    using that [of 0] that [of ?k] by auto
qed

lemma read_header_end_consumed:
  assumes "loqui_read_header_end alloc pk sz data c = Some (st, pk', c')"
  obtains k where "c' = c + k" and "k \<le> sz"
proof -
  have "c' = c \<or> (\<exists>pk. loqui_read_payload alloc pk sz data c = Some (st, pk', c'))"
    using assms by (auto simp: loqui_read_header_end_def Let_def split: option.splits if_splits)
  then show ?thesis
    using that [of 0] that by (auto elim: read_payload_consumed)
qed

lemma word_le_plus_diff:
  fixes a b c :: size_t
  assumes "a \<le> c" and "b \<le> c - a"
  shows "a + b \<le> c" and "a \<le> a + b"
proof -
  have "unat a + unat b \<le> unat c"
    using assms by (simp add: word_le_nat_alt unat_sub)
  then have "unat (a + b) = unat a + unat b"
    using unat_size_bound [of c] by (simp add: unat_add_small)
  then show "a + b \<le> c" and "a \<le> a + b"
    using \<open>unat a + unat b \<le> unat c\<close> by (simp_all add: word_le_nat_alt)
qed

lemma read_append_consumed:
  assumes "loqui_read_append_data alloc pk sz data c = Some (st, pk', c')"
  obtains k where "c' = c + k" and "k \<le> sz"
proof (cases "opcode pk \<noteq> 0 \<and> buf_length (loqui_buffer pk) < header_size pk")
  case False
  then have "c' = c \<or> loqui_read_payload alloc pk sz data c = Some (st, pk', c')"
    using assms by (auto simp: loqui_read_append_data_def split: if_splits)
  then show ?thesis
    using that [of 0] that by (auto elim: read_payload_consumed)
next
  case True
  define k where "k = (if header_size pk - buf_length (loqui_buffer pk) > sz then sz
    else header_size pk - buf_length (loqui_buffer pk))"
  have k: "k \<le> sz" by (simp add: k_def not_less)
  have "c' = c \<or> c' = c + k \<or>
      (\<exists>pk data. loqui_read_header_end alloc pk (sz - k) data (c + k) = Some (st, pk', c'))"
    using assms True unfolding loqui_read_append_data_def Let_def k_def [symmetric]
    by (auto split: option.splits if_splits)
  then consider "c' = c" | "c' = c + k" | j where "c' = c + k + j" "j \<le> sz - k"
    by (auto elim: read_header_end_consumed)
  then show ?thesis
    using that [of 0] that [of k] that k word_le_plus_diff(1) [OF k]
    by cases (auto simp: add.assoc)
qed

lemma read_data_consumed:
  assumes step: "loqui_decoder_read_data alloc pk sz data 0 = Some (st, pk', c)" and pos: "0 < sz"
  shows "c \<le> sz" and "status_value st \<ge> 0 \<Longrightarrow> opcode pk = 0 \<Longrightarrow> decode_complete pk \<noteq> 1 \<Longrightarrow> 0 < c"
proof -
  consider (idle) "decode_complete pk \<noteq> 1" "opcode pk = 0" "loqui_read_new_data alloc pk sz data 0 = Some (st, pk', c)"
    | (rest) "c \<le> sz" "decode_complete pk = 1 \<or> opcode pk \<noteq> 0"
    using step read_append_consumed [of alloc pk sz data 0 st pk' c]
    by (auto simp: loqui_decoder_read_data_def split: if_splits)
  then have "c \<le> sz \<and> (status_value st \<ge> 0 \<longrightarrow> opcode pk = 0 \<longrightarrow> decode_complete pk \<noteq> 1 \<longrightarrow> 0 < c)"
  proof cases
    case idle
    have one: "(1 :: size_t) \<le> sz" using pos by (simp add: word_le_nat_alt word_less_nat_alt)
    consider "c = 0" "st = LOQUI_DECODE_INVALID_OPCODE" | "c = 1"
      | pk1 ds where "loqui_read_append_data alloc pk1 (sz - 1) ds 1 = Some (st, pk', c)"
      using idle(3) by (auto simp: loqui_read_new_data_def Let_def split: list.splits if_splits)
    then show ?thesis
    proof cases
      case 3
      then obtain k where k: "c = 1 + k" "k \<le> sz - 1" by (elim read_append_consumed)
      then have "c \<le> sz" "1 \<le> c" using word_le_plus_diff [OF one k(2)] by simp_all
      then show ?thesis by (simp add: word_le_nat_alt word_less_nat_alt)
    qed (use one in simp_all)
  qed auto
  then show "c \<le> sz" and "status_value st \<ge> 0 \<Longrightarrow> opcode pk = 0 \<Longrightarrow> decode_complete pk \<noteq> 1 \<Longrightarrow> 0 < c"
    by simp_all
qed

section \<open>The receive loop\<close>

lemma reset_decode_buf_idle [simp]:
  "opcode (reset_decode_buf alloc pk) = 0"
  "decode_complete (reset_decode_buf alloc pk) = 0"
  by (simp_all add: reset_decode_buf_def loqui_decoder_reset_def Let_def)

lemma consume_resets:
  "consume_decode_buffer alloc h = Some (h', Inr ev) \<Longrightarrow>
     opcode (decode_buffer h') = 0 \<and> decode_complete (decode_buffer h') = 0"
  by (auto simp: consume_decode_buffer_def split: option.splits sum.splits)

text \<open>
  \<open>while size > 0\<close> of \<open>on_bytes_received\<close>: \<open>sz\<close> and \<open>data\<close> are
  \<open>size\<close> and what \<open>buf\<close> points at, \<open>acc\<close> is \<open>received_payloads\<close>.
\<close>

function receive_loop ::
    "allocator \<Rightarrow> LoquiStreamHandler \<Rightarrow> size_t \<Rightarrow> byte list \<Rightarrow> event list \<Rightarrow>
      (LoquiStreamHandler \<times> event list py) option" where
  "receive_loop alloc h sz data acc =
     (if sz > 0
      then (case loqui_decoder_read_data alloc (decode_buffer h) sz data 0 of
          None \<Rightarrow> None
        | Some (st, pk, consumed) \<Rightarrow>
            let h1 = h\<lparr>decode_buffer := pk\<rparr> in
            if status_value st < 0
            then Some (h1\<lparr>decode_buffer := reset_decode_buf alloc pk\<rparr>,
                       Inl (LoquiDecoderError (status_value st)))
            else if st = LOQUI_DECODE_NEEDS_MORE then Some (h1, Inr acc)
            else if st = LOQUI_DECODE_COMPLETE
            then (case consume_decode_buffer alloc h1 of
                    None \<Rightarrow> None
                  | Some (h2, Inl e) \<Rightarrow> Some (h2, Inl e)
                  | Some (h2, Inr ev) \<Rightarrow>
                      receive_loop alloc h2 (sz - consumed) (drop (unat consumed) data) (acc @ [ev]))
            else Some (h1, Inl (LoquiDecoderError (status_value st))))
      else Some (h, Inr acc))"
  by pat_completeness auto
termination
proof (relation "measures [\<lambda>(alloc, h, sz, data, acc). unat sz,
    \<lambda>(alloc, h, sz, data, acc). if opcode (decode_buffer h) = 0 \<and> decode_complete (decode_buffer h) \<noteq> 1
      then 0 else 1]", goal_cases)
  case 1
  then show ?case by simp
next
  case (2 alloc h sz data acc x st y pk consumed h1 z h2 r ev)
  then have step: "loqui_decoder_read_data alloc (decode_buffer h) sz data 0 = Some (st, pk, consumed)"
    and pos: "0 < sz" and st: "0 \<le> status_value st"
    and used: "consume_decode_buffer alloc h1 = Some (h2, Inr ev)"
    by simp_all
  have idle: "opcode (decode_buffer h2) = 0" "decode_complete (decode_buffer h2) = 0"
    using consume_resets [OF used] by simp_all
  have le: "unat (sz - consumed) = unat sz - unat consumed" "unat consumed \<le> unat sz" "0 < unat sz"
    using read_data_consumed(1) [OF step pos] pos
    by (simp_all add: unat_sub word_le_nat_alt word_less_nat_alt)
  have "0 < unat consumed" if "opcode (decode_buffer h) = 0" "decode_complete (decode_buffer h) \<noteq> 1"
    using read_data_consumed(2) [OF step pos st that] by (simp add: word_less_nat_alt)
  then show ?case
    using le idle by (auto simp: not_less)
qed

declare receive_loop.simps [simp del]

text \<open>\<open>PyBytes_Size\<close> raises \<open>TypeError\<close> for \<open>None\<close>.\<close>

definition on_bytes_received ::
    "allocator \<Rightarrow> LoquiStreamHandler \<Rightarrow> pybytes \<Rightarrow> (LoquiStreamHandler \<times> event list py) option" where
  "on_bytes_received alloc h data =
     (case PyBytes_AsStringAndSize data of
        Inl e \<Rightarrow> Some (h, Inl e)
      | Inr (bs, sz) \<Rightarrow> receive_loop alloc h sz bs [])"

section \<open>Properties\<close>

text \<open>
  The receive loop makes progress. A decoding step never claims more bytes than are left
  of the chunk, and a step that is not an error takes at least one byte unless the decoder was in the
  middle of a frame or held a complete one. With the reset after each consumed frame this is
  why \<open>while size > 0\<close> ends on every input.
\<close>

theorem decoding_step_progress:
  assumes "loqui_decoder_read_data alloc pk sz data 0 = Some (st, pk', c)" and "0 < sz"
  shows "c \<le> sz \<and> (status_value st \<ge> 0 \<and> opcode pk = 0 \<and> decode_complete pk \<noteq> 1 \<longrightarrow> 0 < c)"
  using read_data_consumed [OF assms] by blast

lemma decoding_step_progress_witness:
  "\<exists>st pk' c. loqui_decoder_read_data big_allocator idle_decoder 1 [4] 0 = Some (st, pk', c) \<and> 0 < c \<and> c \<le> 1"
proof -
  let ?pk = "idle_decoder\<lparr>opcode := 4, header_size := 5\<rparr>"
  have "loqui_decoder_read_data big_allocator idle_decoder 1 [4] 0 = Some (LOQUI_DECODE_NEEDS_MORE, ?pk, 1)"
    by (simp add: loqui_decoder_read_data_def loqui_read_new_data_def idle_decoder_def
        loqui_get_header_size_def Let_def)
  then show ?thesis
    using decoding_step_progress [of big_allocator idle_decoder 1 "[4]" LOQUI_DECODE_NEEDS_MORE ?pk 1]
    by (auto simp: idle_decoder_def)
qed

end
