(* ===== verification/Loqui_Sending.thy ===== *)
theory Loqui_Sending
  imports Loqui_Receive
begin

text \<open>
  What the sending half of \<open>LoquiStreamHandler\<close> does: every \<open>send_\<close> method appends
  exactly the bytes of its frame to the unsent bytes or reports why not, the write buffer is a
  byte queue whatever the sizes it is read in, and sequence numbers do not repeat within a period.
\<close>

section \<open>Invariant and abstraction\<close>

text \<open>What is queued and not yet consumed, and when the write side's fields agree.\<close>

definition unsent :: "LoquiStreamHandler \<Rightarrow> byte list" where
  "unsent h = drop (unat (write_buffer_position h)) (buf_bytes (write_buffer h))"

definition write_ok :: "LoquiStreamHandler \<Rightarrow> bool" where
  "write_ok h \<longleftrightarrow> buffer_ok (write_buffer h) \<and> write_buffer_position h \<le> buf_length (write_buffer h)"

definition seq_ok :: "LoquiStreamHandler \<Rightarrow> bool" where
  "seq_ok h \<longleftrightarrow> sh_seq h < SEQ_MAX"

lemma write_ok_pos: "write_ok h \<Longrightarrow> unat (write_buffer_position h) \<le> length (buf_bytes (write_buffer h))"
  by (simp add: write_ok_def buffer_ok_bytes word_le_nat_alt)

lemma length_unsent:
  "write_ok h \<Longrightarrow> length (unsent h) = unat (write_buffer_len h)"
  by (simp add: unsent_def write_buffer_len_def write_ok_def buffer_ok_bytes unat_diff_le)

lemma reset_buffer_ok:
  "buffer_ok b \<Longrightarrow> buffer_ok (reset_buffer alloc b)"
  by (auto simp: reset_buffer_def buffer_ok_def max_object_def INITIAL_BUFFER_SIZE_def)

lemma free_big_buffer_ok: "buffer_ok b \<Longrightarrow> buffer_ok (free_big_buffer b)"
  by (auto simp: free_big_buffer_def buffer_ok_def max_object_def)

lemma zero_buffer_ok: "buffer_ok zero_buffer"
  by (simp add: zero_buffer_def buffer_ok_def max_object_def)

lemma fresh_buffer_empty:
  "buf_length (reset_buffer alloc (free_big_buffer b)) = 0"
  by (simp add: reset_buffer_def free_big_buffer_def)

lemma buf_bytes_length_zero [simp]: "buf_length b = 0 \<Longrightarrow> buf_bytes b = []"
  by (simp add: buf_bytes_def)

lemma unsent_decode_buffer [simp]: "unsent (h\<lparr>decode_buffer := pk\<rparr>) = unsent h"
  by (simp add: unsent_def)

lemma write_ok_decode_buffer [simp]: "write_ok (h\<lparr>decode_buffer := pk\<rparr>) = write_ok h"
  by (simp add: write_ok_def)

lemma unsent_seq [simp]: "unsent (h\<lparr>sh_seq := s\<rparr>) = unsent h"
  by (simp add: unsent_def)

lemma write_ok_seq [simp]: "write_ok (h\<lparr>sh_seq := s\<rparr>) = write_ok h"
  by (simp add: write_ok_def)

section \<open>Sending one frame\<close>

text \<open>
  The outcome of a \<open>send_\<close> method, as the state it started from (after the sequence
  number was taken), the frame and the value to return: nothing but the write buffer changes; the
  frame is queued whole and the value returned, or \<open>MemoryError\<close> is raised, with nothing
  queued or (the payload's allocation refused) with the header alone queued.
\<close>

definition send_outcome ::
    "allocator \<Rightarrow> LoquiStreamHandler \<Rightarrow> frame \<Rightarrow> u32 \<Rightarrow> (LoquiStreamHandler \<times> u32 py) option \<Rightarrow> bool" where
  "send_outcome alloc h f v r \<longleftrightarrow>
     (\<exists>b. let h' = h\<lparr>write_buffer := b\<rparr> in write_ok h' \<and>
        (r = Some (h', Inr v) \<and> unsent h' = unsent h @ wire f \<or>
         r = Some (h', Inl MemoryError) \<and>
           refuses alloc (length (buf_bytes (write_buffer h)) + length (wire f)) \<and>
           (unsent h' = unsent h \<or>
            frame_payload f \<noteq> [] \<and> unsent h' = unsent h @ frame_opcode f # frame_header f)))"

lemma append_keeps_queue:
  assumes "write_ok h" and "buffer_ok b" and "buf_bytes b = buf_bytes (write_buffer h) @ xs"
  shows "write_ok (h\<lparr>write_buffer := b\<rparr>)" and "unsent (h\<lparr>write_buffer := b\<rparr>) = unsent h @ xs"
proof -
  have "length (buf_bytes b) = unat (buf_length b)"
    using assms(2) by (rule buffer_ok_bytes)
  then have "unat (write_buffer_position h) \<le> unat (buf_length b)"
    using assms write_ok_pos [of h] by simp
  then show "write_ok (h\<lparr>write_buffer := b\<rparr>)"
    using assms by (simp add: write_ok_def word_le_nat_alt)
  show "unsent (h\<lparr>write_buffer := b\<rparr>) = unsent h @ xs"
    using assms write_ok_pos [of h] by (simp add: unsent_def)
qed

lemma finish_send_outcome:
  assumes ok: "write_ok h" and out: "frame_outcome alloc (write_buffer h) f r"
  shows "send_outcome alloc h f v (finish_send h r v)"
proof -
  have keep: "h\<lparr>write_buffer := write_buffer h\<rparr> = h" by simp
  show ?thesis
    using out [unfolded frame_outcome_def]
  proof (cases rule: append_outcome_cases)
    case (sent b')
    then show ?thesis
      using append_keeps_queue [OF ok sent(2,3)]
      by (auto simp: send_outcome_def finish_send_def Let_def wire_def)
  next
    case unchanged
    then show ?thesis
      using ok keep by (auto simp: send_outcome_def finish_send_def Let_def wire_def ac_simps
          intro!: exI [of _ "write_buffer h"])
  next
    case (torn b')
    then show ?thesis
      using append_keeps_queue [OF ok torn(2,4)]
      by (auto simp: send_outcome_def finish_send_def Let_def wire_def ac_simps)
  qed
qed

text \<open>
  A payload's length is truncated to 32 bits on the way to the append function; what is sent is
  the truncated payload. Below 4 GiB that is all of it.
\<close>

definition sent_payload :: "byte list \<Rightarrow> byte list" where
  "sent_payload data = take (length data mod 2 ^ 32) data"

lemma sent_payload_small: "length data < 2 ^ 32 \<Longrightarrow> sent_payload data = data"
  by (simp add: sent_payload_def)

lemma truncated_length:
  "unat (ucast (of_nat n :: size_t) :: u32) = n mod 2 ^ 32"
  by (simp add: unsigned_ucast_eq unsigned_of_nat take_bit_eq_mod mod_mod_cancel)

lemma truncated_length_le: "unat (ucast (of_nat (length data) :: size_t) :: u32) \<le> length data"
  by (simp add: truncated_length)

lemma truncated_take:
  "take (unat (ucast (of_nat (length data) :: size_t) :: u32)) data = sent_payload data"
  by (simp add: truncated_length sent_payload_def)

section \<open>The \<open>send_\<close> methods\<close>

lemmas send_defs = send_ping_def send_pong_def send_request_def send_push_def send_hello_def
  send_response_def send_error_def send_goaway_def PyBytes_AsStringAndSize_def

lemma next_seq_keeps:
  "write_ok (fst (next_seq h)) = write_ok h" "unsent (fst (next_seq h)) = unsent h"
  "decode_buffer (fst (next_seq h)) = decode_buffer h" "write_buffer (fst (next_seq h)) = write_buffer h"
  by (simp_all add: next_seq_def Let_def)

lemma wb_ok: "write_ok h \<Longrightarrow> buffer_ok (write_buffer h)"
  by (simp add: write_ok_def)

lemma send_pong_outcome:
  assumes ok: "write_ok h" and sane: "alloc_sane alloc"
  shows "send_outcome alloc h (FPong fl seq) 1 (send_pong alloc h fl seq)"
  unfolding send_pong_def
  by (rule finish_send_outcome [OF ok append_pong_outcome [OF wb_ok [OF ok] sane]])

lemma send_push_outcome:
  assumes ok: "write_ok h" and sane: "alloc_sane alloc"
  shows "send_outcome alloc h (FPush fl (sent_payload data)) 1 (send_push alloc h fl (Some data))"
  using finish_send_outcome [OF ok append_push_outcome [OF wb_ok [OF ok] sane truncated_length_le]]
  by (simp add: send_defs truncated_take)

lemma send_response_outcome:
  assumes ok: "write_ok h" and sane: "alloc_sane alloc"
  shows "send_outcome alloc h (FResponse fl seq (sent_payload data)) 1 (send_response alloc h fl seq (Some data))"
  using finish_send_outcome [OF ok append_response_outcome [OF wb_ok [OF ok] sane truncated_length_le]]
  by (simp add: send_defs truncated_take)

lemma send_hello_outcome:
  assumes ok: "write_ok h" and sane: "alloc_sane alloc"
  shows "send_outcome alloc h
     (FHello fl LOQUI_VERSION (sent_payload (bytes_join COMMA encs @ PIPE # bytes_join COMMA cmps))) 1
     (send_hello alloc h fl encs cmps)"
  using finish_send_outcome [OF ok append_hello_outcome [OF wb_ok [OF ok] sane truncated_length_le]]
  by (simp only: send_defs truncated_take Let_def option.case sum.case prod.case)

lemma send_hello_ack_outcome:
  assumes ok: "write_ok h" and sane: "alloc_sane alloc"
  shows "send_outcome alloc h
     (FHelloAck fl pint (sent_payload (enc @ PIPE # (case cmp of None \<Rightarrow> [] | Some c \<Rightarrow> c)))) 1
     (send_hello_ack False alloc h fl pint enc cmp)"
  using finish_send_outcome [OF ok append_hello_ack_outcome [OF wb_ok [OF ok] sane truncated_length_le]]
  by (simp only: send_hello_ack_python2 send_defs truncated_take Let_def option.case sum.case prod.case)

lemma send_error_outcome:
  assumes ok: "write_ok h" and sane: "alloc_sane alloc"
  shows "send_outcome alloc h (FError fl seq code (sent_payload (case data of None \<Rightarrow> [] | Some d \<Rightarrow> d))) 1
     (send_error alloc h fl code seq data)"
  using finish_send_outcome [OF ok append_error_outcome [OF wb_ok [OF ok] sane truncated_length_le]]
    finish_send_outcome [OF ok append_error_outcome [OF wb_ok [OF ok] sane, of 0 "[]"]]
  by (auto simp add: send_defs truncated_take Let_def sent_payload_def split: option.split)

lemma send_goaway_outcome:
  assumes ok: "write_ok h" and sane: "alloc_sane alloc"
  shows "send_outcome alloc h (FGoAway fl code (sent_payload (case data of None \<Rightarrow> [] | Some d \<Rightarrow> d))) 1
     (send_goaway alloc h fl code data)"
  using finish_send_outcome [OF ok append_goaway_outcome [OF wb_ok [OF ok] sane truncated_length_le]]
    finish_send_outcome [OF ok append_goaway_outcome [OF wb_ok [OF ok] sane, of 0 "[]"]]
  by (auto simp add: send_defs truncated_take Let_def sent_payload_def split: option.split)

lemma send_ping_outcome:
  assumes ok: "write_ok h" and sane: "alloc_sane alloc"
  shows "send_outcome alloc (fst (next_seq h)) (FPing fl (snd (next_seq h))) (snd (next_seq h)) (send_ping alloc h fl)"
  using finish_send_outcome [of "fst (next_seq h)", OF _ append_ping_outcome] ok wb_ok [OF ok] sane
  by (simp add: send_ping_def next_seq_keeps case_prod_beta)

lemma send_request_outcome:
  assumes ok: "write_ok h" and sane: "alloc_sane alloc"
  shows "send_outcome alloc (fst (next_seq h)) (FRequest fl (snd (next_seq h)) (sent_payload data))
     (snd (next_seq h)) (send_request alloc h fl (Some data))"
  using finish_send_outcome [of "fst (next_seq h)",
      OF _ append_request_outcome [OF _ _ truncated_length_le]] ok wb_ok [OF ok] sane
  by (simp add: send_request_def next_seq_keeps case_prod_beta PyBytes_AsStringAndSize_def truncated_take)

section \<open>The methods as commands\<close>

text \<open>
  A call of a \<open>send_\<close> method as a value, the frame it stands for and the state it starts
  from: requests and pings take the next sequence number first.
\<close>

datatype command =
    CmdPing byte
  | CmdPong byte u32
  | CmdRequest byte "byte list"
  | CmdPush byte "byte list"
  | CmdHello byte "byte list list" "byte list list"
  | CmdHelloAck byte u32 "byte list" pybytes
  | CmdResponse byte u32 "byte list"
  | CmdError byte u16 u32 pybytes
  | CmdGoAway byte u16 pybytes

fun perform :: "allocator \<Rightarrow> LoquiStreamHandler \<Rightarrow> command \<Rightarrow> (LoquiStreamHandler \<times> u32 py) option" where
  "perform alloc h (CmdPing fl) = send_ping alloc h fl"
| "perform alloc h (CmdPong fl seq) = send_pong alloc h fl seq"
| "perform alloc h (CmdRequest fl d) = send_request alloc h fl (Some d)"
| "perform alloc h (CmdPush fl d) = send_push alloc h fl (Some d)"
| "perform alloc h (CmdHello fl encs cmps) = send_hello alloc h fl encs cmps"
| "perform alloc h (CmdHelloAck fl pint enc cmp) = send_hello_ack False alloc h fl pint enc cmp"
| "perform alloc h (CmdResponse fl seq d) = send_response alloc h fl seq (Some d)"
| "perform alloc h (CmdError fl code seq d) = send_error alloc h fl code seq d"
| "perform alloc h (CmdGoAway fl code d) = send_goaway alloc h fl code d"

definition opt_bytes :: "pybytes \<Rightarrow> byte list" where
  "opt_bytes d = (case d of None \<Rightarrow> [] | Some b \<Rightarrow> b)"

fun command_payload :: "command \<Rightarrow> byte list" where
  "command_payload (CmdPing fl) = []"
| "command_payload (CmdPong fl seq) = []"
| "command_payload (CmdRequest fl d) = d"
| "command_payload (CmdPush fl d) = d"
| "command_payload (CmdHello fl encs cmps) = bytes_join COMMA encs @ PIPE # bytes_join COMMA cmps"
| "command_payload (CmdHelloAck fl pint enc cmp) = enc @ PIPE # opt_bytes cmp"
| "command_payload (CmdResponse fl seq d) = d"
| "command_payload (CmdError fl code seq d) = opt_bytes d"
| "command_payload (CmdGoAway fl code d) = opt_bytes d"

fun takes_seq :: "command \<Rightarrow> bool" where
  "takes_seq (CmdPing fl) = True"
| "takes_seq (CmdRequest fl d) = True"
| "takes_seq _ = False"

text \<open>The frame, given the sequence number a ping or a request takes.\<close>

definition command_frame :: "u32 \<Rightarrow> command \<Rightarrow> frame" where
  "command_frame s c =
     (let p = sent_payload (command_payload c) in
      case c of
        CmdPing fl \<Rightarrow> FPing fl s
      | CmdPong fl seq \<Rightarrow> FPong fl seq
      | CmdRequest fl _ \<Rightarrow> FRequest fl s p
      | CmdPush fl _ \<Rightarrow> FPush fl p
      | CmdHello fl _ _ \<Rightarrow> FHello fl LOQUI_VERSION p
      | CmdHelloAck fl pint _ _ \<Rightarrow> FHelloAck fl pint p
      | CmdResponse fl seq _ \<Rightarrow> FResponse fl seq p
      | CmdError fl code seq _ \<Rightarrow> FError fl seq code p
      | CmdGoAway fl code _ \<Rightarrow> FGoAway fl code p)"

definition start_state :: "LoquiStreamHandler \<Rightarrow> command \<Rightarrow> LoquiStreamHandler" where
  "start_state h c = (if takes_seq c then fst (next_seq h) else h)"

definition command_value :: "LoquiStreamHandler \<Rightarrow> command \<Rightarrow> u32" where
  "command_value h c = (if takes_seq c then snd (next_seq h) else 1)"

lemma perform_outcome:
  assumes "write_ok h" and "alloc_sane alloc"
  shows "send_outcome alloc (start_state h c) (command_frame (snd (next_seq h)) c) (command_value h c)
    (perform alloc h c)"
  using send_ping_outcome [OF assms] send_pong_outcome [OF assms] send_request_outcome [OF assms]
    send_push_outcome [OF assms] send_hello_outcome [OF assms] send_hello_ack_outcome [OF assms]
    send_response_outcome [OF assms] send_error_outcome [OF assms] send_goaway_outcome [OF assms]
  by (cases c) (simp_all add: start_state_def command_value_def command_frame_def opt_bytes_def)

lemma start_state_simps [simp]:
  "write_ok (start_state h c) = write_ok h" "unsent (start_state h c) = unsent h"
  "decode_buffer (start_state h c) = decode_buffer h" "write_buffer (start_state h c) = write_buffer h"
  by (simp_all add: start_state_def next_seq_keeps)

text \<open>The three outcomes of a command, as a rule for the proofs that follow a sender.\<close>

lemma perform_cases:
  assumes "write_ok h" and "alloc_sane alloc"
  obtains (queued) h' where "perform alloc h c = Some (h', Inr (command_value h c))"
      and "write_ok h'" and "unsent h' = unsent h @ wire (command_frame (snd (next_seq h)) c)"
      and "decode_buffer h' = decode_buffer h" and "sh_seq h' = sh_seq (start_state h c)"
  | (unchanged) h' where "perform alloc h c = Some (h', Inl MemoryError)"
      and "write_ok h'" and "unsent h' = unsent h"
      and "decode_buffer h' = decode_buffer h" and "sh_seq h' = sh_seq (start_state h c)"
      and "refuses alloc (length (buf_bytes (write_buffer h)) + length (wire (command_frame (snd (next_seq h)) c)))"
  | (torn) h' where "perform alloc h c = Some (h', Inl MemoryError)" and "write_ok h'"
      and "frame_payload (command_frame (snd (next_seq h)) c) \<noteq> []"
      and "unsent h' = unsent h @ frame_opcode (command_frame (snd (next_seq h)) c) #
        frame_header (command_frame (snd (next_seq h)) c)"
      and "decode_buffer h' = decode_buffer h" and "sh_seq h' = sh_seq (start_state h c)"
      and "refuses alloc (length (buf_bytes (write_buffer h)) + length (wire (command_frame (snd (next_seq h)) c)))"
proof -
  obtain b where b: "write_ok (start_state h c\<lparr>write_buffer := b\<rparr>)"
    and cases: "let h1 = start_state h c\<lparr>write_buffer := b\<rparr> in
      perform alloc h c = Some (h1, Inr (command_value h c)) \<and>
        unsent h1 = unsent h @ wire (command_frame (snd (next_seq h)) c) \<or>
      perform alloc h c = Some (h1, Inl MemoryError) \<and>
        refuses alloc (length (buf_bytes (write_buffer h)) + length (wire (command_frame (snd (next_seq h)) c))) \<and> (unsent h1 = unsent h \<or>
        frame_payload (command_frame (snd (next_seq h)) c) \<noteq> [] \<and>
        unsent h1 = unsent h @ frame_opcode (command_frame (snd (next_seq h)) c) #
          frame_header (command_frame (snd (next_seq h)) c))"
    using perform_outcome [OF assms, of c] unfolding send_outcome_def Let_def start_state_simps
    by blast
  then show ?thesis
    using queued unchanged torn by (fastforce simp: Let_def)
qed

section \<open>Sequence numbers\<close>

definition seq_period :: nat where
  "seq_period = 2 ^ 32 - 2"

lemma seq_max_unat: "unat SEQ_MAX = seq_period"
  by (simp add: SEQ_MAX_def seq_period_def)

lemma next_seq_value:
  assumes "seq_ok h"
  shows "unat (snd (next_seq h)) = (unat (sh_seq h) + 1) mod seq_period"
    and "sh_seq (fst (next_seq h)) = snd (next_seq h)" and "seq_ok (fst (next_seq h))"
proof -
  have lt: "unat (sh_seq h) < seq_period"
    using assms by (simp add: seq_ok_def word_less_nat_alt seq_max_unat)
  then have plus: "unat (sh_seq h + 1) = unat (sh_seq h) + 1"
    by (simp add: unat_word_ariths seq_period_def)
  have "sh_seq h + 1 \<ge> SEQ_MAX \<longleftrightarrow> unat (sh_seq h) + 1 = seq_period"
    using lt by (auto simp: word_le_nat_alt seq_max_unat plus)
  then show "unat (snd (next_seq h)) = (unat (sh_seq h) + 1) mod seq_period"
    and "sh_seq (fst (next_seq h)) = snd (next_seq h)" and "seq_ok (fst (next_seq h))"
    using lt by (auto simp: next_seq_def Let_def plus seq_ok_def SEQ_MAX_def not_le)
qed

text \<open>The numbers that \<open>k\<close> successive calls issue.\<close>

fun issued :: "LoquiStreamHandler \<Rightarrow> nat \<Rightarrow> u32 list" where
  "issued h 0 = []"
| "issued h (Suc k) = snd (next_seq h) # issued (fst (next_seq h)) k"

lemma length_issued [simp]: "length (issued h k) = k"
  by (induction k arbitrary: h) simp_all

lemma issued_nth:
  "seq_ok h \<Longrightarrow> i < k \<Longrightarrow> unat (issued h k ! i) = (unat (sh_seq h) + i + 1) mod seq_period"
proof (induction k arbitrary: h i)
  case (Suc k)
  then show ?case
    using next_seq_value [OF Suc.prems(1)]
      mod_add_right_eq [of "Suc j" "Suc (unat (sh_seq h))" seq_period for j]
    by (cases i) (simp_all add: ac_simps)
qed simp

lemma mod_window:
  fixes a i j m :: nat
  assumes "(a + i) mod m = (a + j) mod m" and "i < m" and "j < m"
  shows "i = j"
proof -
  have "i \<le> j" if eq: "(a + i) mod m = (a + j) mod m" and lt: "i < m" for i j
  proof (rule ccontr)
    assume "\<not> i \<le> j"
    then have "j < i" by simp
    then have "m dvd i - j"
      using eq mod_eq_dvd_iff_nat [of "a + j" "a + i" m] by simp
    then have "m \<le> i - j"
      using \<open>j < i\<close> by (intro dvd_imp_le) simp_all
    then show False using lt \<open>j < i\<close> by linarith
  qed
  from this [of i j] this [of j i] show ?thesis using assms by simp
qed

lemma issued_distinct:
  assumes "seq_ok h" and "k \<le> seq_period"
  shows "distinct (issued h k)"
  unfolding distinct_conv_nth
proof (intro allI impI)
  fix i j
  assume "i < length (issued h k)" "j < length (issued h k)" "i \<noteq> j"
  then show "issued h k ! i \<noteq> issued h k ! j"
    using issued_nth [OF assms(1), of i k] issued_nth [OF assms(1), of j k] assms(2)
      mod_window [of "Suc (unat (sh_seq h))" i seq_period j]
    by (auto simp: ac_simps)
qed

section \<open>Properties\<close>


definition empty_handler :: "nat \<Rightarrow> u32 \<Rightarrow> LoquiStreamHandler" where
  "empty_handler room seq = \<lparr>sh_seq = seq, decode_buffer = \<lparr>loqui_buffer = zero_buffer, opcode = 0,
       data_size_remaining = 0, header_size = 0, decode_complete = 0\<rparr>,
     write_buffer = \<lparr>buf = Some [], buf_length = 0, allocated_size = of_nat room\<rparr>,
     write_buffer_position = 0\<rparr>"

lemma empty_handler_ok [simp]:
  "room < 2 ^ 62 \<Longrightarrow> write_ok (empty_handler room s)" "unsent (empty_handler room s) = []"
  "sh_seq (empty_handler room s) = s" "buf_bytes (write_buffer (empty_handler room s)) = []"
  by (simp_all add: empty_handler_def write_ok_def unsent_def buffer_ok_def buf_bytes_def max_object_def
      unat_of_nat_size)


text \<open>
  Sequence numbers count up from the current one and wrap to 0 instead of reaching
  \<open>SEQ_MAX\<close> = 2^32 - 2: the number that the \<open>i\<close>-th of the next calls of \<open>next_seq\<close> issues
  (from 0) is the current one plus \<open>i + 1\<close>, modulo 2^32 - 2.
\<close>

theorem sequence_numbers_cycle:
  assumes "seq_ok h" and "i < k"
  shows "unat (issued h k ! i) = (unat (sh_seq h) + i + 1) mod (2 ^ 32 - 2)"
  using issued_nth [OF assms] by (simp add: seq_period_def)

lemma sequence_numbers_cycle_witness:
  "unat (issued (empty_handler 0 0xFFFFFFFC) 3 ! 1) = 0"
  using sequence_numbers_cycle [of "empty_handler 0 0xFFFFFFFC" 1 3] by (simp add: seq_ok_def SEQ_MAX_def)

text \<open>
  No sequence number is issued twice within a period: as many as 2^32 - 2 successive
  numbers are distinct, so a request in flight is not confused with one sent up to a period later.
\<close>

theorem sequence_numbers_distinct:
  assumes "seq_ok h" and "k \<le> 2 ^ 32 - 2"
  shows "distinct (issued h k)"
  using assms by (intro issued_distinct) (simp_all add: seq_period_def)

lemma sequence_numbers_distinct_witness: "distinct (issued (empty_handler 0 0xFFFFFFFC) 3)"
  by (rule sequence_numbers_distinct) (simp_all add: seq_ok_def SEQ_MAX_def)

text \<open>
  The wrap is not safe at the Python boundary. \<open>send_ping\<close> and \<open>send_request\<close>
  are declared \<open>except 0\<close>, so when the sequence number wraps to 0 their return value is taken for an
  exception that was never set, and the caller gets a \<open>SystemError\<close> although the frame with
  sequence number 0 has been queued.
\<close>

theorem wrapped_sequence_number_raises:
  assumes "write_ok h" and "ample alloc" and "sh_seq h = 0xFFFFFFFD"
    and "length (buf_bytes (write_buffer h)) + length data < 2 ^ 31"
  shows "(\<exists>h'. py_send_ping alloc h fl = Some (h', Inl SystemError) \<and> unsent h' = unsent h @ wire (FPing fl 0)) \<and>
    (\<exists>h'. py_send_request alloc h fl (Some data) = Some (h', Inl SystemError) \<and>
       unsent h' = unsent h @ wire (FRequest fl 0 data))"
proof -
  have s: "snd (next_seq h) = 0" using assms(3) by (simp add: next_seq_def SEQ_MAX_def)
  have d: "sent_payload data = data" using assms(4) by (intro sent_payload_small) simp
  have no: "\<not> refuses alloc (length (buf_bytes (write_buffer h)) + length (wire (FPing fl 0)))"
    "\<not> refuses alloc (length (buf_bytes (write_buffer h)) + length (wire (FRequest fl 0 data)))"
    using ample_refuses [OF assms(2)] assms(4) by (fastforce simp: wire_def size_field_def max_object_def)+
  show ?thesis
    using send_ping_outcome [OF assms(1) ample_sane [OF assms(2)], of fl]
      send_request_outcome [OF assms(1) ample_sane [OF assms(2)], of fl data] no
    by (auto simp: s d send_outcome_def Let_def next_seq_keeps py_send_ping_def py_send_request_def except0_def)
qed

lemma wrapped_sequence_number_raises_witness:
  "\<exists>h'. py_send_ping big_allocator (empty_handler 0 0xFFFFFFFD) 0 = Some (h', Inl SystemError) \<and>
    unsent h' = wire (FPing 0 0)"
  using wrapped_sequence_number_raises [of "empty_handler 0 0xFFFFFFFD" big_allocator "[]" 0] ample_exists
  by simp

text \<open>
  A payload of 4 GiB or more is truncated silently. The payload's length is cast to 32
  bits on the way to the encoder, so \<open>send_push\<close> of \<open>2^32 + k\<close> bytes returns normally and
  queues a frame with the first \<open>k\<close> of them.
\<close>

theorem huge_payload_truncated:
  assumes "write_ok h" and "ample alloc" and "length (buf_bytes (write_buffer h)) < 2 ^ 31"
    and "length data = 2 ^ 32 + k" and "k < 2 ^ 31"
  shows "\<exists>h'. send_push alloc h fl (Some data) = Some (h', Inr 1) \<and>
    unsent h' = unsent h @ wire (FPush fl (take k data))"
proof -
  have d: "sent_payload data = take k data" using assms(4,5) by (simp add: sent_payload_def)
  have "\<not> refuses alloc (length (buf_bytes (write_buffer h)) + length (wire (FPush fl (take k data))))"
    using ample_refuses [OF assms(2)] assms(3-) by (fastforce simp: wire_def size_field_def max_object_def)
  then show ?thesis
    using send_push_outcome [OF assms(1) ample_sane [OF assms(2)], of fl data]
    by (auto simp: d send_outcome_def Let_def)
qed

lemma huge_payload_truncated_witness:
  "\<exists>h'. send_push big_allocator (empty_handler 0 0) 0 (Some (replicate (2 ^ 32 + 1) 5)) = Some (h', Inr 1) \<and>
    unsent h' = wire (FPush 0 [5])"
  using huge_payload_truncated [of "empty_handler 0 0" big_allocator "replicate (2 ^ 32 + 1) 5" 1 0] ample_exists
  by (simp add: take_replicate)

end
