(* ===== verification/Loqui_Queue.thy ===== *)
theory Loqui_Queue
  imports Loqui_Sending
begin

text \<open>
  The write buffer as a queue of bytes. The socket session reads it in pieces whose sizes the
  socket decides: it looks at the front (\<open>write_buffer_get_bytes\<close>), writes what the socket takes
  and drops as much (\<open>write_buffer_consume_bytes\<close>). The interface it relies on is the
  locale \<open>byte_queue\<close>; its lemmas are proved once from the interface and hold for the handler by
  the interpretation at the end.
\<close>

section \<open>Compaction\<close>

text \<open>
  Compaction moves the unsent bytes to the front with one \<open>memcpy\<close>. The regions cannot
  overlap: the code compacts only when the position is past the middle of the allocation.
\<close>

lemma compact_disjoint:
  assumes "buffer_ok b" and "pos \<le> buf_length b" and "allocated_size b div 2 < pos"
  shows "unat (buf_length b - pos) \<le> unat pos"
proof -
  have "unat (allocated_size b) div 2 < unat pos"
    using assms(3) by (simp add: word_less_nat_alt unat_div)
  moreover have "unat (buf_length b) \<le> unat (allocated_size b)"
    using buffer_ok_full [OF assms(1)] by (simp add: word_le_nat_alt)
  moreover have "unat (buf_length b - pos) = unat (buf_length b) - unat pos"
    using assms(2) by (rule unat_diff_le)
  ultimately show ?thesis by linarith
qed

lemma c_memcpy_within_front:
  assumes "s + n \<le> length m" and "n \<le> s" and "unat src = s" and "unat l = n" and "0 < n"
  shows "c_memcpy_within (Some m) 0 src l = Some (Some (take n (drop s m) @ drop n m))"
  using assms by (auto simp: c_memcpy_within_def Let_def)

lemma reset_or_compact_cases:
  assumes ok: "write_ok h"
  obtains h' where "reset_or_compact_write_buf alloc h = Some h'" and "write_ok h'"
    and "unsent h' = unsent h" and "sh_seq h' = sh_seq h" and "decode_buffer h' = decode_buffer h"
    and "write_buffer_position h' \<le> allocated_size (write_buffer h') div 2"
    and "unsent h = [] \<Longrightarrow> buf_bytes (write_buffer h') = []"
proof -
  let ?b = "write_buffer h" and ?pos = "write_buffer_position h"
  have some: "unsent h \<noteq> []" if "?pos < buf_length ?b"
    using that length_unsent [OF ok] by (auto simp: write_buffer_len_def unat_eq_0)
  have b: "buffer_ok ?b" and le: "?pos \<le> buf_length ?b"
    using ok by (simp_all add: write_ok_def)
  consider (all) "?pos = buf_length ?b"
    | (move) "?pos < buf_length ?b" "allocated_size ?b div 2 < ?pos"
    | (keep) "?pos < buf_length ?b" "?pos \<le> allocated_size ?b div 2"
    using le by (metis le_less not_le)
  then show ?thesis
  proof cases
    case all
    have "buffer_ok (reset_buffer alloc (free_big_buffer ?b))"
      by (rule reset_buffer_ok [OF free_big_buffer_ok [OF b]])
    with all show ?thesis
      using that [of "h\<lparr>write_buffer := reset_buffer alloc (free_big_buffer ?b), write_buffer_position := 0\<rparr>"]
      by (simp add: reset_or_compact_write_buf_def Let_def write_ok_def unsent_def fresh_buffer_empty
          buffer_ok_bytes [OF b])
  next
    case move
    let ?n = "buf_length ?b - ?pos"
    have n: "unat ?n = unat (buf_length ?b) - unat ?pos" "unat ?n \<le> unat ?pos" "0 < unat ?n"
      using unat_diff_le [OF le] compact_disjoint [OF b le move(2)] move(1)
      by (simp_all add: word_less_nat_alt)
    then obtain m where m: "buf ?b = Some m" "unat (buf_length ?b) \<le> length m"
      "length m \<le> unat (allocated_size ?b)"
      using b by (cases "buf ?b") (auto simp: buffer_ok_def)
    let ?p = "take (unat ?n) (drop (unat ?pos) m) @ drop (unat ?n) m"
    have fits: "unat ?pos + unat ?n \<le> length m" using n(1) m(2) le by (simp add: word_le_nat_alt)
    let ?h = "h\<lparr>write_buffer := ?b\<lparr>buf := Some ?p, buf_length := ?n\<rparr>, write_buffer_position := 0\<rparr>"
    have "reset_or_compact_write_buf alloc h = Some ?h"
      using move m(1) c_memcpy_within_front [OF fits n(2) refl refl n(3)]
      by (auto simp: reset_or_compact_write_buf_def Let_def)
    moreover have "write_ok ?h"
      using b m n fits by (simp add: write_ok_def buffer_ok_def)
    moreover have "unsent ?h = unsent h"
      using m n fits le by (simp add: unsent_def buf_bytes_def drop_take word_le_nat_alt)
    ultimately show ?thesis using that some [OF move(1)] by simp
  next
    case keep
    then show ?thesis
      using that [of h] ok some by (simp add: reset_or_compact_write_buf_def Let_def leD)
  qed
qed

section \<open>Reading the front\<close>

lemma advance_position:
  assumes ok: "write_ok h" and le: "n \<le> write_buffer_len h"
  shows "write_ok (h\<lparr>write_buffer_position := write_buffer_position h + n\<rparr>)"
    and "unsent (h\<lparr>write_buffer_position := write_buffer_position h + n\<rparr>) = drop (unat n) (unsent h)"
proof -
  have "write_buffer_position h \<le> buf_length (write_buffer h)"
    using ok by (simp add: write_ok_def)
  from word_le_plus_diff [OF this le [unfolded write_buffer_len_def]]
  have a: "write_buffer_position h + n \<le> buf_length (write_buffer h)"
    and b: "write_buffer_position h \<le> write_buffer_position h + n" by simp_all
  from a ok show "write_ok (h\<lparr>write_buffer_position := write_buffer_position h + n\<rparr>)"
    by (simp add: write_ok_def)
  have "unat (write_buffer_position h + n) = unat (write_buffer_position h) + unat n"
    using b unat_plus_simple by blast
  then show "unsent (h\<lparr>write_buffer_position := write_buffer_position h + n\<rparr>) = drop (unat n) (unsent h)"
    by (simp add: unsent_def add.commute)
qed

lemma clamp_length:
  fixes n r :: size_t
  shows "(if n > r then r else n) \<le> r" and "unat (if n > r then r else n) = min (unat n) (unat r)"
  by (auto simp: not_less word_le_nat_alt word_less_nat_alt)

text \<open>Both operations drop the front; \<open>get_bytes\<close> returns it, \<open>None\<close> when it is empty.\<close>

lemma consume_bytes_drops:
  assumes ok: "write_ok h"
  obtains h' where "write_buffer_consume_bytes alloc h n = Some (h', write_buffer_len h')"
    and "write_ok h'" and "unsent h' = drop (unat n) (unsent h)"
    and "sh_seq h' = sh_seq h" and "decode_buffer h' = decode_buffer h"
    and "write_buffer_position h' \<le> allocated_size (write_buffer h') div 2"
    and "unsent h' = [] \<Longrightarrow> buf_bytes (write_buffer h') = []"
proof -
  define k where "k = (if n > write_buffer_len h then write_buffer_len h else n)"
  have k: "k \<le> write_buffer_len h" "unat k = min (unat n) (length (unsent h))"
    using clamp_length [where r = "write_buffer_len h" and n = n] length_unsent [OF ok] by (simp_all add: k_def)
  obtain h' where h': "reset_or_compact_write_buf alloc
        (h\<lparr>write_buffer_position := write_buffer_position h + k\<rparr>) = Some h'" "write_ok h'"
      "unsent h' = drop (unat k) (unsent h)" "sh_seq h' = sh_seq h" "decode_buffer h' = decode_buffer h"
      "write_buffer_position h' \<le> allocated_size (write_buffer h') div 2"
      "unsent h' = [] \<Longrightarrow> buf_bytes (write_buffer h') = []"
    by (rule reset_or_compact_cases [OF advance_position(1) [OF ok k(1)], of alloc])
      (use that advance_position(2) [OF ok k(1)] in simp)
  have dr: "drop (unat k) (unsent h) = drop (unat n) (unsent h)"
    using k(2) by (simp add: min_def)
  have "unat (write_buffer_len h') = unat (write_buffer_len h - k)"
    using length_unsent [OF h'(2)] h'(3) length_unsent [OF ok] unat_diff_le [OF k(1)] by simp
  then have "write_buffer_len h' = write_buffer_len h - k" by (simp only: word_unat_eq_iff)
  then show ?thesis
    using that [of h'] h' dr by (simp add: write_buffer_consume_bytes_def k_def [symmetric] Let_def)
qed

lemma get_bytes_front:
  assumes ok: "write_ok h"
  obtains h' where "write_buffer_get_bytes alloc h n c =
      Some (h', (let bs = take (unat n) (unsent h) in if bs = [] then None else Some bs))"
    and "write_ok h'" and "unsent h' = (if c then drop (unat n) (unsent h) else unsent h)"
    and "sh_seq h' = sh_seq h" and "decode_buffer h' = decode_buffer h" and "\<not> c \<Longrightarrow> h' = h"
proof -
  define k where "k = (if n > write_buffer_len h then write_buffer_len h else n)"
  have k: "k \<le> write_buffer_len h" "unat k = min (unat n) (length (unsent h))"
    using clamp_length [where r = "write_buffer_len h" and n = n] length_unsent [OF ok] by (simp_all add: k_def)
  have tk: "take (unat k) (unsent h) = take (unat n) (unsent h)"
    and dr: "drop (unat k) (unsent h) = drop (unat n) (unsent h)"
    using k(2) by (simp_all add: min_def)
  show ?thesis
  proof (cases "k = 0")
    case True
    then have "take (unat n) (unsent h) = []" "drop (unat n) (unsent h) = unsent h"
      using tk dr by simp_all
    then show ?thesis
      using that [of h] ok True by (simp add: write_buffer_get_bytes_def k_def [symmetric])
  next
    case False
    let ?m = "cells (buf (write_buffer h))" and ?pos = "write_buffer_position h"
    have ne: "take (unat n) (unsent h) \<noteq> []"
      using False tk k(2) by (metis take_eq_Nil min_0R min_def unat_eq_zero length_0_conv)
    have b: "buffer_ok (write_buffer h)" using ok by (simp add: write_ok_def)
    have len: "unat ?pos + unat k \<le> unat (buf_length (write_buffer h))"
      using k(2) write_ok_pos [OF ok] buffer_ok_bytes [OF b] by (simp add: unsent_def)
    then have fits: "unat ?pos + unat k \<le> length ?m"
      using b by (simp add: buffer_ok_def)
    have bytes: "take (unat k) (drop (unat ?pos) ?m) = take (unat n) (unsent h)"
      using len unfolding tk [symmetric] unfolding unsent_def buf_bytes_def drop_take take_take
      by (simp add: min_absorb1)
    show ?thesis
    proof (cases c)
      case False
      then show ?thesis
        using that [of h] ok \<open>k \<noteq> 0\<close> fits bytes ne
        by (simp add: write_buffer_get_bytes_def k_def [symmetric] Let_def)
    next
      case True
      show ?thesis
        by (rule reset_or_compact_cases [OF advance_position(1) [OF ok k(1)], of alloc])
          (use that True \<open>k \<noteq> 0\<close> fits bytes ne dr advance_position(2) [OF ok k(1)] in
            \<open>simp add: write_buffer_get_bytes_def k_def [symmetric] Let_def\<close>)
    qed
  qed
qed

section \<open>The queue interface\<close>

text \<open>
  A writer that repeatedly looks at up to \<open>n\<close> bytes, has the first \<open>k\<close> of them taken
  by the socket and drops those: the bytes the socket got, and the queue's state.
\<close>

fun pump ::
    "('s \<Rightarrow> size_t \<Rightarrow> byte list) \<Rightarrow> ('s \<Rightarrow> size_t \<Rightarrow> 's) \<Rightarrow> 's \<Rightarrow> (size_t \<times> size_t) list \<Rightarrow> byte list \<times> 's" where
  "pump peek discard s [] = ([], s)"
| "pump peek discard s ((n, k) # ios) =
     (let out = take (unat k) (peek s n);
          (rest, s') = pump peek discard (discard s (of_nat (length out))) ios
      in (out @ rest, s'))"

text \<open>
  \<open>held s\<close> are the bytes in the queue, oldest first. \<open>peek\<close> returns the front,
  \<open>discard\<close> drops it, and the laws say so for every size asked for.
\<close>

locale byte_queue =
  fixes wf :: "'s \<Rightarrow> bool"
    and held :: "'s \<Rightarrow> byte list"
    and peek :: "'s \<Rightarrow> size_t \<Rightarrow> byte list"
    and discard :: "'s \<Rightarrow> size_t \<Rightarrow> 's"
  assumes peek_front: "wf s \<Longrightarrow> peek s n = take (unat n) (held s)"
    and discard_front: "wf s \<Longrightarrow> held (discard s n) = drop (unat n) (held s)"
    and discard_wf: "wf s \<Longrightarrow> wf (discard s n)"
begin

lemma discard_taken:
  fixes n k :: size_t
  assumes "wf s"
  shows "held s = take (unat k) (peek s n) @ held (discard s (of_nat (length (take (unat k) (peek s n)))))"
    (is "_ = ?out @ held (discard s ?l)")
proof -
  have out: "?out = take (min (unat k) (unat n)) (held s)"
    using peek_front [OF assms] by simp
  then have "length ?out < 2 ^ 64"
    using unat_size_bound [of k] by (auto simp: min_def)
  then have "unat ?l = length ?out" by (rule unat_of_nat_size)
  moreover have "drop (length ?out) (held s) = drop (min (unat k) (unat n)) (held s)"
    unfolding out length_take by (simp only: min_def split: if_splits) simp
  ultimately show ?thesis
    using discard_front [OF assms, of ?l] out by (metis append_take_drop_id)
qed

text \<open>What the socket got is a prefix of the queue, in order, and what is left is the rest.\<close>

lemma pump_in_order:
  "wf s \<Longrightarrow> pump peek discard s ios = (out, s') \<Longrightarrow> wf s' \<and> out @ held s' = held s"
proof (induction ios arbitrary: s out)
  case (Cons io ios)
  obtain n k where io: "io = (n, k)" by (cases io)
  let ?out = "take (unat k) (peek s n)" and ?s = "discard s (of_nat (length (take (unat k) (peek s n))))"
  obtain rest where p: "pump peek discard ?s ios = (rest, s')" and out: "out = ?out @ rest"
    using Cons.prems(2) io by (auto simp: Let_def split: prod.splits)
  have "wf s' \<and> rest @ held s' = held ?s"
    by (rule Cons.IH [OF discard_wf [OF Cons.prems(1)] p])
  then show ?case
    using discard_taken [OF Cons.prems(1), of k n] out by simp
qed simp

end

text \<open>
  The handler's write buffer is such a queue: \<open>peek\<close> is \<open>write_buffer_get_bytes\<close> without
  consuming, \<open>discard\<close> is \<open>write_buffer_consume_bytes\<close>.
\<close>

definition peek_bytes :: "allocator \<Rightarrow> LoquiStreamHandler \<Rightarrow> size_t \<Rightarrow> byte list" where
  "peek_bytes alloc h n =
     (case write_buffer_get_bytes alloc h n False of
        Some (_, Some bs) \<Rightarrow> bs
      | _ \<Rightarrow> [])"

definition discard_bytes :: "allocator \<Rightarrow> LoquiStreamHandler \<Rightarrow> size_t \<Rightarrow> LoquiStreamHandler" where
  "discard_bytes alloc h n =
     (case write_buffer_consume_bytes alloc h n of Some (h', _) \<Rightarrow> h' | None \<Rightarrow> h)"

lemma peek_bytes_front: "write_ok h \<Longrightarrow> peek_bytes alloc h n = take (unat n) (unsent h)"
  by (erule get_bytes_front [of h alloc n False]) (auto simp: peek_bytes_def Let_def)

lemma discard_bytes_front:
  "write_ok h \<Longrightarrow> unsent (discard_bytes alloc h n) = drop (unat n) (unsent h)"
  "write_ok h \<Longrightarrow> write_ok (discard_bytes alloc h n)"
  by (erule consume_bytes_drops [of h alloc n]; simp add: discard_bytes_def)+

interpretation wq: byte_queue write_ok unsent "peek_bytes alloc" "discard_bytes alloc" for alloc
  by unfold_locales (simp_all add: peek_bytes_front discard_bytes_front)

section \<open>Properties\<close>

text \<open>
  C14: The write buffer is a first-in first-out queue for the socket. However many bytes the
  session looks at and however many of those the socket takes, round after round, the bytes the socket
  got followed by the bytes still unsent are the bytes that were queued: nothing is lost, repeated or
  reordered, across every compaction.
\<close>

theorem socket_gets_queue_in_order:
  assumes "write_ok h" and "pump (peek_bytes alloc) (discard_bytes alloc) h ios = (out, h')"
  shows "write_ok h' \<and> out @ unsent h' = unsent h"
  using assms by (rule wq.pump_in_order)

definition small_writer :: LoquiStreamHandler where
  "small_writer = \<lparr>sh_seq = 0, decode_buffer = idle_decoder,
     write_buffer = \<lparr>buf = Some [1, 2, 3, 4], buf_length = 4, allocated_size = 4\<rparr>,
     write_buffer_position = 1\<rparr>"

lemma small_writer_ok: "write_ok small_writer" "unsent small_writer = [2, 3, 4]"
  by (simp_all add: small_writer_def write_ok_def unsent_def buffer_ok_def buf_bytes_def max_object_def)

text \<open>Two rounds: look at two bytes and one is taken, then look at five and two are taken.\<close>

lemma socket_gets_queue_in_order_witness:
  "fst (pump (peek_bytes big_allocator) (discard_bytes big_allocator) small_writer [(2, 1), (5, 2)]) @
   unsent (snd (pump (peek_bytes big_allocator) (discard_bytes big_allocator) small_writer [(2, 1), (5, 2)]))
   = [2, 3, 4]"
  using socket_gets_queue_in_order [OF small_writer_ok(1) prod.collapse [symmetric]] small_writer_ok(2)
  by (simp del: pump.simps)

text \<open>
  Compaction is memory safe and invisible. After the position has moved, the code frees or
  resets a drained buffer and otherwise moves the unsent bytes to the front with \<open>memcpy\<close>; the two
  regions never overlap and lie in the allocation, the unsent bytes stay what they are, and at most the
  first half of the allocation is left unused.
\<close>

theorem compaction_safe:
  assumes "write_ok h"
  shows "\<exists>h'. reset_or_compact_write_buf alloc h = Some h' \<and> write_ok h' \<and> unsent h' = unsent h \<and>
    write_buffer_position h' \<le> allocated_size (write_buffer h') div 2"
  by (rule reset_or_compact_cases [OF assms]) blast

lemma compaction_safe_witness:
  "\<exists>h'. reset_or_compact_write_buf big_allocator (small_writer\<lparr>write_buffer_position := 3\<rparr>) = Some h' \<and>
    unsent h' = [4]"
proof -
  have "write_ok (small_writer\<lparr>write_buffer_position := 3\<rparr>)"
    "unsent (small_writer\<lparr>write_buffer_position := 3\<rparr>) = [4]"
    by (simp_all add: small_writer_def write_ok_def unsent_def buffer_ok_def buf_bytes_def max_object_def)
  then show ?thesis using compaction_safe [of "small_writer\<lparr>write_buffer_position := 3\<rparr>" big_allocator] by auto
qed

text \<open>
  \<open>write_buffer_get_bytes\<close> returns the front of the unsent bytes, as many as asked for
  and there are, and \<open>None\<close> when that is nothing; it drops them exactly when \<open>consume\<close> is set.
  \<open>write_buffer_consume_bytes\<close> drops as many and returns the number left. Neither reads outside
  the buffer.
\<close>

theorem get_and_consume:
  assumes "write_ok h"
  shows "(\<exists>h'. write_buffer_get_bytes alloc h n c =
            Some (h', (let bs = take (unat n) (unsent h) in if bs = [] then None else Some bs)) \<and>
            unsent h' = (if c then drop (unat n) (unsent h) else unsent h)) \<and>
         (\<exists>h' left. write_buffer_consume_bytes alloc h n = Some (h', left) \<and>
            unsent h' = drop (unat n) (unsent h) \<and> unat left = length (unsent h) - unat n)"
proof
  show "\<exists>h'. write_buffer_get_bytes alloc h n c =
            Some (h', (let bs = take (unat n) (unsent h) in if bs = [] then None else Some bs)) \<and>
            unsent h' = (if c then drop (unat n) (unsent h) else unsent h)"
    by (rule get_bytes_front [OF assms, of alloc n c]) blast
  show "\<exists>h' left. write_buffer_consume_bytes alloc h n = Some (h', left) \<and>
            unsent h' = drop (unat n) (unsent h) \<and> unat left = length (unsent h) - unat n"
    by (rule consume_bytes_drops [OF assms, of alloc n]) (use length_unsent in fastforce)
qed

lemma get_and_consume_witness:
  "\<exists>h'. write_buffer_get_bytes big_allocator small_writer 2 True = Some (h', Some [2, 3]) \<and> unsent h' = [4]"
  using get_and_consume [OF small_writer_ok(1), of big_allocator 2 True] small_writer_ok(2)
  by (auto simp: Let_def)

end
