(* ===== verification/Loqui_Receiving.thy ===== *)
theory Loqui_Receiving
  imports Loqui_Queue
begin

text \<open>
  What the receiving half of \<open>LoquiStreamHandler\<close> does. The specification is on the
  level of the byte stream: the events are those of the frames that \<open>deframe\<close> cuts off
  everything received, and each ping is answered. \<open>on_bytes_received\<close> is proved to refine it for
  every chunk, so what is received does not depend on how the stream is cut into chunks.
\<close>

section \<open>The specification\<close>

text \<open>
  The event a frame stands for; \<open>None\<close> where the code's behaviour is undefined, an error
  where it raises. An empty payload is the event's \<open>None\<close>.
\<close>

definition opt_payload :: "byte list \<Rightarrow> pybytes" where
  "opt_payload p = (if p = [] then None else Some p)"

fun frame_event :: "frame \<Rightarrow> event py option" where
  "frame_event (FHello fl v p) =
     map_option (map_sum id (\<lambda>(e, c). Hello fl v (bytes_split COMMA e) (bytes_split COMMA c)))
       (split_pair (opt_payload p))"
| "frame_event (FHelloAck fl pint p) =
     map_option (map_sum id (\<lambda>(e, c). HelloAck fl pint e c)) (split_pair (opt_payload p))"
| "frame_event (FPing fl s) = Some (Inr (Ping fl s))"
| "frame_event (FPong fl s) = Some (Inr (Pong fl s))"
| "frame_event (FRequest fl s p) = Some (Inr (Request fl s (opt_payload p)))"
| "frame_event (FResponse fl s p) = Some (Inr (Response fl s (opt_payload p)))"
| "frame_event (FPush fl p) = Some (Inr (Push fl (opt_payload p)))"
| "frame_event (FGoAway fl c p) = Some (Inr (GoAway fl c (opt_payload p)))"
| "frame_event (FError fl s c p) = Some (Inr (Error fl c s (opt_payload p)))"

fun frame_reply :: "frame \<Rightarrow> frame list" where
  "frame_reply (FPing fl s) = [FPong fl s]"
| "frame_reply _ = []"

section \<open>The accessors on a held frame\<close>

lemma field_loads:
  "loqui_load32 (a # be32_bytes x @ r) 1 = Some x"
  "loqui_load32 (a # b # be32_bytes x @ r) 2 = Some x"
  "loqui_load32 (a # be16_bytes u @ be32_bytes x @ r) 3 = Some x"
  "loqui_load32 (a # be32_bytes y @ be32_bytes x @ r) 5 = Some x"
  "loqui_load32 (a # be32_bytes y @ be16_bytes u @ be32_bytes x @ r) 7 = Some x"
  "loqui_load16 (a # be16_bytes u @ r) 1 = Some u"
  "loqui_load16 (a # be32_bytes y @ be16_bytes u @ r) 5 = Some u"
  using load32_at [of "[a]" 1 x r] load32_at [of "[a, b]" 2 x r] load32_at [of "a # be16_bytes u" 3 x r]
    load32_at [of "a # be32_bytes y" 5 x r] load32_at [of "a # be32_bytes y @ be16_bytes u" 7 x r]
    load16_at [of "[a]" 1 u r] load16_at [of "a # be32_bytes y" 5 u r]
  by simp_all

lemmas field_loads_Suc = field_loads [unfolded One_nat_def]

lemma held_cells:
  assumes "frame_held pk (raw_of f)"
  obtains junk where "cells (buf (loqui_buffer pk)) = frame_header f @ frame_payload f @ junk"
    and "opcode pk = frame_opcode f" and "unat (header_size pk) = length (frame_header f)"
    and "length (frame_payload f) \<le> max_payload"
proof -
  have "take (unat (buf_length (loqui_buffer pk))) (cells (buf (loqui_buffer pk)))
      = frame_header f @ frame_payload f"
    using assms by (simp add: frame_held_def raw_of_def buf_bytes_def)
  then have "cells (buf (loqui_buffer pk)) = frame_header f @ frame_payload f
      @ drop (unat (buf_length (loqui_buffer pk))) (cells (buf (loqui_buffer pk)))"
    by (metis append.assoc append_take_drop_id)
  then show ?thesis
    using that assms by (simp add: frame_held_def raw_of_def)
qed

lemma size_word:
  "n \<le> max_payload \<Longrightarrow> (ucast (of_nat n :: u32) :: size_t) = of_nat n"
  "n \<le> max_payload \<Longrightarrow> unat (of_nat n :: size_t) = n"
  "n \<le> max_payload \<Longrightarrow> (of_nat n :: size_t) = 0 \<longleftrightarrow> n = 0"
proof -
  assume n: "n \<le> max_payload"
  then have small: "n < 2 ^ 32" by (simp add: max_payload_def)
  then show u: "unat (of_nat n :: size_t) = n" by (intro unat_of_nat_size) simp
  have "unat (of_nat n :: u32) = n" using small by (simp add: unat_of_nat)
  then have "unat (ucast (of_nat n :: u32) :: size_t) = unat (of_nat n :: size_t)"
    by (simp only: u unat_ucast_u32_size)
  then show "(ucast (of_nat n :: u32) :: size_t) = of_nat n"
    by (simp only: word_unat_eq_iff)
  show "(of_nat n :: size_t) = 0 \<longleftrightarrow> n = 0"
    by (simp only: word_unat_eq_iff u unat_0)
qed

lemma held_payload:
  assumes "frame_held pk (raw_of f)"
  shows "get_payload_from_decode_buffer pk = Some (opt_payload (frame_payload f))"
proof -
  let ?n = "length (frame_payload f)"
  obtain junk where c: "cells (buf (loqui_buffer pk)) = frame_header f @ frame_payload f @ junk"
    and op: "opcode pk = frame_opcode f" and hs: "unat (header_size pk) = length (frame_header f)"
    and n: "?n \<le> max_payload"
    using held_cells [OF assms] .
  have "loqui_get_data_payload_size pk = Some (of_nat ?n)"
    using size_word(1) [OF n]
    by (cases f) (simp_all add: loqui_get_data_payload_size_def c op size_field_def field_loads_Suc field_loads
        Let_def)
  then show ?thesis
    using size_word(2,3) [OF n] hs
    by (simp add: get_payload_from_decode_buffer_def c opt_payload_def)
qed

text \<open>Each branch computes the frame's event, and answers a ping.\<close>

lemmas accessor_defs = loqui_get_flags_def loqui_get_seq_def loqui_get_version_def
  loqui_get_code_def loqui_get_ping_interval_def

lemmas consume_defs = consume_response_def consume_request_def consume_push_def consume_pong_def
  consume_goaway_def consume_error_def consume_hello_def consume_hello_ack_def

lemma consume_branch_event:
  assumes held: "frame_held (decode_buffer h) (raw_of f)" and np: "frame_reply f = []"
  shows "consume_branch alloc h = map_option (\<lambda>r. (h, Some r)) (frame_event f)"
proof -
  obtain junk where c: "cells (buf (loqui_buffer (decode_buffer h))) = frame_header f @ frame_payload f @ junk"
    and op: "opcode (decode_buffer h) = frame_opcode f"
    using held_cells [OF held] by metis
  note pl = held_payload [OF held]
  show ?thesis
    using np pl
    by (cases f)
      (auto simp: consume_branch_def consume_defs accessor_defs c op Let_def size_field_def
        field_loads_Suc field_loads split_pair_def opt_payload_def split: option.splits list.splits)
qed

section \<open>Consuming a held frame\<close>

lemma reset_decode_buf_ok:
  assumes "buffer_ok (loqui_buffer pk)"
  shows "decoder_ok (reset_decode_buf alloc pk)" and "pending (reset_decode_buf alloc pk) = []"
  using reset_buffer_ok [OF free_big_buffer_ok [OF assms]]
  by (simp_all add: decoder_ok_def pending_def reset_decode_buf_def loqui_decoder_reset_def Let_def)

lemma held_buffer_ok: "frame_held pk raw \<Longrightarrow> buffer_ok (loqui_buffer pk)"
  by (simp add: frame_held_def)

lemma queue_length:
  "write_ok h \<Longrightarrow> length (buf_bytes (write_buffer h)) = unat (write_buffer_position h) + length (unsent h)"
  using write_ok_pos [of h] by (simp add: unsent_def)

lemma consume_cases:
  assumes held: "frame_held (decode_buffer h) (raw_of f)" and ok: "write_ok h" and sane: "alloc_sane alloc"
  obtains (undefined) "frame_event f = None" and "consume_decode_buffer alloc h = None"
  | (raised) e where "frame_event f = Some (Inl e)" and "consume_decode_buffer alloc h = Some (h, Inl e)"
  | (event) ev h' where "frame_event f = Some (Inr ev)"
      and "consume_decode_buffer alloc h = Some (h', Inr ev)"
      and "decoder_ok (decode_buffer h')" and "pending (decode_buffer h') = []"
      and "write_ok h'" and "unsent h' = unsent h @ concat (List.map wire (frame_reply f))"
      and "sh_seq h' = sh_seq h" and "write_buffer_position h' = write_buffer_position h"
  | (no_memory) h' where "frame_reply f \<noteq> []" and "consume_decode_buffer alloc h = Some (h', Inl MemoryError)"
      and "refuses alloc (length (buf_bytes (write_buffer h)) + length (wire f))"
      and "frame_held (decode_buffer h') (raw_of f)" and "write_ok h'" and "unsent h' = unsent h"
      and "sh_seq h' = sh_seq h"
proof (cases "frame_reply f")
  case Nil
  note b = consume_branch_event [OF held Nil, of alloc]
  let ?h = "h\<lparr>decode_buffer := reset_decode_buf alloc (decode_buffer h)\<rparr>"
  consider "frame_event f = None" | e where "frame_event f = Some (Inl e)" | ev where "frame_event f = Some (Inr ev)"
    by (metis option.exhaust sum.exhaust)
  then show ?thesis
    using undefined raised event [of _ ?h] reset_decode_buf_ok [OF held_buffer_ok [OF held], of alloc] ok Nil
    by cases (simp_all add: consume_decode_buffer_def b)
next
  case (Cons g gs)
  then obtain fl s where f: "f = FPing fl s" by (cases f) auto
  obtain junk where c: "cells (buf (loqui_buffer (decode_buffer h))) = frame_header f @ frame_payload f @ junk"
    and op: "opcode (decode_buffer h) = frame_opcode f"
    using held_cells [OF held] by metis
  have acc: "loqui_get_flags (decode_buffer h) = Some fl" "loqui_get_seq (decode_buffer h) = Some s"
    by (simp_all add: accessor_defs c op f field_loads_Suc Let_def)
  obtain h1 b where h1: "h1 = h\<lparr>write_buffer := b\<rparr>" and ok': "write_ok h1"
    and cases: "send_pong alloc h fl s = Some (h1, Inr 1) \<and> unsent h1 = unsent h @ wire (FPong fl s) \<or>
      send_pong alloc h fl s = Some (h1, Inl MemoryError) \<and>
      refuses alloc (length (buf_bytes (write_buffer h)) + length (wire (FPong fl s))) \<and> unsent h1 = unsent h"
    using send_pong_outcome [OF ok sane, of fl s] by (auto simp: send_outcome_def Let_def)
  let ?h2 = "h1\<lparr>decode_buffer := reset_decode_buf alloc (decode_buffer h)\<rparr>"
  have pk: "decode_buffer h1 = decode_buffer h" "sh_seq h1 = sh_seq h" "write_buffer_position h1 = write_buffer_position h"
    by (simp_all add: h1)
  have branch: "consume_branch alloc h = map_option (\<lambda>(h, r). (h, Some r)) (consume_ping alloc h)"
    by (simp add: consume_branch_def op f)
  from cases show ?thesis
  proof (elim disjE conjE)
    assume "send_pong alloc h fl s = Some (h1, Inr 1)" "unsent h1 = unsent h @ wire (FPong fl s)"
    then show ?thesis
      using event [of "Ping fl s" ?h2] reset_decode_buf_ok [OF held_buffer_ok [OF held], of alloc] ok' f pk
      by (simp add: consume_decode_buffer_def branch consume_ping_def acc except0_def)
  next
    assume "send_pong alloc h fl s = Some (h1, Inl MemoryError)" "unsent h1 = unsent h"
      "refuses alloc (length (buf_bytes (write_buffer h)) + length (wire (FPong fl s)))"
    then show ?thesis
      using no_memory [of h1] held ok' f pk
      by (simp add: consume_decode_buffer_def branch consume_ping_def acc except0_def wire_def)
  qed
qed

section \<open>Receiving a chunk\<close>

text \<open>What a stream's frames and end make of the events collected so far.\<close>

fun outcome :: "frame list \<Rightarrow> stream_end \<Rightarrow> event list \<Rightarrow> event list py option" where
  "outcome [] (Rest r) acc = Some (Inr acc)"
| "outcome [] (Bad st) acc = Some (Inl (LoquiDecoderError (status_value st)))"
| "outcome (f # fs) e acc =
     (case frame_event f of
        None \<Rightarrow> None
      | Some (Inl x) \<Rightarrow> Some (Inl x)
      | Some (Inr ev) \<Rightarrow> outcome fs e (acc @ [ev]))"

text \<open>The pongs queued: one for each ping before the first frame that raises.\<close>

fun replies :: "frame list \<Rightarrow> frame list" where
  "replies [] = []"
| "replies (f # fs) =
     (case frame_event f of Some (Inr _) \<Rightarrow> frame_reply f @ replies fs | _ \<Rightarrow> [])"

lemma pending_incomplete:
  assumes "decoder_ok pk"
  shows "cut_frame (pending pk) = Incomplete"
proof (cases "opcode pk = 0")
  case True
  then show ?thesis by (simp add: pending_def)
next
  case False
  then have nz: "header_len (opcode pk) \<noteq> 0"
    and "length (buf_bytes (loqui_buffer pk)) < header_len (opcode pk) \<or>
      mid_payload pk \<and> 0 < unat (data_size_remaining pk)"
    using assms by (auto simp: decoder_ok_def word_less_nat_alt)
  then show ?thesis
    using False by (auto simp: pending_def mid_payload_def Let_def payload_len_take)
qed

text \<open>
  The state after a chunk, by result: the events came back, or the stream was not allowed and
  the decoder restarted, or a frame raised and is still held.
\<close>

definition received ::
    "frame list \<Rightarrow> stream_end \<Rightarrow> event list py \<Rightarrow> loqui_decode_buffer_t \<Rightarrow> bool" where
  "received fs e res pk \<longleftrightarrow>
     (case res of
        Inr _ \<Rightarrow> decoder_ok pk \<and> e = Rest (pending pk)
      | Inl (LoquiDecoderError _) \<Rightarrow> decoder_ok pk \<and> pending pk = []
      | Inl x \<Rightarrow> \<exists>f \<in> set fs. frame_event f = Some (Inl x) \<and> frame_held pk (raw_of f))"

definition conforms ::
    "LoquiStreamHandler \<Rightarrow> frame list \<Rightarrow> stream_end \<Rightarrow> event list \<Rightarrow>
      (LoquiStreamHandler \<times> event list py) option \<Rightarrow> bool" where
  "conforms h fs e acc r \<longleftrightarrow>
     (case outcome fs e acc of
        None \<Rightarrow> r = None
      | Some res \<Rightarrow>
          (\<exists>h'. r = Some (h', res) \<and> write_ok h' \<and> sh_seq h' = sh_seq h \<and>
             write_buffer_position h' = write_buffer_position h \<and>
             unsent h' = unsent h @ concat (List.map wire (replies fs)) \<and>
             received fs e res (decode_buffer h')))"

lemma frame_event_error: "frame_event f = Some (Inl e) \<Longrightarrow> e = ValueError"
  by (cases f) (auto simp: split_pair_def split: option.splits list.splits)

lemma receivedCons: "received fs e res pk \<Longrightarrow> received (f # fs) e res pk"
  by (auto simp: received_def split: sum.splits py_error.splits)

lemma conformsCons:
  assumes "conforms h2 fs e (acc @ [ev]) r" and "frame_event f = Some (Inr ev)"
    and "unsent h2 = unsent h @ concat (List.map wire (frame_reply f))" and "sh_seq h2 = sh_seq h"
    and "write_buffer_position h2 = write_buffer_position h"
  shows "conforms h (f # fs) e acc r"
  using assms by (auto simp: conforms_def intro: receivedCons split: option.splits)

lemma reply_length: "length (concat (List.map wire (frame_reply f))) \<le> length (wire f)"
  by (cases f) (simp_all add: wire_def)

lemma deframe_frame:
  assumes "cut_frame s = Frame (raw_of f) rest" and "deframe s = (List.map raw_of fs, e)"
  obtains gs where "fs = f # gs" and "deframe rest = (List.map raw_of gs, e)"
proof (cases fs)
  case Nil
  with assms deframe_simps(1) [OF assms(1)] show ?thesis by simp
next
  case (Cons g gs)
  have "raw_of g = raw_of f" "deframe rest = (List.map raw_of gs, e)"
    using assms(2) deframe_simps(1) [OF assms(1)] Cons by (simp_all add: prod_eq_iff)
  then show ?thesis using that Cons by (simp add: raw_of_inject)
qed

text \<open>
  Between two calls the decoder is in order, or it still holds a frame whose consumption raised;
  in both cases \<open>pending\<close> is what it holds of the stream.
\<close>

definition decoder_inv :: "loqui_decode_buffer_t \<Rightarrow> bool" where
  "decoder_inv pk \<longleftrightarrow> decoder_ok pk \<or> (\<exists>f. frame_held pk (raw_of f))"

lemma held_pending:
  assumes "frame_held pk (raw_of f)"
  shows "pending pk = wire f" and "cut_frame (wire f @ data) = Frame (raw_of f) data"
    and "decode_complete pk = 1"
  using assms by (auto simp: frame_held_def raw_of_def pending_def wire_def header_len_def
      intro!: cut_frame_wire [unfolded wire_def raw_of_def, simplified])

text \<open>One round of the loop, from the decoder's contract.\<close>

lemma suffix_of_chunk:
  assumes "xs @ data = ys @ rest" and "k + length rest = length data"
  shows "rest = drop k data"
proof -
  have "length ys = length xs + k"
    using arg_cong [OF assms(1), of length] assms(2) by simp
  then have "drop (length xs + k) (xs @ data) = rest"
    using assms(1) by (metis append_eq_conv_conj)
  then show ?thesis by simp
qed

lemma round_cases:
  assumes sane: "alloc_sane alloc" and inv: "decoder_inv pk"
    and sz: "unat sz = length data" and data: "data \<noteq> []"
  obtains (more) pk' c where "loqui_decoder_read_data alloc pk sz data 0 = Some (LOQUI_DECODE_NEEDS_MORE, pk', c)"
      and "cut_frame (pending pk @ data) = Incomplete" and "decoder_ok pk'" and "pending pk' = pending pk @ data"
  | (bad) st pk' c where "loqui_decoder_read_data alloc pk sz data 0 = Some (st, pk', c)"
      and "status_value st < 0" and "deframe (pending pk @ data) = ([], Bad st)" and "buffer_ok (loqui_buffer pk')"
  | (no_memory) pk' c where "loqui_decoder_read_data alloc pk sz data 0 = Some (LOQUI_DECODE_MEMORY_ERROR, pk', c)"
      and "\<not> (\<forall>k. unat k < max_object \<longrightarrow> alloc k)" and "buffer_ok (loqui_buffer pk')"
  | (frame) pk' c f rest where "loqui_decoder_read_data alloc pk sz data 0 = Some (LOQUI_DECODE_COMPLETE, pk', c)"
      and "cut_frame (pending pk @ data) = Frame (raw_of f) rest" and "frame_held pk' (raw_of f)"
      and "pending pk @ data = wire f @ rest" and "rest = drop (unat c) data"
      and "unat (sz - c) = length rest"
proof (cases "decoder_ok pk")
  case False
  then obtain f where held: "frame_held pk (raw_of f)" using inv by (auto simp: decoder_inv_def)
  show ?thesis
    using frame [of pk 0 f data] held_pending [OF held] held sz by (simp add: loqui_decoder_read_data_def)
next
  case ok: True
  obtain st pk' c where r: "loqui_decoder_read_data alloc pk sz data 0 = Some (st, pk', c)"
    and b: "buffer_ok (loqui_buffer pk')"
    and st: "case st of
        LOQUI_DECODE_NEEDS_MORE \<Rightarrow> cut_frame (pending pk @ data) = Incomplete \<and> decoder_ok pk' \<and>
          pending pk' = pending pk @ data \<and> unat c = 0 + length data
      | LOQUI_DECODE_COMPLETE \<Rightarrow> (\<exists>raw rest. cut_frame (pending pk @ data) = Frame raw rest \<and>
          frame_held pk' raw \<and> length rest \<le> length data \<and> unat c + length rest = 0 + length data)
      | LOQUI_DECODE_INVALID_SIZE \<Rightarrow> cut_frame (pending pk @ data) = BadSize
      | LOQUI_DECODE_INVALID_OPCODE \<Rightarrow> cut_frame (pending pk @ data) = BadOpcode
      | LOQUI_DECODE_MEMORY_ERROR \<Rightarrow> \<not> (\<forall>k. unat k < max_object \<longrightarrow> alloc k)"
    using decoder_read_decodes [OF sane ok sz data] unfolding decodes_def by blast
  show ?thesis
  proof (cases st)
    case LOQUI_DECODE_COMPLETE
    then obtain raw rest where cut: "cut_frame (pending pk @ data) = Frame raw rest"
      and held: "frame_held pk' raw" and len: "unat c + length rest = length data"
      using st by auto
    obtain f where f: "raw = raw_of f" "pending pk @ data = wire f @ rest"
      using cut_frame_sound [OF cut] by blast
    have "c \<le> sz" using len sz by (simp add: word_le_nat_alt)
    then have "unat (sz - c) = length rest" using len sz by (simp add: unat_diff_le)
    then show ?thesis
      using frame [of pk' c f rest] r LOQUI_DECODE_COMPLETE cut held f suffix_of_chunk [OF f(2) len] by simp
  qed (use more [of pk' c] bad [of st pk' c] no_memory [of pk' c] r b st in \<open>auto simp: deframe_simps\<close>)
qed

lemma ValueError_conforms:
  assumes "frame_event f = Some (Inl x)" and "frame_held (decode_buffer h1) (raw_of f)"
    and "write_ok h1" and "sh_seq h1 = sh_seq h" and "unsent h1 = unsent h"
    and "write_buffer_position h1 = write_buffer_position h"
  shows "conforms h (f # fs) e acc (Some (h1, Inl x))"
  using assms frame_event_error [OF assms(1)] by (auto simp: conforms_def received_def)

lemma receive_loop_conforms:
  assumes "ample alloc" and "decoder_inv (decode_buffer h)" and "write_ok h"
    and "unat sz = length data"
    and "length (buf_bytes (write_buffer h)) + length (pending (decode_buffer h) @ data) < 2 ^ 60"
    and "deframe (pending (decode_buffer h) @ data) = (List.map raw_of fs, e)"
    and "decoder_ok (decode_buffer h) \<or> data \<noteq> []"
  shows "conforms h fs e acc (receive_loop alloc h sz data acc)"
  using assms
proof (induction alloc h sz data acc arbitrary: fs rule: receive_loop.induct)
  case (1 alloc h sz data acc)
  let ?pk = "decode_buffer h"
  note prems = "1.prems"
  note sane = ample_sane [OF prems(1)]
  show ?case
  proof (cases "data = []")
    case True
    then have "decoder_ok ?pk" using prems(7) by simp
    then show ?thesis
      using True prems deframe_simps(2) [OF pending_incomplete]
      by (subst receive_loop.simps) (auto simp: conforms_def received_def unat_eq_0)
  next
    case False
    then have pos: "0 < sz" using prems(4) by (simp add: word_less_nat_alt)
    show ?thesis
    proof (rule round_cases [OF sane prems(2,4) False])
      fix pk' c
      assume "loqui_decoder_read_data alloc ?pk sz data 0 = Some (LOQUI_DECODE_NEEDS_MORE, pk', c)"
        "cut_frame (pending ?pk @ data) = Incomplete" "decoder_ok pk'" "pending pk' = pending ?pk @ data"
      then show ?thesis
        using prems(3,6) pos
        by (subst receive_loop.simps) (auto simp: conforms_def received_def deframe_simps)
    next
      fix st pk' c
      assume r: "loqui_decoder_read_data alloc ?pk sz data 0 = Some (st, pk', c)" "status_value st < 0"
        "deframe (pending ?pk @ data) = ([], Bad st)" "buffer_ok (loqui_buffer pk')"
      then show ?thesis
        using prems(3,6) pos reset_decode_buf_ok [OF r(4)]
        by (subst receive_loop.simps) (auto simp: conforms_def received_def)
    next
      assume "\<not> (\<forall>k. unat k < max_object \<longrightarrow> alloc k)"
      then show ?thesis using prems(1) by (simp add: ample_def)
    next
      fix pk' c f rest
      assume r: "loqui_decoder_read_data alloc ?pk sz data 0 = Some (LOQUI_DECODE_COMPLETE, pk', c)"
        and cut: "cut_frame (pending ?pk @ data) = Frame (raw_of f) rest"
        and held: "frame_held pk' (raw_of f)" and split: "pending ?pk @ data = wire f @ rest"
        and rest: "rest = drop (unat c) data" and len: "unat (sz - c) = length rest"
      obtain gs where gs: "fs = f # gs" "deframe rest = (List.map raw_of gs, e)"
        using deframe_frame [OF cut prems(6)] .
      let ?h = "h\<lparr>decode_buffer := pk'\<rparr>"
      have held': "frame_held (decode_buffer ?h) (raw_of f)" and ok: "write_ok ?h"
        using held prems(3) by simp_all
      have loop: "receive_loop alloc h sz data acc =
        (case consume_decode_buffer alloc ?h of
           None \<Rightarrow> None
         | Some (h2, Inl e) \<Rightarrow> Some (h2, Inl e)
         | Some (h2, Inr ev) \<Rightarrow> receive_loop alloc h2 (sz - c) rest (acc @ [ev]))"
        unfolding rest using r pos by (subst receive_loop.simps) simp
      show ?thesis
        using held' ok sane
      proof (cases rule: consume_cases)
        case undefined
        then show ?thesis by (simp add: loop gs(1) conforms_def)
      next
        case (raised e)
        then show ?thesis
          using ValueError_conforms [OF raised(1) held' ok, of h] by (simp add: loop gs(1))
      next
        case (no_memory h2)
        then show ?thesis
          using ample_refuses [OF prems(1) no_memory(3)] prems(5) split
          by (simp add: max_object_def)
      next
        case (event ev h2)
        have room: "length (buf_bytes (write_buffer h2)) + length (pending (decode_buffer h2) @ rest) < 2 ^ 60"
          using event prems(5) split reply_length [of f] queue_length [OF event(5)] queue_length [OF prems(3)]
          by simp
        have "conforms h2 gs e (acc @ [ev]) (receive_loop alloc h2 (sz - c) rest (acc @ [ev]))"
          unfolding rest
          by (rule "1.IH" [OF pos r refl refl refl _ _ _ event(2) refl])
            (use event prems(1) len room gs(2) rest in \<open>simp_all add: decoder_inv_def\<close>)
        then show ?thesis
          using conformsCons [of h2 gs e acc ev _ f h] event by (simp add: loop gs(1))
      qed
    qed
  qed
qed

section \<open>Any allocator\<close>

text \<open>
  Without any assumption on which allocations succeed: the handler's invariant is kept, and
  the only undefined behaviour is that of a frame whose event is undefined.
\<close>

definition handler_inv :: "LoquiStreamHandler \<Rightarrow> bool" where
  "handler_inv h \<longleftrightarrow> write_ok h \<and> seq_ok h \<and> decoder_inv (decode_buffer h)"

text \<open>The exceptions a received chunk can raise.\<close>

definition receive_error :: "py_error \<Rightarrow> bool" where
  "receive_error e \<longleftrightarrow>
     e = ValueError \<or> e = MemoryError \<or>
     e \<in> LoquiDecoderError ` status_value ` {LOQUI_DECODE_MEMORY_ERROR, LOQUI_DECODE_INVALID_OPCODE,
       LOQUI_DECODE_INVALID_SIZE}"

definition safe_result ::
    "LoquiStreamHandler \<Rightarrow> byte list \<Rightarrow> (LoquiStreamHandler \<times> event list py) option \<Rightarrow> bool" where
  "safe_result h s r \<longleftrightarrow>
     (case r of
        None \<Rightarrow> \<exists>f. raw_of f \<in> set (fst (deframe s)) \<and> frame_event f = None
      | Some (h', res) \<Rightarrow>
          handler_inv h' \<and> sh_seq h' = sh_seq h \<and> (\<forall>e. res = Inl e \<longrightarrow> receive_error e))"

lemma bad_status_error:
  "status_value st < 0 \<Longrightarrow> receive_error (LoquiDecoderError (status_value st))"
  by (cases st) (simp_all add: receive_error_def)

lemma receive_loop_safe:
  assumes "alloc_sane alloc" and "handler_inv h" and "unat sz = length data"
  shows "safe_result h (pending (decode_buffer h) @ data) (receive_loop alloc h sz data acc)"
  using assms
proof (induction alloc h sz data acc rule: receive_loop.induct)
  case (1 alloc h sz data acc)
  let ?pk = "decode_buffer h"
  note sane = "1.prems"(1)
  have inv: "write_ok h" "seq_ok h" "decoder_inv ?pk"
    using "1.prems"(2) by (simp_all add: handler_inv_def)
  show ?case
  proof (cases "data = []")
    case True
    then show ?thesis
      using "1.prems" by (subst receive_loop.simps) (auto simp: unat_eq_0 safe_result_def)
  next
    case False
    then have pos: "0 < sz" using "1.prems"(3) by (simp add: word_less_nat_alt)
    show ?thesis
    proof (rule round_cases [OF sane inv(3) "1.prems"(3) False])
      fix pk' c
      assume "loqui_decoder_read_data alloc ?pk sz data 0 = Some (LOQUI_DECODE_NEEDS_MORE, pk', c)"
        "decoder_ok pk'"
      then show ?thesis
        using inv pos by (subst receive_loop.simps) (simp add: handler_inv_def decoder_inv_def seq_ok_def safe_result_def bad_status_error)
    next
      fix st pk' c
      assume "loqui_decoder_read_data alloc ?pk sz data 0 = Some (st, pk', c)" "status_value st < 0"
        "buffer_ok (loqui_buffer pk')"
      then show ?thesis
        using inv pos reset_decode_buf_ok
        by (subst receive_loop.simps) (simp add: handler_inv_def decoder_inv_def seq_ok_def safe_result_def bad_status_error)
    next
      fix pk' c
      assume "loqui_decoder_read_data alloc ?pk sz data 0 = Some (LOQUI_DECODE_MEMORY_ERROR, pk', c)"
        "buffer_ok (loqui_buffer pk')"
      then show ?thesis
        using inv pos reset_decode_buf_ok bad_status_error [of LOQUI_DECODE_MEMORY_ERROR]
        by (subst receive_loop.simps) (simp add: handler_inv_def decoder_inv_def seq_ok_def safe_result_def)
    next
      fix pk' c f rest
      assume r: "loqui_decoder_read_data alloc ?pk sz data 0 = Some (LOQUI_DECODE_COMPLETE, pk', c)"
        and cut: "cut_frame (pending ?pk @ data) = Frame (raw_of f) rest"
        and held: "frame_held pk' (raw_of f)"
        and rest: "rest = drop (unat c) data" and len: "unat (sz - c) = length rest"
      let ?h = "h\<lparr>decode_buffer := pk'\<rparr>"
      have held': "frame_held (decode_buffer ?h) (raw_of f)" and ok: "write_ok ?h"
        using held inv by simp_all
      have loop: "receive_loop alloc h sz data acc =
        (case consume_decode_buffer alloc ?h of
           None \<Rightarrow> None
         | Some (h2, Inl e) \<Rightarrow> Some (h2, Inl e)
         | Some (h2, Inr ev) \<Rightarrow> receive_loop alloc h2 (sz - c) rest (acc @ [ev]))"
        unfolding rest using r pos by (subst receive_loop.simps) simp
      show ?thesis
        using held' ok sane
      proof (cases rule: consume_cases)
        case undefined
        then show ?thesis using deframe_simps(1) [OF cut] by (auto simp: loop safe_result_def)
      next
        case (raised e)
        then show ?thesis
          using held inv frame_event_error [OF raised(1)]
          by (auto simp: loop safe_result_def receive_error_def handler_inv_def decoder_inv_def seq_ok_def)
      next
        case (no_memory h2)
        then show ?thesis
          using inv by (auto simp: loop safe_result_def receive_error_def handler_inv_def decoder_inv_def seq_ok_def)
      next
        case (event ev h2)
        have "handler_inv h2"
          using event inv by (simp add: handler_inv_def decoder_inv_def seq_ok_def)
        then have "safe_result h2 (pending (decode_buffer h2) @ rest)
            (receive_loop alloc h2 (sz - c) rest (acc @ [ev]))"
          unfolding rest
          by (intro "1.IH" [OF pos r refl refl refl _ _ _ event(2) refl]) (use sane len rest in simp_all)
        then show ?thesis
          using event deframe_simps(1) [OF cut] by (auto simp: loop safe_result_def split: option.splits)
      qed
    qed
  qed
qed

lemma receive_conforms:
  assumes "ample alloc" and "decoder_inv (decode_buffer h)" and "write_ok h"
    and "decoder_ok (decode_buffer h) \<or> d \<noteq> []"
    and "length (buf_bytes (write_buffer h)) + length (pending (decode_buffer h) @ d) < 2 ^ 60"
  shows "let s = pending (decode_buffer h) @ d in
    conforms h (stream_frames s) (snd (deframe s)) [] (on_bytes_received alloc h (Some d))"
proof -
  have "unat (of_nat (length d) :: size_t) = length d"
    using assms(5) by (intro unat_of_nat_size) simp
  then show ?thesis
    using receive_loop_conforms [OF assms(1-3) _ _ _ assms(4),
        of "of_nat (length d)" "stream_frames (pending (decode_buffer h) @ d)"
          "snd (deframe (pending (decode_buffer h) @ d))" "[]"]
      deframe_frames [of "pending (decode_buffer h) @ d"] assms(5)
    by (simp add: on_bytes_received_def PyBytes_AsStringAndSize_def Let_def)
qed

lemma frame_event_reply: "frame_event f = Some (Inl e) \<Longrightarrow> frame_reply f = []"
  by (cases f) auto

section \<open>Properties\<close>

text \<open>
  The accessors of a completely read frame return the frame's own fields, whatever
  follows them in memory: flags, sequence number, version, code, ping interval and payload.
\<close>

theorem accessors_return_fields:
  assumes "frame_held pk (raw_of f)"
  shows "get_payload_from_decode_buffer pk = Some (opt_payload (frame_payload f)) \<and>
    (case f of
       FHello fl v p \<Rightarrow> loqui_get_flags pk = Some fl \<and> loqui_get_version pk = Some v
     | FHelloAck fl pint p \<Rightarrow> loqui_get_flags pk = Some fl \<and> loqui_get_ping_interval pk = Some pint
     | FPing fl s \<Rightarrow> loqui_get_flags pk = Some fl \<and> loqui_get_seq pk = Some s
     | FPong fl s \<Rightarrow> loqui_get_flags pk = Some fl \<and> loqui_get_seq pk = Some s
     | FRequest fl s p \<Rightarrow> loqui_get_flags pk = Some fl \<and> loqui_get_seq pk = Some s
     | FResponse fl s p \<Rightarrow> loqui_get_flags pk = Some fl \<and> loqui_get_seq pk = Some s
     | FPush fl p \<Rightarrow> loqui_get_flags pk = Some fl
     | FGoAway fl c p \<Rightarrow> loqui_get_flags pk = Some fl \<and> loqui_get_code pk = Some c
     | FError fl s c p \<Rightarrow>
         loqui_get_flags pk = Some fl \<and> loqui_get_seq pk = Some s \<and> loqui_get_code pk = Some c)"
proof -
  obtain junk where c: "cells (buf (loqui_buffer pk)) = frame_header f @ frame_payload f @ junk"
    and op: "opcode pk = frame_opcode f"
    using held_cells [OF assms] by metis
  show ?thesis
    using held_payload [OF assms]
    by (cases f) (simp_all add: accessor_defs c op Let_def size_field_def field_loads_Suc field_loads)
qed

definition held_goaway :: loqui_decode_buffer_t where
  "held_goaway = \<lparr>loqui_buffer = \<lparr>buf = Some [1, 0, 9, 0, 0, 0, 2, 65, 66, 77], buf_length = 9, allocated_size = 16\<rparr>,
     opcode = 8, data_size_remaining = 0, header_size = 7, decode_complete = 1\<rparr>"

lemma held_goaway_held: "frame_held held_goaway (raw_of (FGoAway 1 9 [65, 66]))"
proof -
  have "raw_of (FGoAway 1 9 [65, 66]) = Raw 8 [1, 0, 9, 0, 0, 0, 2] [65, 66]"
    by (simp add: raw_of_def size_field_def be16_bytes_def be32_bytes_def)
  then show ?thesis
    using payload_len_frame [of "FGoAway 1 9 [65, 66]"]
    by (simp add: held_goaway_def frame_held_def raw_of_def buffer_ok_def max_object_def header_len_def
        buf_bytes_def max_payload_def)
qed

lemma accessors_return_fields_witness:
  "get_payload_from_decode_buffer held_goaway = Some (Some [65, 66]) \<and> loqui_get_code held_goaway = Some 9"
  using accessors_return_fields [OF held_goaway_held] by (simp add: opt_payload_def)

text \<open>
  C10: \<open>on_bytes_received\<close> implements the stream specification. For every chunk and
  every state between calls it returns the events of exactly the frames that the bytes received so
  far complete, in order, keeps the incomplete rest, answers every ping with a pong of the same flags
  and sequence number, and touches nothing else; it raises where a frame or the stream is not
  allowed. (The hypotheses bound the memory in use and let the allocator grant what is possible.)
\<close>

theorem receiving_implements_stream:
  assumes "ample alloc" and "decoder_inv (decode_buffer h)" and "write_ok h"
    and "decoder_ok (decode_buffer h) \<or> d \<noteq> []"
    and "length (buf_bytes (write_buffer h)) + length (pending (decode_buffer h) @ d) < 2 ^ 60"
  shows "let s = pending (decode_buffer h) @ d in
    conforms h (stream_frames s) (snd (deframe s)) [] (on_bytes_received alloc h (Some d))"
  using assms by (rule receive_conforms)

lemma empty_handler_receiver:
  "decoder_ok (decode_buffer (empty_handler room s))" "pending (decode_buffer (empty_handler room s)) = []"
  by (simp_all add: empty_handler_def decoder_ok_def pending_def zero_buffer_ok)

text \<open>A ping and the first two bytes of the next frame.\<close>

lemma receiving_implements_stream_witness:
  "\<exists>h'. on_bytes_received big_allocator (empty_handler 0 0) (Some [3, 1, 0, 0, 0, 9, 5, 0])
      = Some (h', Inr [Ping 1 9]) \<and> unsent h' = [4, 1, 0, 0, 0, 9] \<and> pending (decode_buffer h') = [5, 0]"
proof -
  have "cut_frame [3, 1, 0, 0, 0, 9, 5, 0] = Frame (raw_of (FPing 1 9)) [5, 0]"
    by (simp add: header_len_def payload_len_def size_offset_def raw_of_def be32_bytes_def)
  moreover have "cut_frame [5, 0] = Incomplete" by (simp add: header_len_def)
  ultimately have "stream_frames [3, 1, 0, 0, 0, 9, 5, 0] = [FPing 1 9]"
    and "snd (deframe [3, 1, 0, 0, 0, 9, 5, 0]) = Rest [5, 0]"
    by (simp_all add: stream_frames_def deframe_simps del: cut_frame.simps)
  then show ?thesis
    using receiving_implements_stream [of big_allocator "empty_handler 0 0" "[3, 1, 0, 0, 0, 9, 5, 0]"]
      ample_exists empty_handler_receiver [of 0 0]
    by (auto simp: conforms_def received_def decoder_inv_def wire_def be32_bytes_def)
qed

end
