(* ===== verification/Loqui_Transfer.thy ===== *)
theory Loqui_Transfer
  imports Loqui_Receiving
begin

text \<open>
  From one handler to another. The interface of a stream receiver is the locale
  \<open>stream_receiver\<close>: from it alone follows that the way a stream is cut into chunks does not
  matter. \<open>on_bytes_received\<close> provides it. Together with the write queue and the frames that the
  \<open>send_\<close> methods queue this gives the transfer of whole command sequences.
\<close>

section \<open>What a stream means\<close>

text \<open>The events, the bytes queued in answer and the incomplete rest of an allowed stream.\<close>

definition stream_events :: "byte list \<Rightarrow> (event list \<times> byte list \<times> byte list) option" where
  "stream_events s =
     (case snd (deframe s) of
        Rest r \<Rightarrow>
          (case outcome (stream_frames s) (Rest r) [] of
             Some (Inr evs) \<Rightarrow> Some (evs, concat (List.map wire (replies (stream_frames s))), r)
           | _ \<Rightarrow> None)
      | Bad _ \<Rightarrow> None)"

definition legal :: "frame \<Rightarrow> event \<Rightarrow> bool" where
  "legal f ev \<longleftrightarrow> frame_event f = Some (Inr ev)"

lemma outcome_legal:
  "outcome fs (Rest r) acc = Some (Inr evs) \<longleftrightarrow> (\<exists>new. evs = acc @ new \<and> list_all2 legal fs new)"
proof (induction fs arbitrary: acc)
  case (Cons f fs)
  then show ?case
    by (auto simp: legal_def list_all2_Cons1 split: option.splits sum.splits)
qed auto

lemma replies_legal:
  "list_all2 legal fs evs \<Longrightarrow> replies fs = concat (List.map frame_reply fs)"
  by (induction rule: list_all2_induct) (simp_all add: legal_def)

lemma stream_events_iff:
  "stream_events s = Some (evs, out, r) \<longleftrightarrow>
     snd (deframe s) = Rest r \<and> list_all2 legal (stream_frames s) evs \<and>
     out = concat (List.map wire (concat (List.map frame_reply (stream_frames s))))"
proof -
  have "stream_events s = Some (evs, out, r) \<longleftrightarrow>
     snd (deframe s) = Rest r \<and> outcome (stream_frames s) (Rest r) [] = Some (Inr evs) \<and>
     out = concat (List.map wire (replies (stream_frames s)))"
    by (auto simp: stream_events_def split: stream_end.splits option.splits sum.splits)
  then show ?thesis by (auto simp: outcome_legal replies_legal)
qed

lemma deframe_append_bad:
  "snd (deframe s) = Bad st \<Longrightarrow> snd (deframe (s @ t)) = Bad st"
proof (induction s rule: deframe.induct)
  case (1 s)
  show ?case
  proof (cases "cut_frame s")
    case (Frame raw rest)
    then show ?thesis
      using 1(1) [OF Frame] 1(2) deframe_simps(1) [OF Frame] deframe_simps(1) [OF cut_frame_append [OF Frame]]
      by simp
  qed (use 1(2) in \<open>auto simp: deframe_simps cut_frame_append_bad\<close>)
qed

lemma legal_unique:
  "list_all2 legal fs evs \<Longrightarrow> list_all2 legal fs es \<Longrightarrow> es = evs"
  by (induction arbitrary: es rule: list_all2_induct) (auto simp: list_all2_Cons1 legal_def)

lemma legal_append:
  assumes "list_all2 legal fs evs"
  shows "list_all2 legal (fs @ gs) evs' \<longleftrightarrow> (\<exists>new. evs' = evs @ new \<and> list_all2 legal gs new)"
proof
  assume "list_all2 legal (fs @ gs) evs'"
  then obtain us vs where "evs' = us @ vs" "list_all2 legal fs us" "list_all2 legal gs vs"
    unfolding list_all2_append1 by blast
  then show "\<exists>new. evs' = evs @ new \<and> list_all2 legal gs new"
    using legal_unique [OF assms] by blast
next
  assume "\<exists>new. evs' = evs @ new \<and> list_all2 legal gs new"
  then show "list_all2 legal (fs @ gs) evs'"
    using assms by (blast intro: list_all2_appendI)
qed

lemma stream_events_append:
  assumes "stream_events s = Some (evs, out, r)"
  shows "stream_events (s @ t) =
    map_option (\<lambda>(evs', out', r'). (evs @ evs', out @ out', r')) (stream_events (r @ t))"
proof -
  have s: "snd (deframe s) = Rest r" and l: "list_all2 legal (stream_frames s) evs"
    and out: "out = concat (List.map wire (concat (List.map frame_reply (stream_frames s))))"
    using assms by (simp_all add: stream_events_iff)
  note app = stream_frames_append [OF s, of t]
  have "stream_events (s @ t) = Some (evs', out', r') \<longleftrightarrow>
    (\<exists>e2 o2. stream_events (r @ t) = Some (e2, o2, r') \<and> evs' = evs @ e2 \<and> out' = out @ o2)" for evs' out' r'
    using legal_append [OF l, of "stream_frames (r @ t)" evs']
    by (auto simp: stream_events_iff app out)
  then show ?thesis
    by (cases "stream_events (r @ t)"; cases "stream_events (s @ t)") force+
qed

lemma stream_events_prefix:
  assumes "stream_events (s @ t) = Some res"
  obtains evs out r where "stream_events s = Some (evs, out, r)"
proof (cases "snd (deframe s)")
  case (Bad st)
  obtain evs out r where "res = (evs, out, r)" by (cases res) auto
  then show ?thesis
    using assms deframe_append_bad [OF Bad, of t] by (simp add: stream_events_iff)
next
  case (Rest r)
  obtain evs out r' where "res = (evs, out, r')" by (cases res) auto
  then have "list_all2 legal (stream_frames s @ stream_frames (r @ t)) evs"
    using assms stream_frames_append [OF Rest, of t] by (simp add: stream_events_iff)
  then obtain evs1 where "list_all2 legal (stream_frames s) evs1"
    by (auto simp: list_all2_append1)
  then show ?thesis using that Rest by (auto simp: stream_events_iff)
qed

section \<open>The receiver interface\<close>

locale stream_receiver =
  fixes wf :: "'s \<Rightarrow> bool"
    and buffered :: "'s \<Rightarrow> byte list"
    and answers :: "'s \<Rightarrow> byte list"
    and used :: "'s \<Rightarrow> nat"
    and limit :: nat
    and meaning :: "byte list \<Rightarrow> ('e list \<times> byte list \<times> byte list) option"
    and feed :: "'s \<Rightarrow> byte list \<Rightarrow> ('s \<times> 'e list) option"
  assumes meaning_append: "meaning xs = Some (evs, out, r) \<Longrightarrow>
      meaning (xs @ ys) = map_option (\<lambda>(evs', out', r'). (evs @ evs', out @ out', r')) (meaning (r @ ys))"
    and meaning_prefix: "meaning (xs @ ys) = Some res \<Longrightarrow> \<exists>evs out r. meaning xs = Some (evs, out, r)"
    and meaning_buffered: "wf s \<Longrightarrow> meaning (buffered s) = Some ([], [], buffered s)"
    and feed_meaning: "wf s \<Longrightarrow> used s + length (buffered s @ d) < limit \<Longrightarrow>
      meaning (buffered s @ d) = Some (evs, out, r) \<Longrightarrow>
      \<exists>s'. feed s d = Some (s', evs) \<and> wf s' \<and> buffered s' = r \<and> answers s' = answers s @ out \<and>
        used s' + length r \<le> used s + length (buffered s @ d)"
begin

lemma chunks_do_not_matter:
  assumes "wf s" and "used s + length (buffered s @ concat ds) < limit"
    and "meaning (buffered s @ concat ds) = Some (evs, out, r)"
  shows "\<exists>s'. run_all feed s ds = Some (s', evs) \<and> wf s' \<and> buffered s' = r \<and> answers s' = answers s @ out"
  using assms
proof (induction ds arbitrary: s evs out)
  case Nil
  then show ?case using meaning_buffered [of s] by simp
next
  case (Cons d ds)
  have whole: "meaning ((buffered s @ d) @ concat ds) = Some (evs, out, r)"
    using Cons.prems(3) by simp
  obtain e1 o1 r1 where d: "meaning (buffered s @ d) = Some (e1, o1, r1)"
    using meaning_prefix [OF whole] by blast
  obtain e2 o2 where rest: "meaning (r1 @ concat ds) = Some (e2, o2, r)" "evs = e1 @ e2" "out = o1 @ o2"
    using meaning_append [OF d, of "concat ds"] whole by auto
  obtain s1 where s1: "feed s d = Some (s1, e1)" "wf s1" "buffered s1 = r1" "answers s1 = answers s @ o1"
      "used s1 + length r1 \<le> used s + length (buffered s @ d)"
    using feed_meaning [OF Cons.prems(1) _ d] Cons.prems(2) by auto
  obtain s2 where "run_all feed s1 ds = Some (s2, e2)" "wf s2" "buffered s2 = r" "answers s2 = answers s1 @ o2"
    using Cons.IH [of s1 e2 o2] s1 rest Cons.prems(2) by auto
  then show ?case using s1 rest by simp
qed

end

section \<open>The handler as a receiver\<close>

definition feed_events ::
    "allocator \<Rightarrow> LoquiStreamHandler \<Rightarrow> byte list \<Rightarrow> (LoquiStreamHandler \<times> event list) option" where
  "feed_events alloc h d =
     (case on_bytes_received alloc h (Some d) of
        Some (h', Inr evs) \<Rightarrow> Some (h', evs)
      | _ \<Rightarrow> None)"

text \<open>The receiver's states between two ordinary returns.\<close>

definition receiver_ok :: "LoquiStreamHandler \<Rightarrow> bool" where
  "receiver_ok h \<longleftrightarrow> write_ok h \<and> decoder_ok (decode_buffer h)"

definition write_used :: "LoquiStreamHandler \<Rightarrow> nat" where
  "write_used h = length (buf_bytes (write_buffer h))"

definition receive_limit :: nat where
  "receive_limit = 2 ^ 60"

lemma replies_length:
  "length (concat (List.map wire (concat (List.map frame_reply fs)))) \<le> length (concat (List.map wire fs))"
  by (induction fs) (auto intro: add_mono reply_length)

lemma receive_bytes:
  assumes "ample alloc" and "receiver_ok h"
    and "write_used h + length (pending (decode_buffer h) @ d) < receive_limit"
    and "stream_events (pending (decode_buffer h) @ d) = Some (evs, out, r)"
  obtains h' where "on_bytes_received alloc h (Some d) = Some (h', Inr evs)" and "receiver_ok h'"
    and "pending (decode_buffer h') = r" and "unsent h' = unsent h @ out" and "sh_seq h' = sh_seq h"
    and "write_used h' + length r \<le> write_used h + length (pending (decode_buffer h) @ d)"
    and "write_used h' = write_used h + length out"
proof -
  let ?s = "pending (decode_buffer h) @ d"
  have ok: "write_ok h" "decoder_inv (decode_buffer h)" and dok: "decoder_ok (decode_buffer h) \<or> d \<noteq> []"
    using assms(2) by (simp_all add: receiver_ok_def decoder_inv_def)
  have sz: "unat (of_nat (length d) :: size_t) = length d"
    using assms(3) by (intro unat_of_nat_size) (simp add: receive_limit_def)
  have stop: "snd (deframe ?s) = Rest r" and l: "list_all2 legal (stream_frames ?s) evs"
    and out: "out = concat (List.map wire (concat (List.map frame_reply (stream_frames ?s))))"
    using assms(4) by (simp_all add: stream_events_iff)
  have "conforms h (stream_frames ?s) (Rest r) [] (on_bytes_received alloc h (Some d))"
    using receive_loop_conforms [OF assms(1) ok(2,1) sz _ _ dok, of "stream_frames ?s" "Rest r" "[]"]
      deframe_frames [of ?s] stop assms(3)
    by (simp add: on_bytes_received_def PyBytes_AsStringAndSize_def write_used_def receive_limit_def)
  moreover have "outcome (stream_frames ?s) (Rest r) [] = Some (Inr evs)"
    using l by (simp add: outcome_legal)
  ultimately obtain h' where h': "on_bytes_received alloc h (Some d) = Some (h', Inr evs)" "write_ok h'"
      "sh_seq h' = sh_seq h" "unsent h' = unsent h @ out" "decoder_ok (decode_buffer h')"
      "pending (decode_buffer h') = r" "write_buffer_position h' = write_buffer_position h"
    using replies_legal [OF l] out by (auto simp: conforms_def received_def)
  have "length out + length r \<le> length ?s"
    using stream_split [OF stop] replies_length [of "stream_frames ?s"] out by (metis add_le_mono1 length_append)
  moreover have used: "write_used h' = write_used h + length out"
    using queue_length [OF h'(2)] queue_length [OF ok(1)] h'(4,7) by (simp add: write_used_def)
  ultimately have "write_used h' + length r \<le> write_used h + length ?s" by simp
  then show ?thesis using that [OF h'(1) _ h'(6,4,3) _ used] h'(2,5) by (simp add: receiver_ok_def)
qed

lemma stream_events_pending:
  "receiver_ok h \<Longrightarrow> stream_events (pending (decode_buffer h)) = Some ([], [], pending (decode_buffer h))"
  using pending_incomplete [of "decode_buffer h"]
  by (simp add: stream_events_iff receiver_ok_def deframe_simps stream_frames_def)

lemma big_allocator_ample: "ample big_allocator"
  by (rule ample_exists)

interpretation sr: stream_receiver receiver_ok "\<lambda>h. pending (decode_buffer h)" unsent write_used
    receive_limit stream_events "feed_events big_allocator"
proof unfold_locales
  show "stream_events (xs @ ys) =
      map_option (\<lambda>(evs', out', r'). (evs @ evs', out @ out', r')) (stream_events (r @ ys))"
    if "stream_events xs = Some (evs, out, r)" for xs evs out r ys
    by (rule stream_events_append [OF that])
  show "\<exists>evs out r. stream_events xs = Some (evs, out, r)" if "stream_events (xs @ ys) = Some res" for xs ys res
    using stream_events_prefix [OF that] by blast
  show "stream_events (pending (decode_buffer s)) = Some ([], [], pending (decode_buffer s))"
    if "receiver_ok s" for s
    by (rule stream_events_pending [OF that])
  show "\<exists>s'. feed_events big_allocator s d = Some (s', evs) \<and> receiver_ok s' \<and>
      pending (decode_buffer s') = r \<and> unsent s' = unsent s @ out \<and>
      write_used s' + length r \<le> write_used s + length (pending (decode_buffer s) @ d)"
    if "receiver_ok s" "write_used s + length (pending (decode_buffer s) @ d) < receive_limit"
      "stream_events (pending (decode_buffer s) @ d) = Some (evs, out, r)" for s d evs out r
    by (rule receive_bytes [OF big_allocator_ample that]) (auto simp: feed_events_def)
qed

section \<open>Joining and splitting names\<close>

lemma bytes_split_nonempty: "bytes_split sep xs \<noteq> []"
  by (cases xs) (auto split: list.splits)

lemma bytes_split_plain: "sep \<notin> set xs \<Longrightarrow> bytes_split sep xs = [xs]"
  by (induction xs) auto

lemma bytes_split_append:
  "sep \<notin> set xs \<Longrightarrow> bytes_split sep (xs @ sep # ys) = xs # bytes_split sep ys"
  by (induction xs) auto

lemma split_join:
  assumes "names \<noteq> []" and "\<And>x. x \<in> set names \<Longrightarrow> sep \<notin> set x"
  shows "bytes_split sep (bytes_join sep names) = names"
  using assms by (induction sep names rule: bytes_join.induct) (simp_all add: bytes_split_plain bytes_split_append)

lemma set_bytes_join: "set (bytes_join sep names) \<subseteq> insert sep (\<Union>x \<in> set names. set x)"
  by (induction sep names rule: bytes_join.induct) auto

section \<open>Sending a sequence of commands\<close>

definition send_step ::
    "allocator \<Rightarrow> LoquiStreamHandler \<Rightarrow> command \<Rightarrow> (LoquiStreamHandler \<times> u32 list) option" where
  "send_step alloc h c =
     (case perform alloc h c of
        Some (h', Inr v) \<Rightarrow> Some (h', [v])
      | _ \<Rightarrow> None)"

definition bump :: "u32 \<Rightarrow> u32" where
  "bump s = (if s + 1 \<ge> SEQ_MAX then 0 else s + 1)"

lemma next_seq_bump: "snd (next_seq h) = bump (sh_seq h)" "sh_seq (fst (next_seq h)) = bump (sh_seq h)"
  by (simp_all add: next_seq_def bump_def Let_def)

definition seq_after :: "u32 \<Rightarrow> command \<Rightarrow> u32" where
  "seq_after s c = (if takes_seq c then bump s else s)"

lemma start_state_fields:
  "sh_seq (start_state h c) = seq_after (sh_seq h) c"
  "write_buffer_position (start_state h c) = write_buffer_position h"
  by (simp_all add: start_state_def seq_after_def next_seq_bump) (simp_all add: next_seq_def Let_def)

fun sent_frames :: "u32 \<Rightarrow> command list \<Rightarrow> frame list" where
  "sent_frames s [] = []"
| "sent_frames s (c # cs) = command_frame (bump s) c # sent_frames (seq_after s c) cs"

lemma send_commands:
  assumes "ample alloc" and "write_ok h"
    and "write_used h + length (concat (List.map wire (sent_frames (sh_seq h) cs))) < 2 ^ 60"
  shows "\<exists>h' vs. run_all (send_step alloc) h cs = Some (h', vs) \<and> write_ok h' \<and>
    unsent h' = unsent h @ concat (List.map wire (sent_frames (sh_seq h) cs)) \<and>
    decode_buffer h' = decode_buffer h \<and> length vs = length cs"
  using assms(2,3)
proof (induction cs arbitrary: h)
  case (Cons c cs)
  let ?f = "command_frame (snd (next_seq h)) c"
  have f: "?f = command_frame (bump (sh_seq h)) c" by (simp add: next_seq_bump)
  have no: "\<not> refuses alloc (length (buf_bytes (write_buffer h)) + length (wire ?f))"
    using ample_refuses [OF assms(1)] Cons.prems(2) f by (fastforce simp: max_object_def write_used_def)
  obtain h1 where h1: "perform alloc h c = Some (h1, Inr (command_value h c))" "write_ok h1"
      "unsent h1 = unsent h @ wire ?f" "decode_buffer h1 = decode_buffer h" "sh_seq h1 = seq_after (sh_seq h) c"
      "write_buffer_position h1 = write_buffer_position h"
    using perform_outcome [OF Cons.prems(1) ample_sane [OF assms(1)], of c] no start_state_fields [of h c]
    by (auto simp: send_outcome_def Let_def)
  have "write_used h1 = write_used h + length (wire ?f)"
    using queue_length [OF h1(2)] queue_length [OF Cons.prems(1)] h1(3,6) by (simp add: write_used_def)
  then have "write_used h1 + length (concat (List.map wire (sent_frames (sh_seq h1) cs))) < 2 ^ 60"
    using Cons.prems(2) h1(5) f by simp
  from Cons.IH [OF h1(2) this] show ?case
    using h1 f by (auto simp: send_step_def)
qed simp

section \<open>The events of commands\<close>

text \<open>
  Commands whose frames a peer understands: the payload is within the protocol's limit, and
  the names in a handshake do not contain its separators.
\<close>

definition plain_name :: "byte list \<Rightarrow> bool" where
  "plain_name x \<longleftrightarrow> COMMA \<notin> set x \<and> PIPE \<notin> set x"

fun handshake_ok :: "command \<Rightarrow> bool" where
  "handshake_ok (CmdHello fl encs cmps) \<longleftrightarrow>
     encs \<noteq> [] \<and> cmps \<noteq> [] \<and> list_all plain_name encs \<and> list_all plain_name cmps"
| "handshake_ok (CmdHelloAck fl pint enc cmp) \<longleftrightarrow> PIPE \<notin> set enc \<and> PIPE \<notin> set (opt_bytes cmp)"
| "handshake_ok _ \<longleftrightarrow> True"

definition valid_command :: "command \<Rightarrow> bool" where
  "valid_command c \<longleftrightarrow> length (command_payload c) \<le> max_payload \<and> handshake_ok c"

fun command_event :: "u32 \<Rightarrow> command \<Rightarrow> event" where
  "command_event s (CmdPing fl) = Ping fl s"
| "command_event s (CmdPong fl seq) = Pong fl seq"
| "command_event s (CmdRequest fl d) = Request fl s (opt_payload d)"
| "command_event s (CmdPush fl d) = Push fl (opt_payload d)"
| "command_event s (CmdHello fl encs cmps) = Hello fl LOQUI_VERSION encs cmps"
| "command_event s (CmdHelloAck fl pint enc cmp) = HelloAck fl pint enc (opt_bytes cmp)"
| "command_event s (CmdResponse fl seq d) = Response fl seq (opt_payload d)"
| "command_event s (CmdError fl code seq d) = Error fl code seq (opt_payload (opt_bytes d))"
| "command_event s (CmdGoAway fl code d) = GoAway fl code (opt_payload (opt_bytes d))"

fun command_events :: "u32 \<Rightarrow> command list \<Rightarrow> event list" where
  "command_events s [] = []"
| "command_events s (c # cs) = command_event (bump s) c # command_events (seq_after s c) cs"

lemma no_pipe_join: "list_all plain_name names \<Longrightarrow> PIPE \<notin> set (bytes_join COMMA names)"
  using set_bytes_join [of COMMA names] by (auto simp: list_all_iff plain_name_def PIPE_def COMMA_def)

lemma split_pair_joined:
  "PIPE \<notin> set a \<Longrightarrow> PIPE \<notin> set b \<Longrightarrow> split_pair (opt_payload (a @ PIPE # b)) = Some (Inr (a, b))"
  by (simp add: split_pair_def opt_payload_def bytes_split_append bytes_split_plain)

lemma command_legal:
  assumes "valid_command c"
  shows "legal (command_frame s c) (command_event s c)"
proof -
  have sp: "sent_payload (command_payload c) = command_payload c"
    using assms by (intro sent_payload_small) (simp add: valid_command_def max_payload_def)
  have sj: "bytes_split COMMA (bytes_join COMMA names) = names" if "names \<noteq> []" "list_all plain_name names" for names
    using that by (intro split_join) (auto simp: list_all_iff plain_name_def)
  show ?thesis
    using assms sp
    by (cases c)
      (simp_all add: command_frame_def legal_def valid_command_def split_pair_joined no_pipe_join sj)
qed

lemma commands_legal:
  "list_all valid_command cs \<Longrightarrow> list_all2 legal (sent_frames s cs) (command_events s cs)"
  by (induction cs arbitrary: s) (simp_all add: command_legal)

lemma command_frame_payload:
  "valid_command c \<Longrightarrow> length (frame_payload (command_frame s c)) \<le> max_payload"
  by (cases c) (auto simp: command_frame_def valid_command_def sent_payload_def)

lemma sent_frames_payload:
  "list_all valid_command cs \<Longrightarrow> f \<in> set (sent_frames s cs) \<Longrightarrow> length (frame_payload f) \<le> max_payload"
  by (induction cs arbitrary: s) (auto simp: command_frame_payload)

lemma sent_stream_events:
  assumes "list_all valid_command cs"
  shows "stream_events (concat (List.map wire (sent_frames s cs))) =
    Some (command_events s cs,
      concat (List.map wire (concat (List.map frame_reply (sent_frames s cs)))), [])"
  using stream_frames_wires [of "sent_frames s cs", OF sent_frames_payload [OF assms]]
    commands_legal [OF assms, of s]
  by (simp add: stream_events_iff)

section \<open>Properties\<close>


lemma empty_receiver_ok [simp]: "room < 2 ^ 62 \<Longrightarrow> receiver_ok (empty_handler room s)"
  by (simp add: receiver_ok_def empty_handler_receiver)


text \<open>
  \<open>bytes.split\<close> undoes \<open>bytes.join\<close>: the encodings and compressors of a
  handshake come out as they went in, for every non-empty list of names without the separator.
\<close>

theorem names_round_trip:
  assumes "names \<noteq> []" and "\<And>x. x \<in> set names \<Longrightarrow> sep \<notin> set x"
  shows "bytes_split sep (bytes_join sep names) = names"
  using assms by (rule split_join)

lemma names_round_trip_witness: "bytes_split COMMA (bytes_join COMMA [[65], [], [66, 67]]) = [[65], [], [66, 67]]"
  by (rule names_round_trip) (auto simp: COMMA_def)

text \<open>
  C4: Transfer from handler to handler. A sender performs any sequence of commands with
  payloads up to 50 MiB and well-formed handshakes; its write buffer is drained to the socket in pieces of
  any size; the other side receives those bytes cut into chunks in any way. Then the receiver's events
  are exactly the sender's commands, in order, with their flags, numbers, codes and data, every
  frame has been consumed completely, and a pong is queued for each ping.
\<close>

theorem commands_arrive:
  assumes "write_ok s" and "unsent s = []" and "receiver_ok r" and "pending (decode_buffer r) = []"
    and "list_all valid_command cs"
    and "write_used s + write_used r + length (concat (List.map wire (sent_frames (sh_seq s) cs))) < 2 ^ 60"
    and "run_all (send_step big_allocator) s cs = Some (s1, vs)"
    and "pump (peek_bytes big_allocator) (discard_bytes big_allocator) s1 ios = (out, s2)" and "unsent s2 = []"
    and "concat chunks = out"
  shows "\<exists>r'. run_all (feed_events big_allocator) r chunks = Some (r', command_events (sh_seq s) cs) \<and>
    pending (decode_buffer r') = [] \<and>
    unsent r' = unsent r @ concat (List.map wire (concat (List.map frame_reply (sent_frames (sh_seq s) cs))))"
proof -
  let ?bytes = "concat (List.map wire (sent_frames (sh_seq s) cs))"
  have s1: "write_ok s1" "unsent s1 = ?bytes"
    using send_commands [OF big_allocator_ample assms(1), of cs] assms(2,6,7) by auto
  have "out = ?bytes"
    using wq.pump_in_order [OF s1(1) assms(8)] s1(2) assms(9) by simp
  then show ?thesis
    using sr.chunks_do_not_matter [OF assms(3), of chunks] sent_stream_events [OF assms(5), of "sh_seq s"]
      assms(4,6,10) by (auto simp: receive_limit_def)
qed

text \<open>A ping, drained in one piece and received in two.\<close>

lemma commands_arrive_witness:
  "\<exists>s1 s2 r' vs. run_all (send_step big_allocator) (empty_handler 0 4) [CmdPing 1] = Some (s1, vs) \<and>
    pump (peek_bytes big_allocator) (discard_bytes big_allocator) s1 [(9, 9)] = ([3, 1, 0, 0, 0, 5], s2) \<and>
    run_all (feed_events big_allocator) (empty_handler 0 0) [[3, 1, 0], [0, 0, 5]] = Some (r', [Ping 1 5]) \<and>
    unsent r' = [4, 1, 0, 0, 0, 5]"
proof -
  let ?s = "empty_handler 0 4" and ?bytes = "[3, 1, 0, 0, 0, 5] :: byte list"
  have b: "bump 4 = 5" by (simp add: bump_def SEQ_MAX_def)
  have fr: "sent_frames 4 [CmdPing 1] = [FPing 1 5]" "wire (FPing 1 5) = ?bytes" "wire (FPong 1 5) = 4 # tl ?bytes"
    by (simp_all add: b command_frame_def wire_def be32_bytes_def)
  obtain s1 vs where s1: "run_all (send_step big_allocator) ?s [CmdPing 1] = Some (s1, vs)" "write_ok s1"
      "unsent s1 = ?bytes"
    using send_commands [OF big_allocator_ample, of ?s "[CmdPing 1]"] fr
    by (auto simp: write_used_def simp del: run_all.simps sent_frames.simps)
  define s2 where "s2 = discard_bytes big_allocator s1 6"
  have p: "pump (peek_bytes big_allocator) (discard_bytes big_allocator) s1 [(9, 9)] = (?bytes, s2)"
    using peek_bytes_front [OF s1(2), of big_allocator 9] s1(3) by (simp add: s2_def)
  have "unsent s2 = []"
    using discard_bytes_front(1) [OF s1(2), of big_allocator 6] s1(3) by (simp add: s2_def)
  then show ?thesis
    using commands_arrive [OF _ _ _ _ _ _ s1(1) p, of "empty_handler 0 0" "[[3, 1, 0], [0, 0, 5]]"] s1(1) p
    by (auto simp: empty_handler_receiver valid_command_def max_payload_def write_used_def fr b
        simp del: run_all.simps pump.simps sent_frames.simps)
qed

end
