(* ===== verification/Loqui_Handler.thy ===== *)
theory Loqui_Handler
  imports Loqui_Transfer
begin

text \<open>
  The handler as a state machine: every call a client can make is a step, under any allocator
  and with any arguments, and the invariant holds in every state that is reachable from a new
  handler. The second part settles what can go wrong: which calls are undefined, what they raise, and
  which states they leave.
\<close>

section \<open>Steps and reachable states\<close>

datatype call =
    Send command
  | GetBytes size_t bool
  | ConsumeBytes size_t
  | BytesReceived "byte list"

text \<open>One call, its result forgotten. A \<open>bytes\<close> object is shorter than \<open>2^63\<close>.\<close>

inductive handler_step :: "LoquiStreamHandler \<Rightarrow> call \<Rightarrow> LoquiStreamHandler \<Rightarrow> bool" where
  send: "alloc_sane alloc \<Longrightarrow> perform alloc h c = Some (h', r) \<Longrightarrow> handler_step h (Send c) h'"
| get: "write_buffer_get_bytes alloc h n consume = Some (h', bs) \<Longrightarrow> handler_step h (GetBytes n consume) h'"
| drop_bytes: "write_buffer_consume_bytes alloc h n = Some (h', left) \<Longrightarrow> handler_step h (ConsumeBytes n) h'"
| receive: "alloc_sane alloc \<Longrightarrow> length d < 2 ^ 63 \<Longrightarrow> on_bytes_received alloc h (Some d) = Some (h', res) \<Longrightarrow>
    handler_step h (BytesReceived d) h'"

inductive_cases handler_step_cases:
  "handler_step h (Send c) h'" "handler_step h (GetBytes n b) h'" "handler_step h (ConsumeBytes n) h'"
  "handler_step h (BytesReceived d) h'"

inductive reachable :: "LoquiStreamHandler \<Rightarrow> bool" where
  new: "reachable (LoquiStreamHandler_cinit alloc)"
| step: "reachable h \<Longrightarrow> handler_step h c h' \<Longrightarrow> reachable h'"

lemma cinit_inv:
  "handler_inv (LoquiStreamHandler_cinit alloc)" "receiver_ok (LoquiStreamHandler_cinit alloc)"
  "unsent (LoquiStreamHandler_cinit alloc) = []" "pending (decode_buffer (LoquiStreamHandler_cinit alloc)) = []"
  "sh_seq (LoquiStreamHandler_cinit alloc) = 0" "write_used (LoquiStreamHandler_cinit alloc) = 0"
proof -
  have b: "buffer_ok (reset_buffer alloc zero_buffer)" "buf_length (reset_buffer alloc zero_buffer) = 0"
    using reset_buffer_ok [OF zero_buffer_ok] by (simp_all add: reset_buffer_def zero_buffer_def)
  show "handler_inv (LoquiStreamHandler_cinit alloc)" "receiver_ok (LoquiStreamHandler_cinit alloc)"
    using b by (simp_all add: LoquiStreamHandler_cinit_def handler_inv_def receiver_ok_def write_ok_def
        seq_ok_def SEQ_MAX_def decoder_inv_def decoder_ok_def)
  show "unsent (LoquiStreamHandler_cinit alloc) = []" "pending (decode_buffer (LoquiStreamHandler_cinit alloc)) = []"
    "sh_seq (LoquiStreamHandler_cinit alloc) = 0" "write_used (LoquiStreamHandler_cinit alloc) = 0"
    using b by (simp_all add: LoquiStreamHandler_cinit_def unsent_def pending_def write_used_def)
qed

lemma perform_inv:
  assumes "handler_inv h" and "alloc_sane alloc"
  obtains h' r where "perform alloc h c = Some (h', r)" and "handler_inv h'"
proof -
  have w: "write_ok h" and s: "seq_ok h" and d: "decoder_inv (decode_buffer h)"
    using assms(1) by (simp_all add: handler_inv_def)
  have "seq_ok (start_state h c)"
    using s next_seq_value(3) [OF s] by (simp add: start_state_def)
  then show ?thesis
    by (cases rule: perform_cases [OF w assms(2), of c])
      (use that d in \<open>auto simp: handler_inv_def seq_ok_def\<close>)
qed

lemma received_safe:
  assumes "alloc_sane alloc" and "handler_inv h" and "length d < 2 ^ 63"
  shows "safe_result h (pending (decode_buffer h) @ d) (on_bytes_received alloc h (Some d))"
proof -
  have "unat (of_nat (length d) :: size_t) = length d"
    using assms(3) by (intro unat_of_nat_size) simp
  then show ?thesis
    using receive_loop_safe [OF assms(1,2)]
    by (simp add: on_bytes_received_def PyBytes_AsStringAndSize_def)
qed

lemma handler_step_inv:
  assumes "handler_step h c h'" and inv: "handler_inv h"
  shows "handler_inv h'"
proof -
  have w: "write_ok h" using inv by (simp add: handler_inv_def)
  from assms(1) show ?thesis
  proof cases
    case (send alloc c r)
    then show ?thesis using perform_inv [OF inv send(2), of c] by auto
  next
    case (get alloc n consume bs)
    show ?thesis
      by (rule get_bytes_front [OF w, of alloc n consume]) (use inv get in \<open>simp add: handler_inv_def seq_ok_def\<close>)
  next
    case (drop_bytes alloc n left)
    show ?thesis
      by (rule consume_bytes_drops [OF w, of alloc n])
        (use inv drop_bytes in \<open>simp add: handler_inv_def seq_ok_def\<close>)
  next
    case (receive alloc d res)
    then show ?thesis using received_safe [OF receive(2) inv receive(3)] by (simp add: safe_result_def)
  qed
qed

lemma reachable_handler_inv: "reachable h \<Longrightarrow> handler_inv h"
  by (induction rule: reachable.induct) (auto intro: cinit_inv handler_step_inv)

section \<open>Which frames have no event\<close>

lemma split_pair_none: "split_pair (opt_payload p) = None \<longleftrightarrow> p = []"
  by (auto simp: split_pair_def opt_payload_def split: list.splits)

lemma undefined_event:
  "frame_event f = None \<longleftrightarrow> (\<exists>fl v. f = FHello fl v []) \<or> (\<exists>fl pint. f = FHelloAck fl pint [])"
  by (cases f) (auto simp: split_pair_none)

lemma count_split: "length (bytes_split sep xs) = Suc (count_list xs sep)"
proof (induction xs)
  case (Cons x xs)
  then show ?case by (cases "bytes_split sep xs") auto
qed simp

lemma split_pair_error:
  "split_pair (opt_payload p) = Some (Inl ValueError) \<longleftrightarrow> p \<noteq> [] \<and> count_list p PIPE \<noteq> 1"
  using count_split [of PIPE p]
  by (auto simp: split_pair_def opt_payload_def split: list.splits)

text \<open>A frame raises exactly when it is a handshake whose payload does not have one separator.\<close>

lemma raising_event:
  "frame_event f = Some (Inl e) \<longleftrightarrow>
     e = ValueError \<and> frame_payload f \<noteq> [] \<and> count_list (frame_payload f) PIPE \<noteq> 1 \<and>
     (frame_opcode f = LOQUI_OP_HELLO \<or> frame_opcode f = LOQUI_OP_HELLO_ACK)"
proof -
  have "map_option (map_sum id g) (split_pair q) = Some (Inl e) \<longleftrightarrow> split_pair q = Some (Inl e)"
    for q and g :: "byte list \<times> byte list \<Rightarrow> event"
    by (cases "split_pair q") (auto simp: map_sum_def split: sum.splits)
  moreover have "split_pair q = Some (Inl e) \<Longrightarrow> e = ValueError" for q
    by (auto simp: split_pair_def split: option.splits list.splits)
  ultimately show ?thesis
    using split_pair_error [of "frame_payload f"]
    by (cases f) (auto dest: sym)
qed

section \<open>A frame that is still held\<close>

text \<open>
  A frame whose consumption raised stays in the decode buffer, complete. Every later chunk
  meets it first.
\<close>

lemma held_frame_raises_again:
  assumes "frame_held (decode_buffer h) (raw_of f)" and "frame_event f = Some (Inl e)" and "write_ok h"
    and "alloc_sane alloc" and "d \<noteq> []" and "length d < 2 ^ 63"
  shows "on_bytes_received alloc h (Some d) = Some (h, Inl e)"
proof -
  have "unat (of_nat (length d) :: size_t) = length d"
    using assms(6) by (intro unat_of_nat_size) simp
  then have pos: "0 < (of_nat (length d) :: size_t)"
    using assms(5) by (simp add: word_less_nat_alt)
  have keep: "h\<lparr>decode_buffer := decode_buffer h\<rparr> = h" by simp
  have "consume_decode_buffer alloc h = Some (h, Inl e)"
    using assms(1,3,4) by (cases rule: consume_cases) (use assms(2) in \<open>auto dest: frame_event_reply\<close>)
  then show ?thesis
    using pos held_pending(3) [OF assms(1)] keep
    by (simp add: on_bytes_received_def PyBytes_AsStringAndSize_def receive_loop.simps [where sz = "of_nat (length d)"]
        loqui_decoder_read_data_def)
qed

section \<open>Properties\<close>

text \<open>
  The handler's invariant holds in every reachable state: after any sequence of sends,
  reads, drains and received chunks, with any arguments, also those that raised and whatever
  allocations were refused, both buffers are consistent, the write position is within the buffer, the
  sequence number is below its bound, and the decoder is in order or holds one complete frame.
\<close>

theorem reachable_states_ok:
  assumes "reachable h"
  shows "handler_inv h"
  using assms by (rule reachable_handler_inv)

lemma new_reachable: "reachable (LoquiStreamHandler_cinit alloc)"
  by (rule reachable.new)

lemma reachable_states_ok_witness:
  "\<exists>h r. perform big_allocator (LoquiStreamHandler_cinit big_allocator) (CmdPush 0 [1, 2]) = Some (h, r) \<and> handler_inv h"
proof -
  obtain h r where p: "perform big_allocator (LoquiStreamHandler_cinit big_allocator) (CmdPush 0 [1, 2]) = Some (h, r)"
    by (rule perform_inv [OF cinit_inv(1) big_allocator_sane])
  then have "reachable h"
    by (intro reachable.step [OF reachable.new handler_step.send [OF big_allocator_sane]])
  then show ?thesis using p reachable_states_ok by blast
qed

text \<open>
  Sending and draining are memory safe: in every reachable state no \<open>send_\<close> call and
  no read or drain of the write buffer has undefined behaviour, whatever its arguments and whatever
  allocations fail.
\<close>

theorem sending_memory_safe:
  assumes "reachable h" and "alloc_sane alloc"
  shows "perform alloc h c \<noteq> None \<and> write_buffer_get_bytes alloc h n b \<noteq> None \<and>
    write_buffer_consume_bytes alloc h n \<noteq> None"
proof -
  have inv: "handler_inv h" by (rule reachable_handler_inv [OF assms(1)])
  then have w: "write_ok h" by (simp add: handler_inv_def)
  have "perform alloc h c \<noteq> None" by (rule perform_inv [OF inv assms(2), of c]) simp
  moreover have "write_buffer_get_bytes alloc h n b \<noteq> None" by (rule get_bytes_front [OF w, of alloc n b]) simp
  moreover have "write_buffer_consume_bytes alloc h n \<noteq> None" by (rule consume_bytes_drops [OF w, of alloc n]) simp
  ultimately show ?thesis by blast
qed

lemma sending_memory_safe_witness:
  "perform big_allocator (LoquiStreamHandler_cinit (\<lambda>_. False)) (CmdGoAway 0 3 None) \<noteq> None"
  using sending_memory_safe [OF new_reachable big_allocator_sane] by blast

text \<open>
  C21: Receiving is memory safe except for one case. In every reachable state and for every
  chunk, whatever allocations fail, either the call returns or raises \<open>ValueError\<close>,
  \<open>MemoryError\<close> or \<open>LoquiDecoderError\<close> (never anything else), or the stream contains a HELLO or
  HELLO_ACK frame with an empty payload.
\<close>

theorem receiving_memory_safe:
  assumes "reachable h" and "alloc_sane alloc" and "length d < 2 ^ 63"
  shows "(\<exists>h' res. on_bytes_received alloc h (Some d) = Some (h', res) \<and> (\<forall>e. res = Inl e \<longrightarrow> receive_error e)) \<or>
    (\<exists>f \<in> set (stream_frames (pending (decode_buffer h) @ d)).
       (\<exists>fl v. f = FHello fl v []) \<or> (\<exists>fl pint. f = FHelloAck fl pint []))"
proof -
  have safe: "safe_result h (pending (decode_buffer h) @ d) (on_bytes_received alloc h (Some d))"
    by (rule received_safe [OF assms(2) reachable_handler_inv [OF assms(1)] assms(3)])
  show ?thesis
  proof (cases "on_bytes_received alloc h (Some d)")
    case None
    then obtain f where "raw_of f \<in> set (fst (deframe (pending (decode_buffer h) @ d)))" "frame_event f = None"
      using safe by (auto simp: safe_result_def)
    then have "f \<in> set (stream_frames (pending (decode_buffer h) @ d))"
      unfolding stream_frames_def set_map by (metis frame_of_raw imageI)
    moreover have "(\<exists>fl v. f = FHello fl v []) \<or> (\<exists>fl pint. f = FHelloAck fl pint [])"
      using \<open>frame_event f = None\<close> by (simp only: undefined_event)
    ultimately show ?thesis by blast
  next
    case (Some hr)
    then show ?thesis using safe by (cases hr) (auto simp: safe_result_def)
  qed
qed

lemma receiving_memory_safe_witness:
  "\<exists>h' res. on_bytes_received (\<lambda>_. False) (LoquiStreamHandler_cinit (\<lambda>_. False)) (Some [9, 9]) = Some (h', res) \<and>
    (\<forall>e. res = Inl e \<longrightarrow> receive_error e)"
proof -
  have "stream_frames [9, 9] = []" by (simp add: stream_frames_def deframe_simps header_len_def)
  then show ?thesis
    using receiving_memory_safe [OF new_reachable, of "\<lambda>_. False" "[9, 9]" "\<lambda>_. False"]
    by (simp add: alloc_sane_def cinit_inv)
qed

text \<open>
  The one case is real. A peer that sends a HELLO or HELLO_ACK frame with an empty payload
  as its first frame makes the handler call the C function of \<open>bytes.split\<close> on \<open>None\<close>
  without a type check, which is undefined behaviour.
\<close>

theorem empty_handshake_undefined:
  assumes "ample alloc" and "receiver_ok h" and "pending (decode_buffer h) = []"
    and "write_used h < 2 ^ 59" and "f = FHello fl v [] \<or> f = FHelloAck fl pint []"
  shows "on_bytes_received alloc h (Some (wire f)) = None"
proof -
  have len: "length (wire f) < 2 ^ 59" "wire f \<noteq> []" "length (frame_payload f) \<le> max_payload"
    using assms(5) by (auto simp: wire_def size_field_def)
  have "stream_frames (wire f) = [f]"
    using stream_frames_wires(1) [of "[f]"] len by simp
  moreover have "frame_event f = None" using assms(5) by (auto simp only: undefined_event)
  moreover have "length (buf_bytes (write_buffer h)) + length (wire f) < 2 ^ 60"
    using assms(4) len by (simp add: write_used_def)
  moreover have "write_ok h" "decoder_inv (decode_buffer h)" using assms(2) by (simp_all add: receiver_ok_def decoder_inv_def)
  ultimately show ?thesis
    using receive_conforms [OF assms(1), of h "wire f"] len(2) assms(3) by (simp add: conforms_def Let_def)
qed

lemma empty_handshake_undefined_witness:
  "on_bytes_received big_allocator (empty_handler 0 0) (Some [1, 0, 1, 0, 0, 0, 0]) = None"
  using empty_handshake_undefined [of big_allocator "empty_handler 0 0" "FHello 0 1 []" 0 1 0] ample_exists
  by (simp add: empty_handler_receiver write_used_def wire_def size_field_def be32_bytes_def)

text \<open>
  C40: A malformed handshake poisons the handler. A HELLO or HELLO_ACK frame whose non-empty payload
  does not have exactly one separator raises \<open>ValueError\<close>, and because the decode buffer is only
  reset after success, the frame stays held: every later non-empty chunk raises \<open>ValueError\<close>
  again, is dropped, and changes nothing.
\<close>

theorem malformed_handshake_poisons:
  assumes "ample alloc" and "receiver_ok h" and "pending (decode_buffer h) = []" and "write_used h < 2 ^ 59"
    and "frame_opcode f = LOQUI_OP_HELLO \<or> frame_opcode f = LOQUI_OP_HELLO_ACK"
    and "frame_payload f \<noteq> []" and "count_list (frame_payload f) PIPE \<noteq> 1"
    and "length (frame_payload f) \<le> max_payload"
  shows "\<exists>h'. on_bytes_received alloc h (Some (wire f)) = Some (h', Inl ValueError) \<and>
    (\<forall>alloc' d. alloc_sane alloc' \<and> d \<noteq> [] \<and> length d < 2 ^ 63 \<longrightarrow>
       on_bytes_received alloc' h' (Some d) = Some (h', Inl ValueError))"
proof -
  have ev: "frame_event f = Some (Inl ValueError)" unfolding raising_event using assms(5-7) by blast
  have len: "length (wire f) < 2 ^ 59" "wire f \<noteq> []"
    using assms(8) by (cases f; simp add: wire_def size_field_def max_payload_def)+
  have "stream_frames (wire f) = [f]"
    using stream_frames_wires(1) [of "[f]"] assms(8) by simp
  moreover have "length (buf_bytes (write_buffer h)) + length (wire f) < 2 ^ 60"
    using assms(4) len by (simp add: write_used_def)
  moreover have "write_ok h" "decoder_inv (decode_buffer h)" using assms(2) by (simp_all add: receiver_ok_def decoder_inv_def)
  ultimately obtain h' where "on_bytes_received alloc h (Some (wire f)) = Some (h', Inl ValueError)"
      "write_ok h'" "frame_held (decode_buffer h') (raw_of f)"
    using receive_conforms [OF assms(1), of h "wire f"] len(2) assms(3) ev
    by (auto simp: conforms_def received_def Let_def)
  then show ?thesis using held_frame_raises_again [OF _ ev] by blast
qed

lemma malformed_handshake_poisons_witness:
  "\<exists>h'. on_bytes_received big_allocator (empty_handler 0 0) (Some (wire (FHello 0 1 [65]))) = Some (h', Inl ValueError) \<and>
    on_bytes_received big_allocator h' (Some [4, 0, 0, 0, 0, 1]) = Some (h', Inl ValueError)"
  using malformed_handshake_poisons [of big_allocator "empty_handler 0 0" "FHello 0 1 [65]"] ample_exists big_allocator_sane
  by (fastforce simp: empty_handler_receiver write_used_def PIPE_def max_payload_def)

end
