(* ===== verification/Loqui_Memory.thy ===== *)
theory Loqui_Memory
  imports Loqui_Handler
begin

text \<open>
  How much memory a peer can make the handler hold for receiving. The decode buffer is grown
  for a payload only after the size check, and given back after a large frame, so its allocation never
  exceeds the largest frame's header and payload, in every reachable state and whatever the peer sends.
\<close>

section \<open>The allocation of the decode buffer\<close>

definition decode_bound :: nat where
  "decode_bound = max_payload + 11"

definition small_alloc :: "loqui_decode_buffer_t \<Rightarrow> bool" where
  "small_alloc pk \<longleftrightarrow> unat (allocated_size (loqui_buffer pk)) \<le> decode_bound"

lemma decode_bound_val: "decode_bound = 52428811"
  by (simp add: decode_bound_def max_payload_def)

text \<open>A write that fits keeps the allocation, and a short one at most makes it twice as long.\<close>

lemma write_alloc:
  assumes "loqui_buffer_write alloc b bytes l = Some (rv, b')"
  shows "allocated_size b' = allocated_size b \<or>
    allocated_size b < buf_length b + l \<and> allocated_size b' = (buf_length b + l) * 2"
  using assms
  by (auto simp: loqui_buffer_write_def Let_def split: if_splits option.splits)

lemma write_alloc_fits:
  assumes "loqui_buffer_write alloc b bytes l = Some (rv, b')"
    and "unat (buf_length b) + unat l \<le> unat (allocated_size b)"
  shows "allocated_size b' = allocated_size b"
  using write_alloc [OF assms(1)] unat_add_le_size [of "buf_length b" l] assms(2)
  by (auto simp: word_less_nat_alt)

lemma write_length:
  assumes "loqui_buffer_write alloc b bytes l = Some (rv, b')" and "\<not> rv < 0"
  shows "buf_length b' = buf_length b + l"
  using assms by (auto simp: loqui_buffer_write_def Let_def split: if_splits option.splits)

lemma ensure_alloc:
  assumes "loqui_buffer_ensure_size alloc b n = Some (rv, b')"
  shows "buf_length b' = buf_length b" and "allocated_size b' = allocated_size b \<or> allocated_size b' = n"
    and "\<not> rv < 0 \<Longrightarrow> n \<le> allocated_size b'"
  using assms by (auto simp: loqui_buffer_ensure_size_def not_less split: if_splits option.splits)

section \<open>Decoding keeps it small\<close>

lemma read_status_alloc:
  "loqui_read_status pk c = Some (st, pk', c') \<Longrightarrow> small_alloc pk \<Longrightarrow> small_alloc pk'"
  by (auto simp: loqui_read_status_def small_alloc_def split: if_splits)

lemma read_payload_alloc:
  assumes "loqui_read_payload alloc pk sz data c = Some (st, pk', c')" and "small_alloc pk"
    and "unat (buf_length (loqui_buffer pk)) + unat (data_size_remaining pk) \<le> unat (allocated_size (loqui_buffer pk))"
  shows "small_alloc pk'"
proof -
  let ?k = "if data_size_remaining pk > sz then sz else data_size_remaining pk"
  have k: "unat (buf_length (loqui_buffer pk)) + unat ?k \<le> unat (allocated_size (loqui_buffer pk))"
    using assms(3) by (auto simp: word_less_nat_alt)
  define l where "l = ?k"
  consider "loqui_read_status pk c = Some (st, pk', c')"
    | rv b where "loqui_buffer_write alloc (loqui_buffer pk) data l = Some (rv, b)"
        and "pk' = pk\<lparr>loqui_buffer := b\<rparr> \<or>
          loqui_read_status (pk\<lparr>loqui_buffer := b, data_size_remaining := data_size_remaining pk - l\<rparr>) (c + l)
            = Some (st, pk', c')"
    using assms(1) unfolding loqui_read_payload_def Let_def l_def [symmetric]
    by (auto split: if_split_asm option.splits)
  then show ?thesis
  proof cases
    case 1
    then show ?thesis using read_status_alloc assms(2) by blast
  next
    case 2
    then have "allocated_size b = allocated_size (loqui_buffer pk)"
      using write_alloc_fits [OF 2(1)] k l_def by simp
    then show ?thesis
      using 2(2) assms(2) by (auto simp: small_alloc_def dest!: read_status_alloc [unfolded small_alloc_def])
  qed
qed

lemma read_header_end_alloc:
  assumes "loqui_read_header_end alloc pk sz data c = Some (st, pk', c')" and "small_alloc pk"
    and "buf_length (loqui_buffer pk) = header_size pk" and "unat (header_size pk) \<le> 11"
    and "buffer_ok (loqui_buffer pk)"
  shows "small_alloc pk'"
proof -
  obtain n where n: "loqui_get_data_payload_size pk = Some n"
    using assms(1) by (auto simp: loqui_read_header_end_def split: option.splits)
  let ?pk = "pk\<lparr>data_size_remaining := n\<rparr>"
  consider (big) "pk' = ?pk"
    | (none) "n = 0" "loqui_read_payload alloc ?pk sz data c = Some (st, pk', c')"
    | (grow) rv b where "n \<le> LOQUI_DATA_SIZE_MAX"
        "loqui_buffer_ensure_size alloc (loqui_buffer pk) (header_size pk + n) = Some (rv, b)"
        "rv < 0 \<and> pk' = ?pk\<lparr>loqui_buffer := b\<rparr> \<or>
         \<not> rv < 0 \<and> loqui_read_payload alloc (?pk\<lparr>loqui_buffer := b\<rparr>) sz data c = Some (st, pk', c')"
    using assms(1) n by (auto simp: loqui_read_header_end_def Let_def not_less split: if_split_asm option.splits)
  then show ?thesis
  proof cases
    case big
    then show ?thesis using assms(2) by (simp add: small_alloc_def)
  next
    case none
    then show ?thesis
      using read_payload_alloc [OF none(2)] assms(2,5) by (simp add: small_alloc_def buffer_ok_def)
  next
    case grow
    have n_le: "unat n \<le> max_payload" using grow(1) by (simp add: word_le_nat_alt max_payload_def)
    then have sum: "unat (header_size pk + n) = unat (header_size pk) + unat n"
      using assms(4) by (intro unat_add_small) (simp add: max_payload_def)
    have b: "unat (allocated_size b) \<le> decode_bound"
      using ensure_alloc(2) [OF grow(2)] sum n_le assms(2,4) by (auto simp: small_alloc_def decode_bound_def)
    have "unat (buf_length b) + unat n \<le> unat (allocated_size b)" if "\<not> rv < 0"
      using ensure_alloc(1) [OF grow(2)] ensure_alloc(3) [OF grow(2) that] assms(3) sum by (simp add: word_le_nat_alt)
    then show ?thesis
      using grow(3) b read_payload_alloc [of alloc "?pk\<lparr>loqui_buffer := b\<rparr>" sz data c st pk' c']
      by (auto simp: small_alloc_def)
  qed
qed

lemma write_buffer_ok:
  assumes "loqui_buffer_write alloc b bytes l = Some (rv, b')" and "buffer_ok b" and "alloc_sane alloc"
    and "unat l \<le> length bytes" and "unat l \<le> 2 ^ 32"
  shows "buffer_ok b'"
  using buffer_write_cases [OF assms(2-5)] assms(1,2) by (metis option.inject prod.inject)

lemma read_append_alloc:
  assumes r: "loqui_read_append_data alloc pk sz data c = Some (st, pk', c')" and small: "small_alloc pk"
    and frame: "in_frame pk"
    and at: "length (buf_bytes (loqui_buffer pk)) < header_len (opcode pk) \<or> mid_payload pk"
    and sane: "alloc_sane alloc" and sz: "unat sz = length data"
  shows "small_alloc pk'"
proof (cases "buf_length (loqui_buffer pk) < header_size pk")
  case False
  have op: "opcode pk \<noteq> 0" and ok: "buffer_ok (loqui_buffer pk)" and hs: "unat (header_size pk) = header_len (opcode pk)"
    using frame by (simp_all add: in_frame_def)
  have "mid_payload pk"
    using False at buffer_ok_bytes [OF ok] hs by (auto simp: word_less_nat_alt)
  then have "unat (buf_length (loqui_buffer pk)) + unat (data_size_remaining pk) \<le> unat (allocated_size (loqui_buffer pk))"
    using buffer_ok_bytes [OF ok] by (simp add: mid_payload_def Let_def)
  then show ?thesis
    using read_payload_alloc [OF _ small] r False op by (simp add: loqui_read_append_data_def)
next
  case True
  have op: "opcode pk \<noteq> 0" and ok: "buffer_ok (loqui_buffer pk)" and h11: "unat (header_size pk) \<le> 11"
    using frame header_len_pos_le by (simp_all add: in_frame_def)
  define k where "k = (if header_size pk - buf_length (loqui_buffer pk) > sz then sz
    else header_size pk - buf_length (loqui_buffer pk))"
  have k: "k \<le> header_size pk - buf_length (loqui_buffer pk)" "unat k \<le> length data"
    using sz by (auto simp: k_def not_less word_le_nat_alt word_less_nat_alt)
  have sum: "buf_length (loqui_buffer pk) + k \<le> header_size pk"
    using word_le_plus_diff(1) [OF _ k(1)] True by simp
  have "unat k \<le> 11"
    using k(1) h11 unat_sub [of "buf_length (loqui_buffer pk)" "header_size pk"] True
    by (simp add: word_le_nat_alt word_less_nat_alt)
  obtain rv b where w: "loqui_buffer_write alloc (loqui_buffer pk) data k = Some (rv, b)"
    and rest: "rv < 0 \<and> pk' = pk\<lparr>loqui_buffer := b\<rparr> \<or>
      \<not> rv < 0 \<and> buf_length b < header_size pk \<and> pk' = pk\<lparr>loqui_buffer := b\<rparr> \<or>
      \<not> rv < 0 \<and> \<not> buf_length b < header_size pk \<and>
        loqui_read_header_end alloc (pk\<lparr>loqui_buffer := b\<rparr>) (sz - k) (drop (unat k) data) (c + k) = Some (st, pk', c')"
    using r op True unfolding loqui_read_append_data_def Let_def k_def [symmetric]
    by (auto split: if_split_asm option.splits)
  have b_ok: "buffer_ok b"
    using write_buffer_ok [OF w ok sane k(2)] \<open>unat k \<le> 11\<close> by simp
  have "unat (allocated_size b) \<le> decode_bound"
  proof -
    define s where "s = buf_length (loqui_buffer pk) + k"
    have "unat s \<le> 11" using sum h11 unfolding s_def [symmetric] by (simp add: word_le_nat_alt)
    then have "unat (s * 2) \<le> 22" by (simp add: unat_double_small)
    then have "unat ((buf_length (loqui_buffer pk) + k) * 2) \<le> 22" by (simp only: s_def)
    then show ?thesis
      using write_alloc [OF w] small by (auto simp: small_alloc_def decode_bound_val)
  qed
  then have b_small: "small_alloc (pk\<lparr>loqui_buffer := b\<rparr>)" by (simp add: small_alloc_def)
  show ?thesis
    using rest
  proof (elim disjE conjE)
    assume neg: "\<not> rv < 0" "\<not> buf_length b < header_size pk"
      and r: "loqui_read_header_end alloc (pk\<lparr>loqui_buffer := b\<rparr>) (sz - k) (drop (unat k) data) (c + k) = Some (st, pk', c')"
    have "buf_length b = header_size pk" using write_length [OF w neg(1)] neg(2) sum by simp
    then show ?thesis using read_header_end_alloc [OF r b_small] h11 b_ok by simp
  qed (use b_small in simp_all)
qed

lemma read_data_alloc:
  assumes r: "loqui_decoder_read_data alloc pk sz data 0 = Some (st, pk', c')" and small: "small_alloc pk"
    and inv: "decoder_inv pk" and sane: "alloc_sane alloc" and sz: "unat sz = length data" and pos: "0 < sz"
  shows "small_alloc pk'"
proof -
  consider (held) "decode_complete pk = 1" | (new) "decoder_ok pk" "opcode pk = 0"
    | (middle) "decoder_ok pk" "opcode pk \<noteq> 0"
    using inv held_pending(3) by (auto simp: decoder_inv_def)
  then show ?thesis
  proof cases
    case held
    then show ?thesis using r small by (auto simp: loqui_decoder_read_data_def)
  next
    case middle
    then show ?thesis
      using read_append_alloc [OF _ small _ _ sane sz] r
      by (auto simp: loqui_decoder_read_data_def decoder_ok_def in_frame_def)
  next
    case new
    then obtain op bs where data: "data = op # bs"
      using pos sz by (cases data) (auto simp: word_less_nat_alt)
    let ?b = "(loqui_buffer pk)\<lparr>buf_length := 0\<rparr>"
    let ?pk = "pk\<lparr>loqui_buffer := ?b, data_size_remaining := 0, opcode := op, header_size := loqui_get_header_size op\<rparr>"
    have "pk' = pk \<or> pk' = ?pk \<or>
        header_len op \<noteq> 0 \<and> loqui_read_append_data alloc ?pk (sz - 1) bs 1 = Some (st, pk', c')"
      using r new data header_size_zero [of op]
      by (auto simp: loqui_decoder_read_data_def decoder_ok_def loqui_read_new_data_def Let_def
          split: if_split_asm)
    moreover have "small_alloc ?pk" using small by (simp add: small_alloc_def)
    moreover have "in_frame ?pk" if "header_len op \<noteq> 0"
      using new that header_size_len [of op] by (auto simp: in_frame_def decoder_ok_def header_len_def)
    moreover have "unat (sz - 1) = length bs"
      using sz data pos by (simp add: unat_sub word_le_nat_alt word_less_nat_alt)
    ultimately show ?thesis
      using small read_append_alloc [of alloc ?pk "sz - 1" bs 1 st pk' c', OF _ _ _ _ sane] by auto
  qed
qed

section \<open>Every call keeps it small\<close>

lemma reset_small: "small_alloc (reset_decode_buf alloc pk)"
  by (auto simp: small_alloc_def decode_bound_val reset_decode_buf_def loqui_decoder_reset_def Let_def
      reset_buffer_def free_big_buffer_def BIG_BUF_SIZE_def INITIAL_BUFFER_SIZE_def not_le word_less_nat_alt)

lemma consume_small:
  assumes "consume_decode_buffer alloc h = Some (h', r)" and "small_alloc (decode_buffer h)"
  shows "small_alloc (decode_buffer h')"
proof -
  have pong: "decode_buffer h2 = decode_buffer h" if "send_pong alloc h fl sq = Some (h2, r2)" for h2 fl sq r2
    using that by (auto simp: send_pong_def finish_send_def Let_def split: option.splits if_split_asm)
  have ping: "decode_buffer h2 = decode_buffer h" if "consume_ping alloc h = Some (h2, r2)" for h2 r2
    using that by (auto simp: consume_ping_def except0_def bind_Some_iff dest: pong split: sum.splits if_split_asm)
  have branch: "decode_buffer h2 = decode_buffer h" if "consume_branch alloc h = Some (h2, r2)" for h2 r2
    using that
    by (auto simp: consume_branch_def Let_def dest: ping split: if_split_asm)
  show ?thesis
    using assms by (auto simp: consume_decode_buffer_def reset_small dest!: branch split: option.splits sum.splits)
qed

lemma receive_loop_small:
  assumes "alloc_sane alloc" and "handler_inv h" and "small_alloc (decode_buffer h)" and "unat sz = length data"
    and "receive_loop alloc h sz data acc = Some (h', res)"
  shows "small_alloc (decode_buffer h')"
  using assms
proof (induction alloc h sz data acc rule: receive_loop.induct)
  case (1 alloc h sz data acc)
  note prems = "1.prems"
  have inv: "write_ok h" "seq_ok h" "decoder_inv (decode_buffer h)"
    using prems(2) by (simp_all add: handler_inv_def)
  show ?case
  proof (cases "data = []")
    case True
    then show ?thesis using prems(3-5) by (simp add: receive_loop.simps [of _ h] unat_eq_0)
  next
    case False
    then have pos: "0 < sz" using prems(4) by (simp add: word_less_nat_alt)
    obtain st pk c where r: "loqui_decoder_read_data alloc (decode_buffer h) sz data 0 = Some (st, pk, c)"
    proof -
      have "loqui_decoder_read_data alloc (decode_buffer h) sz data 0 \<noteq> None"
        by (rule round_cases [OF prems(1) inv(3) prems(4) False]) simp_all
      then show ?thesis using that by auto
    qed
    have small: "small_alloc pk" by (rule read_data_alloc [OF r prems(3) inv(3) prems(1,4) pos])
    let ?h = "h\<lparr>decode_buffer := pk\<rparr>"
    have small': "small_alloc (decode_buffer ?h)" using small by simp
    consider (stop) "small_alloc (decode_buffer h')"
      | (raise) h2 e where "consume_decode_buffer alloc ?h = Some (h2, Inl e)" "h' = h2"
      | (go) h2 ev where "st = LOQUI_DECODE_COMPLETE" "consume_decode_buffer alloc ?h = Some (h2, Inr ev)"
          "receive_loop alloc h2 (sz - c) (drop (unat c) data) (acc @ [ev]) = Some (h', res)"
      using prems(5) r pos small reset_small
      by (subst (asm) receive_loop.simps) (auto simp: Let_def split: if_split_asm option.splits sum.splits)
    then show ?thesis
    proof cases
      case raise
      then show ?thesis using consume_small [OF raise(1) small'] by simp
    next
      case go
      obtain f rest where held: "frame_held pk (raw_of f)" and "unat (sz - c) = length (drop (unat c) data)"
        by (rule round_cases [OF prems(1) inv(3) prems(4) False]) (use r go(1) in auto)
      moreover have "handler_inv h2"
      proof -
        have "frame_held (decode_buffer ?h) (raw_of f)" "write_ok ?h" using held inv by simp_all
        then show ?thesis
          using prems(1) by (cases rule: consume_cases)
            (use go(2) inv in \<open>auto simp: handler_inv_def decoder_inv_def seq_ok_def\<close>)
      qed
      ultimately show ?thesis
        using "1.IH" [OF pos r refl refl refl _ _ _ go(2) refl] prems(1) consume_small [OF go(2) small'] go(1,3)
        by simp
    qed simp
  qed
qed

lemma perform_decode_buffer:
  assumes "perform alloc h c = Some (h', r)" and "write_ok h" and "alloc_sane alloc"
  shows "decode_buffer h' = decode_buffer h"
  using assms(1) by (cases rule: perform_cases [OF assms(2,3), of c]) auto

lemma handler_step_small:
  assumes "handler_step h c h'" and "handler_inv h" and "small_alloc (decode_buffer h)"
  shows "small_alloc (decode_buffer h')"
proof -
  have w: "write_ok h" using assms(2) by (simp add: handler_inv_def)
  from assms(1) show ?thesis
  proof cases
    case (send alloc c r)
    then show ?thesis using perform_decode_buffer [OF send(3) w send(2)] assms(3) by simp
  next
    case (get alloc n consume bs)
    show ?thesis by (rule get_bytes_front [OF w, of alloc n consume]) (use get assms(3) in simp)
  next
    case (drop_bytes alloc n left)
    show ?thesis by (rule consume_bytes_drops [OF w, of alloc n]) (use drop_bytes assms(3) in simp)
  next
    case (receive alloc d res)
    have "unat (of_nat (length d) :: size_t) = length d"
      using receive(3) by (intro unat_of_nat_size) simp
    then show ?thesis
      using receive_loop_small [OF receive(2) assms(2,3)] receive(4)
      by (simp add: on_bytes_received_def PyBytes_AsStringAndSize_def)
  qed
qed

lemma cinit_small: "small_alloc (decode_buffer (LoquiStreamHandler_cinit alloc))"
  by (simp add: small_alloc_def LoquiStreamHandler_cinit_def reset_buffer_def zero_buffer_def
      INITIAL_BUFFER_SIZE_def decode_bound_val)

lemma reachable_small: "reachable h \<Longrightarrow> small_alloc (decode_buffer h)"
  by (induction rule: reachable.induct) (auto intro: cinit_small handler_step_small reachable_handler_inv)

section \<open>Properties\<close>

text \<open>
  C28: A peer cannot make the handler allocate more for receiving than the largest frame needs:
  in every reachable state the decode buffer's allocation is at most 50 MiB plus the longest header (11
  bytes), whatever was received, in whatever chunks, and however many frames were large.
\<close>

theorem decode_memory_bounded:
  assumes "reachable h"
  shows "unat (allocated_size (loqui_buffer (decode_buffer h))) \<le> 50 * 1024 * 1024 + 11"
  using reachable_small [OF assms] by (simp add: small_alloc_def decode_bound_val)

lemma decode_memory_bounded_witness:
  "\<exists>h res. on_bytes_received big_allocator (LoquiStreamHandler_cinit big_allocator) (Some [7, 0, 3, 32, 0, 0])
      = Some (h, res) \<and> unat (allocated_size (loqui_buffer (decode_buffer h))) \<le> 52428811"
proof -
  have "stream_frames [7, 0, 3, 32, 0, 0] = []"
    by (simp add: stream_frames_def deframe_simps header_len_def payload_len_def size_offset_def
        loqui_load32_def max_payload_def)
  then have "on_bytes_received big_allocator (LoquiStreamHandler_cinit big_allocator) (Some [7, 0, 3, 32, 0, 0]) \<noteq> None"
    using received_safe [OF big_allocator_sane cinit_inv(1), of "[7, 0, 3, 32, 0, 0]" big_allocator]
    by (intro notI) (simp add: safe_result_def cinit_inv stream_frames_def)
  then obtain h res where r: "on_bytes_received big_allocator (LoquiStreamHandler_cinit big_allocator)
      (Some [7, 0, 3, 32, 0, 0]) = Some (h, res)" by auto
  have "reachable h"
    by (rule reachable.step [OF reachable.new handler_step.receive [OF big_allocator_sane _ r]]) simp
  then show ?thesis using r decode_memory_bounded by fastforce
qed

end
