(* ===== verification/Loqui_Watcher.thy ===== *)
theory Loqui_Watcher
  imports Loqui_Prelude
begin

text \<open>
  \<open>py/loqui/socket_watcher.c\<close>: the object through which the gevent hub and other greenlets
  wake the session's run loop. The gevent \<open>Waiter\<close> and the hub are library code. Of the waiter the
  model keeps what its documentation promises: \<open>switch\<close> resumes the greenlet that is blocked in
  \<open>get\<close>, if there is one (\<open>waiter_blocked\<close>), and otherwise stores the value (\<open>waiter_stored\<close>), for which
  \<open>get\<close> then returns at once until \<open>clear\<close>. Of the hub it keeps the number of \<open>_request_switch\<close>
  callbacks it has been given and not yet run.
\<close>

section \<open>State and operations\<close>

record SocketWatcher =
  sock_fileno :: int
  sock_read_ready :: bool
  sock_write_ready :: bool
  sock_write_blocked :: bool
  is_switching :: bool
  waiter_stored :: bool
  waiter_blocked :: bool
  hub_callbacks :: nat

definition waiter_switch :: "SocketWatcher \<Rightarrow> SocketWatcher" where
  "waiter_switch w =
     (if waiter_blocked w then w\<lparr>waiter_blocked := False\<rparr> else w\<lparr>waiter_stored := True\<rparr>)"

definition watcher_reset :: "SocketWatcher \<Rightarrow> SocketWatcher" where
  "watcher_reset w =
     w\<lparr>sock_read_ready := False, sock_write_ready := False, is_switching := False,
       waiter_stored := False, waiter_blocked := False\<rparr>"

definition SocketWatcher_cinit :: "int \<Rightarrow> SocketWatcher" where
  "SocketWatcher_cinit fileno =
     watcher_reset \<lparr>sock_fileno = fileno, sock_read_ready = False, sock_write_ready = False,
       sock_write_blocked = False, is_switching = False, waiter_stored = False, waiter_blocked = False,
       hub_callbacks = 0\<rparr>"

definition mark_ready :: "int \<Rightarrow> bool \<Rightarrow> SocketWatcher \<Rightarrow> SocketWatcher" where
  "mark_ready fileno read w =
     (if fileno \<noteq> sock_fileno w then w
      else waiter_switch (if read then w\<lparr>sock_read_ready := True\<rparr> else w\<lparr>sock_write_ready := True\<rparr>))"

text \<open>\<open>wait\<close>: whether it returns at once; otherwise the calling greenlet is blocked.\<close>

definition watcher_wait :: "SocketWatcher \<Rightarrow> SocketWatcher \<times> bool" where
  "watcher_wait w = (if waiter_stored w then (w, True) else (w\<lparr>waiter_blocked := True\<rparr>, False))"

definition request_switch_now :: "SocketWatcher \<Rightarrow> SocketWatcher" where
  "request_switch_now w =
     (if is_switching w then w else waiter_switch (w\<lparr>is_switching := True\<rparr>))"

text \<open>\<open>in_hub\<close>: whether the caller is the hub itself.\<close>

definition request_switch :: "bool \<Rightarrow> SocketWatcher \<Rightarrow> SocketWatcher" where
  "request_switch in_hub w =
     (if is_switching w then w
      else if in_hub then request_switch_now w
      else w\<lparr>hub_callbacks := hub_callbacks w + 1\<rparr>)"

text \<open>The hub runs one of the callbacks it was given.\<close>

definition hub_runs_callback :: "SocketWatcher \<Rightarrow> SocketWatcher" where
  "hub_runs_callback w =
     (if hub_callbacks w = 0 then w
      else request_switch_now (w\<lparr>hub_callbacks := hub_callbacks w - 1\<rparr>))"

definition switch_if_write_unblocked :: "bool \<Rightarrow> SocketWatcher \<Rightarrow> SocketWatcher" where
  "switch_if_write_unblocked in_hub w =
     (if \<not> sock_write_blocked w then request_switch in_hub w else w)"

lemmas watcher_defs = waiter_switch_def watcher_reset_def SocketWatcher_cinit_def mark_ready_def
  watcher_wait_def request_switch_now_def request_switch_def hub_runs_callback_def
  switch_if_write_unblocked_def

section \<open>The waiter\<close>

text \<open>No greenlet is blocked in \<open>get\<close> while a value is stored.\<close>

definition watcher_ok :: "SocketWatcher \<Rightarrow> bool" where
  "watcher_ok w \<longleftrightarrow> \<not> (waiter_stored w \<and> waiter_blocked w)"

lemma watcher_ok_cinit [simp]: "watcher_ok (SocketWatcher_cinit n)"
  by (simp add: watcher_ok_def watcher_defs)

lemma watcher_ok_ops [simp]:
  assumes "watcher_ok w"
  shows "watcher_ok (mark_ready n r w)" "watcher_ok (watcher_reset w)" "watcher_ok (request_switch_now w)"
    "watcher_ok (request_switch b w)" "watcher_ok (hub_runs_callback w)" "watcher_ok (switch_if_write_unblocked b w)"
    "watcher_ok (w\<lparr>sock_write_blocked := x\<rparr>)" "watcher_ok (fst (watcher_wait w))"
  using assms by (auto simp: watcher_ok_def watcher_defs)

text \<open>A blocked greenlet whose watcher believes that a switch is under way.\<close>

lemma stranded_ops:
  assumes "waiter_blocked w" and "is_switching w"
  shows "waiter_blocked (request_switch b w)" "is_switching (request_switch b w)"
    "waiter_blocked (hub_runs_callback w)" "is_switching (hub_runs_callback w)"
    "waiter_blocked (switch_if_write_unblocked b w)" "is_switching (switch_if_write_unblocked b w)"
    "request_switch b w = w"
  using assms by (simp_all add: watcher_defs)

lemma stranded_callbacks:
  "waiter_blocked w \<Longrightarrow> is_switching w \<Longrightarrow> waiter_blocked ((hub_runs_callback ^^ n) w)"
  by (induction n arbitrary: w) (simp_all add: funpow_Suc_right stranded_ops del: funpow.simps)

section \<open>Properties\<close>



end
