(* ===== verification/Loqui_Process.thy ===== *)
theory Loqui_Process
  imports Loqui_Prelude
begin

text \<open>
  Calls that may wait. gevent greenlets are cooperative: a call runs without interruption
  until it waits, other greenlets change the state meanwhile, and it goes on in the state they leave.
  So a call is a process over a state type: undefined; finished in a state, with a value or an
  exception; or waiting in a state, with the condition under which it is resumed and the continuation to run in
  whatever state then holds.
\<close>

section \<open>Processes\<close>

datatype ('s, 'a) proc =
    Undefined
  | Ret 's "'a py"
  | Wait "'s \<Rightarrow> bool" 's "'s \<Rightarrow> ('s, 'a) proc"

primrec and_then :: "('s, 'a) proc \<Rightarrow> ('s \<Rightarrow> 'a \<Rightarrow> ('s, 'b) proc) \<Rightarrow> ('s, 'b) proc" where
  "and_then Undefined f = Undefined"
| "and_then (Ret s r) f = (case r of Inl e \<Rightarrow> Ret s (Inl e) | Inr x \<Rightarrow> f s x)"
| "and_then (Wait c s k) f = Wait c s (\<lambda>t. and_then (k t) f)"

text \<open>\<open>try: ... except\<close>, with the handler given the state and the exception.\<close>

primrec catching :: "('s, 'a) proc \<Rightarrow> ('s \<Rightarrow> py_error \<Rightarrow> ('s, 'a) proc) \<Rightarrow> ('s, 'a) proc" where
  "catching Undefined f = Undefined"
| "catching (Ret s r) f = (case r of Inl e \<Rightarrow> f s e | Inr x \<Rightarrow> Ret s (Inr x))"
| "catching (Wait c s k) f = Wait c s (\<lambda>t. catching (k t) f)"

text \<open>\<open>try: ... finally\<close>, with a clean-up that does not wait.\<close>

primrec finally_do :: "('s \<Rightarrow> 's) \<Rightarrow> ('s, 'a) proc \<Rightarrow> ('s, 'a) proc" where
  "finally_do g Undefined = Undefined"
| "finally_do g (Ret s r) = Ret (g s) r"
| "finally_do g (Wait c s k) = Wait c s (\<lambda>t. finally_do g (k t))"

text \<open>A call whose value is not used.\<close>

definition ignoring :: "('s, 'a) proc \<Rightarrow> ('s, unit) proc" where
  "ignoring p = and_then p (\<lambda>s _. Ret s (Inr ()))"

lemma and_then_unit [simp]: "and_then (and_then p (\<lambda>s _. Ret s (Inr ()))) g = and_then p g"
  by (induction p) (auto split: sum.split)

lemma and_then_assoc: "and_then (and_then p f) g = and_then p (\<lambda>s x. and_then (f s x) g)"
  by (induction p) (auto split: sum.split)

section \<open>Processes that keep an invariant\<close>

text \<open>
  A process keeps an invariant where it stops and where it waits, and after a wait from
  whatever state of the invariant it is resumed in; and it is never undefined.
\<close>

primrec keeps :: "('s \<Rightarrow> bool) \<Rightarrow> ('s, 'a) proc \<Rightarrow> bool" where
  "keeps I Undefined = False"
| "keeps I (Ret s r) = I s"
| "keeps I (Wait c s k) = (I s \<and> (\<forall>t. I t \<and> c t \<longrightarrow> keeps I (k t)))"

lemma keeps_and_then [wf_intros]:
  "keeps I p \<Longrightarrow> (\<And>s x. I s \<Longrightarrow> keeps I (f s x)) \<Longrightarrow> keeps I (and_then p f)"
  by (induction p) (auto split: sum.splits)

lemma keeps_catching [wf_intros]:
  "keeps I p \<Longrightarrow> (\<And>s e. I s \<Longrightarrow> keeps I (f s e)) \<Longrightarrow> keeps I (catching p f)"
  by (induction p) (auto split: sum.splits)

lemma keeps_finally_do [wf_intros]:
  "keeps I p \<Longrightarrow> (\<And>s. I s \<Longrightarrow> I (g s)) \<Longrightarrow> keeps I (finally_do g p)"
  by (induction p) auto

lemma keeps_Ret [wf_intros]: "I s \<Longrightarrow> keeps I (Ret s r)"
  by simp

lemma ignoring_keeps [wf_intros]: "keeps I p \<Longrightarrow> keeps I (ignoring p)"
  unfolding ignoring_def by (rule keeps_and_then) simp_all

end
