(* ===== verification/Loqui_Session.thy ===== *)
theory Loqui_Session
  imports Loqui_Memory Loqui_Watcher Loqui_Process "HOL-Library.AList"
begin

text \<open>
  \<open>py/loqui/socket_session.c\<close>: \<open>LoquiSocketSession\<close>, one end of a connection. This
  theory translates its state and its operations.

  A call is a process (\<open>Loqui_Process\<close>). The methods translated here wait for the ready event
  and, in \<open>join\<close>, for the close event.

  Library code and the application are parameters: a codec is a pair of functions, the request
  handler a process of its own (\<open>callbacks\<close>). gevent's \<open>AsyncResult\<close> is a cell of
  \<open>results\<close> that is empty until it is set; gevent's \<open>Event\<close> is a flag. Of the socket the model keeps
  whether \<open>_sock\<close> is \<open>None\<close>. A dict is an association list with distinct keys.
\<close>

section \<open>State\<close>

record 'd codec =
  codec_dumps :: "'d \<Rightarrow> pybytes py"
  codec_loads :: "pybytes \<Rightarrow> 'd py"

text \<open>An entry of \<open>_inflight_requests\<close>: an \<open>AsyncResult\<close> or (on a server) a request.\<close>

datatype inflight = Waiting nat | Serving u32

datatype 'd answer = Data 'd | PongAnswer event | Failed py_error

record 'd session =
  is_client :: bool
  stream :: LoquiStreamHandler
  has_sock :: bool
  watcher :: SocketWatcher
  inflight_requests :: "(u32 \<times> inflight) list"
  available_encoders :: "(byte list \<times> 'd codec) list"
  shutting_down :: bool
  shutdown_event :: bool
  close_event :: bool
  ready_event :: bool
  is_ready :: bool
  session_ping_interval :: u32
  encoder_dumps :: "('d \<Rightarrow> pybytes py) option"
  encoder_loads :: "(pybytes \<Rightarrow> 'd py) option"
  session_encoding :: pybytes
  has_on_request :: bool
  has_on_push :: bool
  results :: "'d answer option list"
  close_timers :: nat

type_synonym ('d, 'a) op = "('d session, 'a) proc"

text \<open>
  The application: what \<open>_on_request\<close> does with a request and the session, and
  \<open>_on_push\<close> with a push. \<open>py3\<close>: whether the module runs on Python 3.
\<close>

record 'd callbacks =
  on_request :: "u32 \<Rightarrow> 'd \<Rightarrow> 'd session \<Rightarrow> ('d, 'd option) op"
  on_push :: "'d \<Rightarrow> 'd session \<Rightarrow> ('d, unit) op"

definition CLOSE_NORMAL :: byte where "CLOSE_NORMAL = 0"
definition CLOSE_PING_TIMEOUT :: byte where "CLOSE_PING_TIMEOUT = 1"
definition CLOSE_UNKNOWN_ENCODER :: byte where "CLOSE_UNKNOWN_ENCODER = 2"
definition CLOSE_DECODER_ERROR :: byte where "CLOSE_DECODER_ERROR = 5"

section \<open>Small steps\<close>

text \<open>Run a method of the stream handler; a value it returns that is 0 is taken for an exception.\<close>

definition on_stream ::
    "'d session \<Rightarrow> (LoquiStreamHandler \<times> u32 py) option \<Rightarrow> ('d, u32) op" where
  "on_stream s r =
     (case r of
        None \<Rightarrow> Undefined
      | Some (h, v) \<Rightarrow> Ret (s\<lparr>stream := h\<rparr>) (except0 v))"

definition new_result :: "'d session \<Rightarrow> nat \<times> 'd session" where
  "new_result s = (length (results s), s\<lparr>results := results s @ [None]\<rparr>)"

definition set_result :: "nat \<Rightarrow> 'd answer \<Rightarrow> 'd session \<Rightarrow> 'd session" where
  "set_result i v s = s\<lparr>results := (results s)[i := Some v]\<rparr>"

definition put_inflight :: "u32 \<Rightarrow> inflight \<Rightarrow> 'd session \<Rightarrow> 'd session" where
  "put_inflight seq r s = s\<lparr>inflight_requests := AList.update seq r (inflight_requests s)\<rparr>"

definition pop_inflight :: "u32 \<Rightarrow> 'd session \<Rightarrow> inflight option \<times> 'd session" where
  "pop_inflight seq s =
     (map_of (inflight_requests s) seq, s\<lparr>inflight_requests := AList.delete seq (inflight_requests s)\<rparr>)"

definition defunct :: "'d session \<Rightarrow> bool" where
  "defunct s = (if \<not> has_sock s then True else if shutting_down s then True else False)"

definition resume_sending :: "'d session \<Rightarrow> 'd session" where
  "resume_sending s =
     (if \<not> has_sock s then s
      else if write_buffer_len (stream s) = 0 then s
      else s\<lparr>watcher := switch_if_write_unblocked False (watcher s)\<rparr>)"

text \<open>\<open>if not self._is_ready: self._ready_event.wait()\<close>\<close>

definition await_ready :: "'d session \<Rightarrow> ('d session \<Rightarrow> ('d, 'a) op) \<Rightarrow> ('d, 'a) op" where
  "await_ready s k = (if is_ready s \<or> ready_event s then k s else Wait ready_event s k)"

definition session_await_ready :: "'d session \<Rightarrow> ('d, unit) op" where
  "session_await_ready s = await_ready s (\<lambda>s. Ret s (Inr ()))"

section \<open>Closing\<close>

text \<open>
  \<open>requests = d.values(); d.clear(); for request in requests\<close>. On Python 2 \<open>values\<close> is a
  list made before the clear; on Python 3 it is a view of the dict, empty after it.
\<close>

definition cleanup_inflight_requests :: "bool \<Rightarrow> py_error \<Rightarrow> 'd session \<Rightarrow> 'd session" where
  "cleanup_inflight_requests py3 e s =
     (let requests = (if py3 then [] else List.map snd (inflight_requests s));
          s = s\<lparr>inflight_requests := []\<rparr>
      in fold (\<lambda>r s. case r of Waiting i \<Rightarrow> set_result i (Failed e) s | Serving _ \<Rightarrow> s) requests s)"

definition cleanup_socket :: "bool \<Rightarrow> 'd session \<Rightarrow> 'd session" where
  "cleanup_socket py3 s =
     (let sock = has_sock s;
          s = s\<lparr>has_sock := False\<rparr>;
          s = (if sock then s\<lparr>watcher := request_switch False (watcher s)\<rparr> else s);
          s = cleanup_inflight_requests py3 ConnectionTerminated s
      in s\<lparr>ready_event := True, shutdown_event := True, close_event := True\<rparr>)"

text \<open>
  \<open>join\<close>, with a time-out or without: with one it may go on at any time. \<open>close\<close> is first
  translated without \<open>block\<close>.
\<close>

definition session_join :: "bool \<Rightarrow> 'd session \<Rightarrow> ('d, unit) op" where
  "session_join timeout s =
     (if close_event s then Ret s (Inr ())
      else Wait (\<lambda>t. close_event t \<or> timeout) s (\<lambda>t. Ret t (Inr ())))"

definition session_close ::
    "allocator \<Rightarrow> byte \<Rightarrow> pybytes \<Rightarrow> bool \<Rightarrow> 'd session \<Rightarrow> ('d, unit) op" where
  "session_close alloc code reason via_remote_goaway s =
     (if shutting_down s then Ret s (Inr ())
      else
        let s = s\<lparr>shutting_down := True, ready_event := True, shutdown_event := True\<rparr>;
            spawn = (\<lambda>s. Ret (s\<lparr>close_timers := close_timers s + 1\<rparr>) (Inr ()))
        in if \<not> via_remote_goaway \<and> has_sock s
           then and_then (on_stream s (send_goaway alloc (stream s) 0 (ucast code) reason)) (\<lambda>s _. spawn s)
           else spawn s)"

definition session_close_block ::
    "allocator \<Rightarrow> byte \<Rightarrow> pybytes \<Rightarrow> bool \<Rightarrow> bool \<Rightarrow> bool \<Rightarrow> 'd session \<Rightarrow> ('d, unit) op" where
  "session_close_block alloc code reason block timeout via_remote_goaway s =
     and_then (session_close alloc code reason via_remote_goaway s) (\<lambda>s _.
       if block then session_join timeout s else Ret s (Inr ()))"

text \<open>\<open>_close_timeout\<close> after its wait of \<open>_ping_interval\<close> seconds has returned.\<close>

definition close_timeout :: "bool \<Rightarrow> 'd session \<Rightarrow> 'd session" where
  "close_timeout py3 s = (if close_event s then s else cleanup_socket py3 s)"

definition terminate :: "bool \<Rightarrow> 'd session \<Rightarrow> 'd session" where
  "terminate py3 s = cleanup_socket py3 s"

text \<open>Nothing calls \<open>shutdown\<close>.\<close>

definition session_shutdown :: "'d session \<Rightarrow> 'd session" where
  "session_shutdown s = (if shutting_down s then s else s\<lparr>shutting_down := True\<rparr>)"

definition set_push_handler :: "'d session \<Rightarrow> 'd session" where
  "set_push_handler s = s\<lparr>has_on_push := False\<rparr>"

section \<open>Sending\<close>

definition encode_data :: "'d \<Rightarrow> 'd session \<Rightarrow> ('d, byte \<times> pybytes) op" where
  "encode_data d s =
     await_ready s (\<lambda>s. case encoder_dumps s of
         None \<Rightarrow> Ret s (Inl NoEncoderAvailable)
       | Some dumps \<Rightarrow> Ret s (map_sum id (\<lambda>b. (0, b)) (dumps d)))"

definition decode_data :: "byte \<Rightarrow> pybytes \<Rightarrow> 'd session \<Rightarrow> ('d, 'd) op" where
  "decode_data flags b s =
     await_ready s (\<lambda>s. case encoder_loads s of
         None \<Rightarrow> Ret s (Inl NoEncoderAvailable)
       | Some loads \<Rightarrow> Ret s (loads b))"

definition session_send_request :: "allocator \<Rightarrow> 'd \<Rightarrow> 'd session \<Rightarrow> ('d, nat) op" where
  "session_send_request alloc data s =
     (if \<not> is_client s then Ret s (Inl NotClientException)
      else if defunct s then Ret s (Inl StreamDefunct)
      else and_then (encode_data data s) (\<lambda>s (flags, encoded_data).
        let (result, s) = new_result s in
        and_then (on_stream s (send_request alloc (stream s) flags encoded_data)) (\<lambda>s seq.
          Ret (resume_sending (put_inflight seq (Waiting result) s)) (Inr result))))"

definition session_send_push :: "allocator \<Rightarrow> 'd \<Rightarrow> 'd session \<Rightarrow> ('d, unit) op" where
  "session_send_push alloc data s =
     (if defunct s then Ret s (Inl StreamDefunct)
      else and_then (encode_data data s) (\<lambda>s (flags, encoded_data).
        and_then (on_stream s (send_push alloc (stream s) flags encoded_data)) (\<lambda>s _.
          Ret (resume_sending s) (Inr ()))))"

definition session_send_response :: "allocator \<Rightarrow> u32 \<Rightarrow> 'd \<Rightarrow> 'd session \<Rightarrow> ('d, unit) op" where
  "session_send_response alloc seq data s =
     (if is_client s then Ret s (Inl NotServerException)
      else if defunct s then Ret s (Inr ())
      else (case pop_inflight seq s of
          (None, s) \<Rightarrow> Ret s (Inr ())
        | (Some _, s) \<Rightarrow>
            and_then (encode_data data s) (\<lambda>s (flags, encoded_data).
              and_then (on_stream s (send_response alloc (stream s) flags seq encoded_data)) (\<lambda>s _.
                Ret (resume_sending s) (Inr ())))))"

definition session_send_ping :: "allocator \<Rightarrow> 'd session \<Rightarrow> ('d, nat) op" where
  "session_send_ping alloc s =
     (if defunct s then Ret s (Inl StreamDefunct)
      else let (result, s) = new_result s in
        and_then (on_stream s (send_ping alloc (stream s) 0)) (\<lambda>s seq.
          Ret (resume_sending (put_inflight seq (Waiting result) s)) (Inr result)))"

definition session_send_hello_ack ::
    "bool \<Rightarrow> allocator \<Rightarrow> byte list \<Rightarrow> pybytes \<Rightarrow> 'd session \<Rightarrow> ('d, unit) op" where
  "session_send_hello_ack py3 alloc enc cmp s =
     (if is_client s then Ret s (Inl NotServerException)
      else if defunct s then Ret s (Inl StreamDefunct)
      else and_then (on_stream s
          (send_hello_ack py3 alloc (stream s) 0 (session_ping_interval s * 1000) enc cmp)) (\<lambda>s _.
        Ret s (Inr ())))"

definition session_send_hello :: "allocator \<Rightarrow> 'd session \<Rightarrow> ('d, unit) op" where
  "session_send_hello alloc s =
     (if \<not> is_client s then Ret s (Inl NotClientException)
      else and_then (on_stream s
          (send_hello alloc (stream s) 0 (List.map fst (available_encoders s)) [])) (\<lambda>s _.
        Ret s (Inr ())))"

section \<open>Construction\<close>

definition session_cinit ::
    "allocator \<Rightarrow> int \<Rightarrow> (byte list \<times> 'd codec) list \<Rightarrow> bool \<Rightarrow> bool \<Rightarrow> bool \<Rightarrow> ('d, unit) op" where
  "session_cinit alloc fileno encoders client request_handler push_handler =
     (let s = \<lparr>is_client = client, stream = LoquiStreamHandler_cinit alloc, has_sock = True,
         watcher = SocketWatcher_cinit fileno, inflight_requests = [], available_encoders = encoders,
         shutting_down = False, shutdown_event = False, close_event = False, ready_event = False,
         is_ready = False, session_ping_interval = 5, encoder_dumps = None, encoder_loads = None,
         session_encoding = None, has_on_request = (\<not> client \<and> request_handler),
         has_on_push = push_handler, results = [], close_timers = 0\<rparr>
      in if client then session_send_hello alloc s else Ret s (Inr ()))"

end
