(* ===== verification/Loqui_Events.thy ===== *)
theory Loqui_Events
  imports Loqui_Session
begin

text \<open>
  \<open>py/loqui/socket_session.c\<close>, continued: what a session does with received events, its
  ping loop and its run loop. The loops are translated as the stretches of code between two points
  at which they wait.
\<close>

section \<open>Handlers\<close>

definition handle_request ::
    "allocator \<Rightarrow> 'd callbacks \<Rightarrow> byte \<Rightarrow> u32 \<Rightarrow> pybytes \<Rightarrow> 'd session \<Rightarrow> ('d, unit) op" where
  "handle_request alloc cb flags seq data s =
     (if has_on_request s
      then and_then (decode_data flags data s) (\<lambda>s d.
        and_then (on_request cb seq d (put_inflight seq (Serving seq) s)) (\<lambda>s response.
          case response of
            None \<Rightarrow> Ret s (Inr ())
          | Some r \<Rightarrow> session_send_response alloc seq r s))
      else Ret s (Inr ()))"

text \<open>
  \<open>request.set\<close> does not exist on a \<open>Request\<close> object: reading it, also in the
  \<open>except\<close> branch, raises \<open>AttributeError\<close>.
\<close>

definition handle_response :: "byte \<Rightarrow> u32 \<Rightarrow> pybytes \<Rightarrow> 'd session \<Rightarrow> ('d, unit) op" where
  "handle_response flags seq data s =
     (case pop_inflight seq s of
        (None, s) \<Rightarrow> Ret s (Inr ())
      | (Some (Waiting i), s) \<Rightarrow>
          catching
            (and_then (decode_data flags data s) (\<lambda>s d. Ret (set_result i (Data d) s) (Inr ())))
            (\<lambda>s e. Ret (set_result i (Failed e) s) (Inr ()))
      | (Some (Serving _), s) \<Rightarrow> Ret s (Inl AttributeError))"

definition handle_push :: "'d callbacks \<Rightarrow> byte \<Rightarrow> pybytes \<Rightarrow> 'd session \<Rightarrow> ('d, unit) op" where
  "handle_push cb flags data s =
     (if has_on_push s then and_then (decode_data flags data s) (\<lambda>s d. on_push cb d s)
      else Ret s (Inr ()))"

definition handle_ping :: "'d session \<Rightarrow> ('d, unit) op" where
  "handle_ping s = Ret s (Inr ())"

definition handle_pong :: "byte \<Rightarrow> u32 \<Rightarrow> 'd session \<Rightarrow> ('d, unit) op" where
  "handle_pong flags seq s =
     (case pop_inflight seq s of
        (None, s) \<Rightarrow> Ret s (Inr ())
      | (Some (Waiting i), s) \<Rightarrow> Ret (set_result i (PongAnswer (Pong flags seq)) s) (Inr ())
      | (Some (Serving _), s) \<Rightarrow> Ret s (Inl AttributeError))"

fun pick_best_encoding :: "(byte list \<times> 'd codec) list \<Rightarrow> byte list list \<Rightarrow> (byte list \<times> 'd codec) option" where
  "pick_best_encoding avail [] = None"
| "pick_best_encoding avail (e # es) =
     (case map_of avail e of Some c \<Rightarrow> Some (e, c) | None \<Rightarrow> pick_best_encoding avail es)"

text \<open>
  Without a mutual encoding the code calls \<open>self.close(reason=3)\<close>; \<open>reason\<close> is typed
  \<open>bytes\<close>, so the call raises \<open>TypeError\<close> before it does anything. An empty name is false
  and treated like no encoding.
\<close>

definition handle_hello :: "bool \<Rightarrow> allocator \<Rightarrow> byte list list \<Rightarrow> 'd session \<Rightarrow> ('d, unit) op" where
  "handle_hello py3 alloc encodings s =
     (case pick_best_encoding (available_encoders s) encodings of
        None \<Rightarrow> Ret s (Inl TypeError)
      | Some (encoding, c) \<Rightarrow>
          if encoding = [] then Ret s (Inl TypeError)
          else
            let s = s\<lparr>encoder_dumps := Some (codec_dumps c), encoder_loads := Some (codec_loads c),
                      session_encoding := Some encoding\<rparr>
            in and_then (session_send_hello_ack py3 alloc encoding None s) (\<lambda>s _.
              Ret (s\<lparr>is_ready := True, ready_event := True\<rparr>) (Inr ())))"

text \<open>\<open>b'Unknown encoding '\<close>\<close>

definition UNKNOWN_ENCODING_TEXT :: "byte list" where
  "UNKNOWN_ENCODING_TEXT = [85, 110, 107, 110, 111, 119, 110, 32, 101, 110, 99, 111, 100, 105, 110, 103, 32]"

definition handle_hello_ack :: "allocator \<Rightarrow> u32 \<Rightarrow> byte list \<Rightarrow> 'd session \<Rightarrow> ('d, unit) op" where
  "handle_hello_ack alloc pint selected_encoding s =
     (case map_of (available_encoders s) selected_encoding of
        None \<Rightarrow> session_close alloc CLOSE_UNKNOWN_ENCODER (Some (UNKNOWN_ENCODING_TEXT @ selected_encoding)) False s
      | Some c \<Rightarrow>
          Ret (s\<lparr>session_ping_interval := pint div 1000, encoder_dumps := Some (codec_dumps c),
                 encoder_loads := Some (codec_loads c), session_encoding := Some selected_encoding,
                 is_ready := True, ready_event := True\<rparr>) (Inr ()))"

text \<open>
  \<open>close\<close> is called through Python with keywords here, so the 16-bit code is converted to
  \<open>uint8_t\<close>, which raises \<open>OverflowError\<close> out of range.
\<close>

definition handle_go_away :: "allocator \<Rightarrow> u16 \<Rightarrow> pybytes \<Rightarrow> 'd session \<Rightarrow> ('d, unit) op" where
  "handle_go_away alloc code reason s =
     (case PyInt_As_uint8_t (uint code) of
        Inl e \<Rightarrow> Ret s (Inl e)
      | Inr code \<Rightarrow> session_close alloc code reason True s)"

definition handle_error :: "u16 \<Rightarrow> u32 \<Rightarrow> pybytes \<Rightarrow> 'd session \<Rightarrow> ('d, unit) op" where
  "handle_error code seq data s =
     (case pop_inflight seq s of
        (None, s) \<Rightarrow> Ret s (Inr ())
      | (Some (Waiting i), s) \<Rightarrow> Ret (set_result i (Failed (LoquiErrorReceived code data)) s) (Inr ())
      | (Some (Serving _), s) \<Rightarrow> Ret s (Inl AttributeError))"

section \<open>Dispatch\<close>

definition handle_client_event :: "allocator \<Rightarrow> 'd callbacks \<Rightarrow> event \<Rightarrow> 'd session \<Rightarrow> ('d, unit) op" where
  "handle_client_event alloc cb ev s =
     (case ev of
        Response fl seq d \<Rightarrow> handle_response fl seq d s
      | Push fl d \<Rightarrow> handle_push cb fl d s
      | Ping fl seq \<Rightarrow> handle_ping s
      | Pong fl seq \<Rightarrow> handle_pong fl seq s
      | GoAway fl code reason \<Rightarrow> handle_go_away alloc code reason s
      | HelloAck fl pint enc cmp \<Rightarrow> handle_hello_ack alloc pint enc s
      | Error fl code seq d \<Rightarrow> handle_error code seq d s
      | _ \<Rightarrow> Ret s (Inr ()))"

definition handle_server_event :: "bool \<Rightarrow> allocator \<Rightarrow> 'd callbacks \<Rightarrow> event \<Rightarrow> 'd session \<Rightarrow> ('d, unit) op" where
  "handle_server_event py3 alloc cb ev s =
     (case ev of
        Request fl seq d \<Rightarrow> handle_request alloc cb fl seq d s
      | Push fl d \<Rightarrow> handle_push cb fl d s
      | Ping fl seq \<Rightarrow> handle_ping s
      | Pong fl seq \<Rightarrow> handle_pong fl seq s
      | GoAway fl code reason \<Rightarrow> handle_go_away alloc code reason s
      | Hello fl ver encs cmps \<Rightarrow> handle_hello py3 alloc encs s
      | _ \<Rightarrow> Ret s (Inr ()))"

text \<open>\<open>for event in events\<close>: an exception in a handler ends the loop.\<close>

fun each_event :: "(event \<Rightarrow> 'd session \<Rightarrow> ('d, unit) op) \<Rightarrow> event list \<Rightarrow> 'd session \<Rightarrow> ('d, unit) op" where
  "each_event f [] s = Ret s (Inr ())"
| "each_event f (ev # evs) s = and_then (f ev s) (\<lambda>s _. each_event f evs s)"

definition handle_client_events :: "allocator \<Rightarrow> 'd callbacks \<Rightarrow> event list \<Rightarrow> 'd session \<Rightarrow> ('d, unit) op" where
  "handle_client_events alloc cb = each_event (handle_client_event alloc cb)"

definition handle_server_events :: "bool \<Rightarrow> allocator \<Rightarrow> 'd callbacks \<Rightarrow> event list \<Rightarrow> 'd session \<Rightarrow> ('d, unit) op" where
  "handle_server_events py3 alloc cb = each_event (handle_server_event py3 alloc cb)"

definition handle_data_received ::
    "bool \<Rightarrow> allocator \<Rightarrow> 'd callbacks \<Rightarrow> byte list \<Rightarrow> 'd session \<Rightarrow> ('d, unit) op" where
  "handle_data_received py3 alloc cb data s =
     (case on_bytes_received alloc (stream s) (Some data) of
        None \<Rightarrow> Undefined
      | Some (h, r) \<Rightarrow>
          let s = s\<lparr>stream := h\<rparr> in
          (case r of
             Inl (LoquiDecoderError _) \<Rightarrow> session_close alloc CLOSE_DECODER_ERROR None False s
           | Inl e \<Rightarrow> Ret s (Inl e)
           | Inr events \<Rightarrow>
               if events = [] then Ret s (Inr ())
               else and_then
                 (if is_client s then handle_client_events alloc cb events s
                  else handle_server_events py3 alloc cb events s)
                 (\<lambda>s _. Ret (resume_sending s) (Inr ()))))"

section \<open>The ping loop\<close>

definition handle_ping_timeout :: "allocator \<Rightarrow> 'd session \<Rightarrow> ('d, unit) op" where
  "handle_ping_timeout alloc s = session_close alloc CLOSE_PING_TIMEOUT None False s"

text \<open>Up to the wait for the shutdown event: the result to check, or \<open>None\<close> when the loop ends.\<close>

definition ping_loop_send :: "allocator \<Rightarrow> 'd session \<Rightarrow> ('d, nat option) op" where
  "ping_loop_send alloc s =
     (if \<not> has_sock s then Ret s (Inr None)
      else and_then (session_send_ping alloc s) (\<lambda>s i. Ret s (Inr (Some i))))"

text \<open>After the wait, which returned because of the event or the time-out: whether the loop goes on.\<close>

definition ping_loop_check :: "allocator \<Rightarrow> nat \<Rightarrow> 'd session \<Rightarrow> ('d, bool) op" where
  "ping_loop_check alloc i s =
     (if shutdown_event s then Ret s (Inr False)
      else if i < length (results s) \<and> results s ! i \<noteq> None then Ret s (Inr True)
      else and_then (handle_ping_timeout alloc s) (\<lambda>s _. Ret s (Inr False)))"

section \<open>The run loop\<close>

text \<open>What \<open>sock.recv\<close> and \<open>sock.send\<close> can do: try again, fail (or, reading, end), or succeed.\<close>

datatype recv_result = RecvAgain | RecvNothing | RecvData "byte list"
datatype send_result = SendAgain | SendFailed | Sent size_t

text \<open>The wait at the start of a turn: whether it returns at once.\<close>

definition run_loop_wait :: "'d session \<Rightarrow> 'd session \<times> bool" where
  "run_loop_wait s = (let (w, now) = watcher_wait (watcher s) in (s\<lparr>watcher := w\<rparr>, now))"

text \<open>The reading half of one turn: whether the turn goes on to write, starts over, or the loop ends.\<close>

datatype turn = GoOn | StartOver | LoopEnds

definition run_loop_read ::
    "allocator \<Rightarrow> bool \<Rightarrow> 'd callbacks \<Rightarrow> recv_result \<Rightarrow> 'd session \<Rightarrow> ('d, turn) op" where
  "run_loop_read alloc py3 cb io s =
     (if \<not> has_sock s then Ret s (Inr LoopEnds)
      else if \<not> sock_read_ready (watcher s) then Ret s (Inr GoOn)
      else (case io of
          RecvAgain \<Rightarrow> Ret s (Inr StartOver)
        | RecvData (b # bs) \<Rightarrow>
            and_then (handle_data_received py3 alloc cb (b # bs) s) (\<lambda>s _. Ret s (Inr GoOn))
        | _ \<Rightarrow>
            and_then (session_close alloc CLOSE_NORMAL None False s) (\<lambda>s _.
              Ret (cleanup_socket py3 s) (Inr LoopEnds))))"

definition sock_should_write :: "'d session \<Rightarrow> bool" where
  "sock_should_write s \<longleftrightarrow>
     sock_write_ready (watcher s) \<or> \<not> sock_write_blocked (watcher s) \<and> write_buffer_len (stream s) > 0"

definition OUTBUF_MAX :: size_t where "OUTBUF_MAX = 65535"

text \<open>
  The call of \<open>sock.send\<close> on the front of the write buffer. \<open>prev\<close> is what the local
  \<open>bytes_written\<close> holds from earlier turns (\<open>None\<close>: nothing); the result is what it holds then.
  Sending \<open>None\<close>, which an empty buffer gives, is a \<open>TypeError\<close>.
\<close>

definition run_loop_send ::
    "allocator \<Rightarrow> bool \<Rightarrow> size_t option \<Rightarrow> send_result \<Rightarrow> 'd session \<Rightarrow> ('d, size_t option) op" where
  "run_loop_send alloc py3 prev io s =
     (case write_buffer_get_bytes alloc (stream s) OUTBUF_MAX False of
        None \<Rightarrow> Undefined
      | Some (h, None) \<Rightarrow> Ret (s\<lparr>stream := h\<rparr>) (Inl TypeError)
      | Some (h, Some bs) \<Rightarrow>
          let s = s\<lparr>stream := h\<rparr> in
          (case io of
             Sent n \<Rightarrow> Ret s (Inr (Some n))
           | SendAgain \<Rightarrow> Ret s (Inr (Some 0))
           | SendFailed \<Rightarrow>
               and_then (session_close alloc CLOSE_NORMAL None False s) (\<lambda>s _.
                 Ret (cleanup_socket py3 s) (Inr prev))))"

text \<open>
  The rest of the writing half: after a failed send the code goes on and reads
  \<open>bytes_written\<close>. The result is its value and whether the turn goes on.
\<close>

definition run_loop_write ::
    "allocator \<Rightarrow> bool \<Rightarrow> size_t option \<Rightarrow> send_result \<Rightarrow> 'd session \<Rightarrow> ('d, size_t option \<times> turn) op" where
  "run_loop_write alloc py3 prev io s =
     (if \<not> sock_should_write s then Ret s (Inr (prev, GoOn))
      else and_then (run_loop_send alloc py3 prev io s) (\<lambda>s bytes_written.
        case bytes_written of
          None \<Rightarrow> Ret s (Inl UnboundLocalError)
        | Some n \<Rightarrow>
            if n = 0
            then Ret (s\<lparr>watcher := (watcher s)\<lparr>sock_write_blocked := True\<rparr>\<rparr>) (Inr (Some n, StartOver))
            else (case write_buffer_consume_bytes alloc (stream s) n of
                None \<Rightarrow> Undefined
              | Some (h, remaining) \<Rightarrow>
                  Ret (s\<lparr>stream := h, watcher := (watcher s)\<lparr>sock_write_blocked := remaining > 0\<rparr>\<rparr>)
                    (Inr (Some n, GoOn)))))"

text \<open>The end of a turn: close when drained, then clear the watcher.\<close>

definition run_loop_end :: "bool \<Rightarrow> 'd session \<Rightarrow> 'd session" where
  "run_loop_end py3 s =
     (let s = (if shutting_down s \<and> write_buffer_len (stream s) = 0 \<and> inflight_requests s = []
               then cleanup_socket py3 s else s)
      in s\<lparr>watcher := watcher_reset (watcher s)\<rparr>)"

end
