(* ===== verification/Loqui_Invariant.thy ===== *)
theory Loqui_Invariant
  imports Loqui_Events
begin

text \<open>
  The session's invariant: every operation keeps it, also across the point at which it waits,
  and so does every interleaving of greenlets.
\<close>

section \<open>The invariant\<close>

lemma keeps_await [wf_intros]:
  "I s \<Longrightarrow> (\<And>t. I t \<Longrightarrow> keeps I (k t)) \<Longrightarrow> keeps I (await_ready s k)"
  by (simp add: await_ready_def)

text \<open>The \<open>AsyncResult\<close>s that the session will still resolve.\<close>

fun waiting :: "(u32 \<times> inflight) list \<Rightarrow> nat list" where
  "waiting [] = []"
| "waiting ((k, Waiting i) # d) = i # waiting d"
| "waiting ((k, Serving q) # d) = waiting d"

abbreviation awaited :: "'d session \<Rightarrow> nat list" where
  "awaited s \<equiv> waiting (inflight_requests s)"

definition flags_ok :: "'d session \<Rightarrow> bool" where
  "flags_ok s \<longleftrightarrow>
     (is_ready s \<longrightarrow> ready_event s \<and> encoder_dumps s \<noteq> None \<and> encoder_loads s \<noteq> None) \<and>
     (ready_event s \<longrightarrow> is_ready s \<or> shutting_down s \<or> close_event s) \<and>
     (shutting_down s \<longrightarrow> ready_event s \<and> shutdown_event s) \<and>
     (\<not> has_sock s \<longleftrightarrow> close_event s) \<and>
     (close_event s \<longrightarrow> ready_event s \<and> shutdown_event s)"

definition inflight_ok :: "'d session \<Rightarrow> bool" where
  "inflight_ok s \<longleftrightarrow>
     distinct (List.map fst (inflight_requests s)) \<and> distinct (awaited s) \<and>
     (\<forall>i \<in> set (awaited s). i < length (results s))"

text \<open>On a client every entry is an \<open>AsyncResult\<close>; requests are entered on servers only.\<close>

definition role_ok :: "bool \<Rightarrow> 'd session \<Rightarrow> bool" where
  "role_ok cl s \<longleftrightarrow>
     is_client s = cl \<and> (cl \<longrightarrow> (\<forall>(k, r) \<in> set (inflight_requests s). \<exists>i. r = Waiting i))"

definition session_inv :: "bool \<Rightarrow> 'd session \<Rightarrow> bool" where
  "session_inv cl s \<longleftrightarrow>
     handler_inv (stream s) \<and> watcher_ok (watcher s) \<and> flags_ok s \<and> inflight_ok s \<and> role_ok cl s"

lemmas session_inv_defs = session_inv_def flags_ok_def inflight_ok_def role_ok_def

lemma waiting_delete:
  "set (waiting (AList.delete k d)) \<subseteq> set (waiting d)"
  "distinct (waiting d) \<Longrightarrow> distinct (waiting (AList.delete k d))"
proof -
  show sub: "set (waiting (AList.delete k d)) \<subseteq> set (waiting d)" for d
    by (induction d rule: waiting.induct) (auto simp: AList.delete_eq)
  show "distinct (waiting d) \<Longrightarrow> distinct (waiting (AList.delete k d))"
    using sub by (induction d rule: waiting.induct) (auto simp: AList.delete_eq)
qed

lemma set_update: "set (AList.update k r d) \<subseteq> insert (k, r) (set d)"
  by (induction d) auto

lemma set_delete: "set (AList.delete k d) \<subseteq> set d"
  by (simp add: AList.delete_eq)

lemma waiting_update:
  "set (waiting (AList.update k r d)) \<subseteq> set (waiting d) \<union> set (waiting [(k, r)])"
  "distinct (waiting d) \<Longrightarrow> set (waiting [(k, r)]) \<inter> set (waiting d) = {} \<Longrightarrow>
     distinct (waiting (AList.update k r d))"
proof -
  show sub: "set (waiting (AList.update k r d)) \<subseteq> set (waiting d) \<union> set (waiting [(k, r)])" for d
    by (induction d rule: waiting.induct; cases r) auto
  show "distinct (waiting (AList.update k r d))"
    if "distinct (waiting d)" "set (waiting [(k, r)]) \<inter> set (waiting d) = {}"
    using that sub by (induction d rule: waiting.induct; cases r) fastforce+
qed

section \<open>Small steps\<close>

lemma session_inv_stream: "session_inv cl s \<Longrightarrow> handler_inv (stream s)"
  by (simp add: session_inv_def)

lemma set_stream_inv [wf_intros]: "session_inv cl s \<Longrightarrow> handler_inv h \<Longrightarrow> session_inv cl (s\<lparr>stream := h\<rparr>)"
  by (simp add: session_inv_defs)

lemma set_watcher_inv [wf_intros]: "session_inv cl s \<Longrightarrow> watcher_ok w \<Longrightarrow> session_inv cl (s\<lparr>watcher := w\<rparr>)"
  by (simp add: session_inv_defs)

lemma session_inv_watcher: "session_inv cl s \<Longrightarrow> watcher_ok (watcher s)"
  by (simp add: session_inv_def)

lemma resume_sending_inv [wf_intros]: "session_inv cl s \<Longrightarrow> session_inv cl (resume_sending s)"
  by (auto simp: resume_sending_def session_inv_defs)

lemma set_result_inv [wf_intros]: "session_inv cl s \<Longrightarrow> session_inv cl (set_result i v s)"
  by (simp add: set_result_def session_inv_defs)

lemma pop_inflight_inv [wf_intros]: "session_inv cl s \<Longrightarrow> session_inv cl (snd (pop_inflight q s))"
  using waiting_delete [where k = q and d = "inflight_requests s"] set_delete [of q "inflight_requests s"]
  by (auto simp: pop_inflight_def session_inv_defs distinct_delete)

lemma serving_inv [wf_intros]: "session_inv False s \<Longrightarrow> session_inv False (put_inflight q (Serving n) s)"
  using waiting_update [where k = q and r = "Serving n" and d = "inflight_requests s"]
  by (auto simp: put_inflight_def session_inv_defs distinct_update)

text \<open>Between the making of a result and its entry no greenlet runs.\<close>

definition fresh_result :: "bool \<Rightarrow> nat \<Rightarrow> 'd session \<Rightarrow> bool" where
  "fresh_result cl i s \<longleftrightarrow> session_inv cl s \<and> i < length (results s) \<and> i \<notin> set (awaited s)"

lemma new_result_fresh:
  assumes "session_inv cl s" and "new_result s = (i, t)"
  shows "fresh_result cl i t"
proof -
  have t: "i = length (results s)" "t = s\<lparr>results := results s @ [None]\<rparr>"
    using assms(2) by (auto simp: new_result_def)
  have "length (results s) \<notin> set (awaited s)" using assms(1) by (auto simp: session_inv_defs)
  then show ?thesis using assms(1) by (simp add: t fresh_result_def session_inv_defs less_SucI)
qed

lemma waiting_inv: "fresh_result cl i s \<Longrightarrow> session_inv cl (put_inflight q (Waiting i) s)"
  using waiting_update [where k = q and r = "Waiting i" and d = "inflight_requests s"]
    set_update [of q "Waiting i" "inflight_requests s"]
  by (auto simp: fresh_result_def put_inflight_def session_inv_defs distinct_update)

section \<open>Sending\<close>

lemma perform_keeps:
  assumes "session_inv cl s" and "alloc_sane alloc"
  shows "keeps (session_inv cl) (on_stream s (perform alloc (stream s) c))"
    and "fresh_result cl i s \<Longrightarrow> keeps (fresh_result cl i) (on_stream s (perform alloc (stream s) c))"
proof -
  obtain h r where p: "perform alloc (stream s) c = Some (h, r)" "handler_inv h"
    using perform_inv [OF session_inv_stream [OF assms(1)] assms(2)] by blast
  show "keeps (session_inv cl) (on_stream s (perform alloc (stream s) c))"
    using p assms(1) by (simp add: on_stream_def set_stream_inv)
  show "keeps (fresh_result cl i) (on_stream s (perform alloc (stream s) c))" if "fresh_result cl i s"
    using p that by (simp add: on_stream_def fresh_result_def set_stream_inv)
qed

lemma next_seq_inv: "handler_inv h \<Longrightarrow> handler_inv (fst (next_seq h))"
  using next_seq_value(3) [of h]
  by (auto simp: handler_inv_def next_seq_def Let_def write_ok_def)

lemma send_push_keeps [wf_intros]:
  assumes "session_inv cl s" and "alloc_sane alloc"
  shows "keeps (session_inv cl) (on_stream s (send_push alloc (stream s) fl d))"
    and "keeps (session_inv cl) (on_stream s (send_response alloc (stream s) fl q d))"
    and "keeps (session_inv cl) (on_stream s (send_goaway alloc (stream s) fl code d))"
    and "keeps (session_inv cl) (on_stream s (send_hello alloc (stream s) fl encs cmps))"
    and "keeps (session_inv cl) (on_stream s (send_hello_ack py3 alloc (stream s) fl pint enc cmp))"
proof -
  note p = perform_keeps(1) [OF assms]
  show "keeps (session_inv cl) (on_stream s (send_push alloc (stream s) fl d))"
    using p [of "CmdPush fl (the d)"] assms
    by (cases d) (auto simp: send_push_def PyBytes_AsStringAndSize_def on_stream_def)
  show "keeps (session_inv cl) (on_stream s (send_response alloc (stream s) fl q d))"
    using p [of "CmdResponse fl q (the d)"] assms
    by (cases d) (auto simp: send_response_def PyBytes_AsStringAndSize_def on_stream_def)
  show "keeps (session_inv cl) (on_stream s (send_goaway alloc (stream s) fl code d))"
    "keeps (session_inv cl) (on_stream s (send_hello alloc (stream s) fl encs cmps))"
    using p [of "CmdGoAway fl code d"] p [of "CmdHello fl encs cmps"] by simp_all
  have "keeps (session_inv cl) (on_stream s (send_hello_ack False alloc (stream s) fl pint enc cmp))"
    using p [of "CmdHelloAck fl pint enc cmp"] by simp
  then show "keeps (session_inv cl) (on_stream s (send_hello_ack py3 alloc (stream s) fl pint enc cmp))"
    using assms(1) by (cases py3) (simp_all add: send_hello_ack_python3 on_stream_def except0_def)
qed

lemma send_request_keeps:
  assumes "fresh_result cl i s" and "alloc_sane alloc"
  shows "keeps (fresh_result cl i) (on_stream s (send_request alloc (stream s) fl d))"
    and "keeps (fresh_result cl i) (on_stream s (send_ping alloc (stream s) fl))"
proof -
  have s: "session_inv cl s" using assms(1) by (simp add: fresh_result_def)
  note p = perform_keeps(2) [OF s assms(2,1)]
  have "fresh_result cl i (s\<lparr>stream := fst (next_seq (stream s))\<rparr>)"
    using assms(1) s by (simp add: fresh_result_def set_stream_inv next_seq_inv session_inv_stream)
  then show "keeps (fresh_result cl i) (on_stream s (send_request alloc (stream s) fl d))"
    using p [of "CmdRequest fl (the d)"]
    by (cases d) (auto simp: send_request_def PyBytes_AsStringAndSize_def on_stream_def split: prod.splits)
  show "keeps (fresh_result cl i) (on_stream s (send_ping alloc (stream s) fl))"
    using p [of "CmdPing fl"] by simp
qed

text \<open>A call of the stream handler does not wait.\<close>

lemma on_stream_then:
  assumes "keeps I (on_stream s r)" and "\<And>t. I t \<Longrightarrow> J t" and "\<And>t x. I t \<Longrightarrow> keeps J (f t x)"
  shows "keeps J (and_then (on_stream s r) f)"
  using assms by (auto simp: on_stream_def split: option.splits sum.splits)

lemma enter_result:
  fixes s :: "'d session"
  assumes "fresh_result cl i s" and "alloc_sane alloc"
    and "r = send_request alloc (stream s) fl d \<or> r = send_ping alloc (stream s) fl"
  shows "keeps (session_inv cl)
    (and_then (on_stream s r) (\<lambda>s q. Ret (resume_sending (put_inflight q (Waiting i) s)) (Inr i)))"
proof (rule on_stream_then [where I = "fresh_result cl i"])
  show "keeps (fresh_result cl i) (on_stream s r)" using assms by (auto intro: send_request_keeps)
  show "session_inv cl t" if "fresh_result cl i t" for t :: "'d session" using that by (simp add: fresh_result_def)
  show "keeps (session_inv cl) (Ret (resume_sending (put_inflight x (Waiting i) t)) (Inr i))"
    if "fresh_result cl i t" for t :: "'d session" and x
    using that by (simp add: resume_sending_inv waiting_inv)
qed

section \<open>Operations\<close>

lemma encode_data_keeps [wf_intros]: "session_inv cl s \<Longrightarrow> keeps (session_inv cl) (encode_data d s)"
  unfolding encode_data_def by (intro wf_intros) (auto split: option.splits)

lemma decode_data_keeps [wf_intros]: "session_inv cl s \<Longrightarrow> keeps (session_inv cl) (decode_data fl b s)"
  unfolding decode_data_def by (intro wf_intros) (auto split: option.splits)

lemma session_send_request_keeps [wf_intros]:
  assumes "session_inv cl s" and "alloc_sane alloc"
  shows "keeps (session_inv cl) (session_send_request alloc d s)"
  unfolding session_send_request_def using assms
  by (auto intro!: keeps_and_then [OF encode_data_keeps] enter_result split: prod.split intro: new_result_fresh)

lemma session_send_ping_keeps [wf_intros]:
  assumes "session_inv cl s" and "alloc_sane alloc"
  shows "keeps (session_inv cl) (session_send_ping alloc s)"
  unfolding session_send_ping_def using assms
  by (auto intro!: enter_result split: prod.split intro: new_result_fresh)

lemma session_send_push_keeps [wf_intros]:
  assumes "session_inv cl s" and "alloc_sane alloc"
  shows "keeps (session_inv cl) (session_send_push alloc d s)"
  unfolding session_send_push_def using assms by (auto intro!: wf_intros split: prod.splits)

lemma session_send_response_keeps [wf_intros]:
  assumes "session_inv cl s" and "alloc_sane alloc"
  shows "keeps (session_inv cl) (session_send_response alloc q d s)"
proof -
  obtain r t where pop: "pop_inflight q s = (r, t)" by (cases "pop_inflight q s")
  then have "session_inv cl t" using pop_inflight_inv [OF assms(1), of q] by simp
  then show ?thesis
    using assms pop unfolding session_send_response_def
    by (auto intro!: wf_intros split: prod.splits option.splits)
qed

lemma session_send_hello_ack_keeps [wf_intros]:
  assumes "session_inv cl s" and "alloc_sane alloc"
  shows "keeps (session_inv cl) (session_send_hello_ack py3 alloc enc cmp s)"
  unfolding session_send_hello_ack_def using assms by (auto intro!: wf_intros)

section \<open>Closing\<close>

text \<open>What cleaning up does to the results.\<close>

lemma resolve_all:
  "fold (\<lambda>r s. case r of Waiting i \<Rightarrow> set_result i v s | Serving _ \<Rightarrow> s) (List.map snd d) s =
     s\<lparr>results := fold (\<lambda>i rs. rs[i := Some v]) (waiting d) (results s)\<rparr>"
  by (induction d arbitrary: s rule: waiting.induct) (simp_all add: set_result_def)

lemma fold_update:
  "length (fold (\<lambda>i rs. rs[i := Some v]) is rs) = length rs"
  "i < length rs \<Longrightarrow>
     fold (\<lambda>i rs. rs[i := Some v]) is rs ! i = (if i \<in> set is then Some v else rs ! i)"
  by (induction "is" arbitrary: rs) (auto simp: nth_list_update)

definition cleaned_results :: "bool \<Rightarrow> py_error \<Rightarrow> 'd session \<Rightarrow> 'd answer option list" where
  "cleaned_results py3 e s =
     (if py3 then results s else fold (\<lambda>i rs. rs[i := Some (Failed e)]) (awaited s) (results s))"

lemma cleanup_inflight_eq:
  "cleanup_inflight_requests py3 e s = s\<lparr>inflight_requests := [], results := cleaned_results py3 e s\<rparr>"
  by (simp add: cleanup_inflight_requests_def Let_def resolve_all cleaned_results_def)

lemma cleaned_results_nth:
  "length (cleaned_results py3 e s) = length (results s)"
  "i < length (results s) \<Longrightarrow> cleaned_results py3 e s ! i =
     (if \<not> py3 \<and> i \<in> set (awaited s) then Some (Failed e) else results s ! i)"
  by (simp_all add: cleaned_results_def fold_update)

lemma cleanup_socket_eq:
  "cleanup_socket py3 s = s\<lparr>has_sock := False,
     watcher := (if has_sock s then request_switch False (watcher s) else watcher s),
     inflight_requests := [], ready_event := True, shutdown_event := True, close_event := True,
     results := cleaned_results py3 ConnectionTerminated s\<rparr>"
  by (simp add: cleanup_socket_def cleanup_inflight_eq Let_def cleaned_results_def)

lemma cleanup_socket_inv [wf_intros]: "session_inv cl s \<Longrightarrow> session_inv cl (cleanup_socket py3 s)"
  by (simp add: cleanup_socket_eq session_inv_defs)

lemma session_close_keeps [wf_intros]:
  fixes s :: "'d session"
  assumes "session_inv cl s" and "alloc_sane alloc"
  shows "keeps (session_inv cl) (session_close alloc code reason remote s)"
proof -
  let ?s = "s\<lparr>shutting_down := True, ready_event := True, shutdown_event := True\<rparr>"
  have s: "session_inv cl ?s" and t: "session_inv cl (t\<lparr>close_timers := n\<rparr>)" if "session_inv cl t" for t :: "'d session" and n
    using assms that by (simp_all add: session_inv_defs)
  have "keeps (session_inv cl) (on_stream ?s (send_goaway alloc (stream s) 0 (ucast code) reason))"
    using send_push_keeps(3) [OF s [OF assms(1)] assms(2)] by simp
  then show ?thesis using assms s t unfolding session_close_def Let_def
    by (auto intro!: keeps_and_then)
qed

lemma session_join_keeps [wf_intros]: "session_inv cl s \<Longrightarrow> keeps (session_inv cl) (session_join timeout s)"
  by (simp add: session_join_def)

lemma session_close_block_keeps [wf_intros]:
  "session_inv cl s \<Longrightarrow> alloc_sane alloc \<Longrightarrow>
     keeps (session_inv cl) (session_close_block alloc code reason block timeout remote s)"
  unfolding session_close_block_def by (auto intro!: wf_intros)

lemma close_timeout_inv: "session_inv cl s \<Longrightarrow> session_inv cl (close_timeout py3 s)"
  by (simp add: close_timeout_def cleanup_socket_inv)

lemma terminate_inv: "session_inv cl s \<Longrightarrow> session_inv cl (terminate py3 s)"
  by (simp add: terminate_def cleanup_socket_inv)

lemma set_push_handler_inv: "session_inv cl s \<Longrightarrow> session_inv cl (set_push_handler s)"
  by (simp add: set_push_handler_def session_inv_defs)

section \<open>Events\<close>

definition callbacks_keep :: "'d callbacks \<Rightarrow> bool" where
  "callbacks_keep cb \<longleftrightarrow>
     (\<forall>seq d s. session_inv False s \<longrightarrow> keeps (session_inv False) (on_request cb seq d s)) \<and>
     (\<forall>cl d s. session_inv cl s \<longrightarrow> keeps (session_inv cl) (on_push cb d s))"

lemma callbacks_keepD:
  "callbacks_keep cb \<Longrightarrow> session_inv False s \<Longrightarrow> keeps (session_inv False) (on_request cb q d s)"
  "callbacks_keep cb \<Longrightarrow> session_inv cl s \<Longrightarrow> keeps (session_inv cl) (on_push cb d s)"
  by (simp_all add: callbacks_keep_def)

lemma handle_request_keeps:
  assumes "session_inv False s" and "alloc_sane alloc" and "callbacks_keep cb"
  shows "keeps (session_inv False) (handle_request alloc cb fl q d s)"
  unfolding handle_request_def using assms
  by (auto intro!: wf_intros callbacks_keepD split: option.splits)

lemma handle_response_keeps:
  fixes s :: "'d session"
  assumes "session_inv cl s"
  shows "keeps (session_inv cl) (handle_response fl q d s)"
proof -
  obtain r t where pop: "pop_inflight q s = (r, t)" by (cases "pop_inflight q s")
  then have t: "session_inv cl t" using pop_inflight_inv [OF assms, of q] by simp
  have "keeps (session_inv cl) (catching (and_then (decode_data fl d t) (\<lambda>s d. Ret (set_result i (Data d) s) (Inr ())))
      (\<lambda>s e. Ret (set_result i (Failed e) s) (Inr ())))" for i
    by (intro keeps_catching keeps_and_then decode_data_keeps t) (simp_all add: set_result_inv)
  then show ?thesis using t by (auto simp: handle_response_def pop split: option.splits inflight.splits)
qed

lemma pop_then_keeps:
  fixes s :: "'d session"
  assumes "session_inv cl s"
  shows "keeps (session_inv cl) (handle_pong fl q s)" and "keeps (session_inv cl) (handle_error code q d s)"
proof -
  obtain r t where pop: "pop_inflight q s = (r, t)" by (cases "pop_inflight q s")
  then have "session_inv cl t" using pop_inflight_inv [OF assms, of q] by simp
  then show "keeps (session_inv cl) (handle_pong fl q s)" "keeps (session_inv cl) (handle_error code q d s)"
    by (auto simp: handle_pong_def handle_error_def pop set_result_inv split: option.splits inflight.splits)
qed

lemma handle_push_keeps:
  "session_inv cl s \<Longrightarrow> callbacks_keep cb \<Longrightarrow> keeps (session_inv cl) (handle_push cb fl d s)"
  unfolding handle_push_def by (auto intro!: wf_intros callbacks_keepD)

lemma hello_ack_result:
  fixes s :: "'d session"
  assumes "session_inv cl s" and "alloc_sane alloc"
  shows "\<exists>h r. session_send_hello_ack py3 alloc enc cmp s = Ret (s\<lparr>stream := h\<rparr>) r \<and> handler_inv h"
proof -
  have same: "s = s\<lparr>stream := stream s\<rparr>" by simp
  obtain h2 r2 where "send_hello_ack False alloc (stream s) 0 (session_ping_interval s * 1000) enc cmp = Some (h2, r2)"
      "handler_inv h2"
    using perform_inv [OF session_inv_stream [OF assms(1)] assms(2),
        of "CmdHelloAck 0 (session_ping_interval s * 1000) enc cmp"] by auto
  then obtain h r where p: "send_hello_ack py3 alloc (stream s) 0 (session_ping_interval s * 1000) enc cmp = Some (h, r)"
      "handler_inv h"
    using session_inv_stream [OF assms(1)]
    by (cases py3; cases "cmp = None \<or> cmp = Some []") (auto simp: send_hello_ack_python3)
  show ?thesis
  proof (cases "is_client s \<or> defunct s")
    case True
    then show ?thesis
      using same session_inv_stream [OF assms(1)]
      by (intro exI [of _ "stream s"]) (auto simp: session_send_hello_ack_def)
  next
    case False
    then show ?thesis
      using p by (intro exI [of _ h]) (auto simp: session_send_hello_ack_def on_stream_def split: sum.split)
  qed
qed

lemma handle_hello_keeps:
  fixes s :: "'d session"
  assumes "session_inv cl s" and "alloc_sane alloc"
  shows "keeps (session_inv cl) (handle_hello py3 alloc encs s)"
proof (cases "pick_best_encoding (available_encoders s) encs")
  case (Some ec)
  obtain e c where ec: "ec = (e, c)" by (cases ec)
  let ?s = "s\<lparr>encoder_dumps := Some (codec_dumps c), encoder_loads := Some (codec_loads c),
               session_encoding := Some e\<rparr>"
  have s: "session_inv cl ?s" using assms(1) by (simp add: session_inv_defs)
  obtain h r where "session_send_hello_ack py3 alloc e None ?s = Ret (?s\<lparr>stream := h\<rparr>) r" "handler_inv h"
    using hello_ack_result [OF s assms(2)] by blast
  then show ?thesis
    using Some ec assms(1) s by (cases r) (simp_all add: handle_hello_def session_inv_defs)
qed (simp add: handle_hello_def assms(1))

lemma handle_hello_ack_keeps:
  assumes "session_inv cl s" and "alloc_sane alloc"
  shows "keeps (session_inv cl) (handle_hello_ack alloc pint enc s)"
proof (cases "map_of (available_encoders s) enc")
  case None
  then show ?thesis using session_close_keeps [OF assms] by (simp add: handle_hello_ack_def)
next
  case (Some c)
  then show ?thesis using assms(1) by (simp add: handle_hello_ack_def session_inv_defs)
qed

lemma handle_go_away_keeps:
  "session_inv cl s \<Longrightarrow> alloc_sane alloc \<Longrightarrow> keeps (session_inv cl) (handle_go_away alloc code reason s)"
  by (auto simp: handle_go_away_def intro: session_close_keeps split: sum.splits)

lemmas handler_keeps = handle_request_keeps handle_response_keeps pop_then_keeps handle_push_keeps
  handle_hello_keeps handle_hello_ack_keeps handle_go_away_keeps

lemma each_event_keeps:
  "(\<And>ev s. session_inv cl s \<Longrightarrow> keeps (session_inv cl) (f ev s)) \<Longrightarrow> session_inv cl s \<Longrightarrow>
     keeps (session_inv cl) (each_event f evs s)"
  by (induction evs arbitrary: s) (auto intro!: keeps_and_then)

lemma handle_events_keep:
  assumes "alloc_sane alloc" and "callbacks_keep cb"
  shows "session_inv True s \<Longrightarrow> keeps (session_inv True) (handle_client_events alloc cb evs s)"
    and "session_inv False s \<Longrightarrow> keeps (session_inv False) (handle_server_events py3 alloc cb evs s)"
  unfolding handle_client_events_def handle_server_events_def using assms
  by (auto intro!: each_event_keeps handler_keeps
      simp: handle_client_event_def handle_server_event_def handle_ping_def split: event.split)

lemma handle_data_keeps:
  fixes s :: "'d session"
  assumes "session_inv cl s" and "alloc_sane alloc" and "callbacks_keep cb" and "length d < 2 ^ 63"
    and defined: "on_bytes_received alloc (stream s) (Some d) \<noteq> None"
  shows "keeps (session_inv cl) (handle_data_received py3 alloc cb d s)"
proof -
  obtain h r where r: "on_bytes_received alloc (stream s) (Some d) = Some (h, r)" using defined by auto
  have role: "is_client s = cl" using assms(1) by (simp add: session_inv_def role_ok_def)
  have "handler_inv h"
    using received_safe [OF assms(2) session_inv_stream [OF assms(1)] assms(4)] r by (simp add: safe_result_def)
  then have s: "session_inv cl (s\<lparr>stream := h\<rparr>)" using assms(1) by (simp add: set_stream_inv)
  show ?thesis
  proof (cases r)
    case (Inl e)
    then show ?thesis
      using r s session_close_keeps [OF s assms(2)] by (cases e) (simp_all add: handle_data_received_def Let_def)
  next
    case (Inr evs)
    have "keeps (session_inv cl) (if is_client s then handle_client_events alloc cb evs (s\<lparr>stream := h\<rparr>)
        else handle_server_events py3 alloc cb evs (s\<lparr>stream := h\<rparr>))"
    proof (cases cl)
      case True
      then show ?thesis using handle_events_keep(1) [OF assms(2,3)] s role by simp
    next
      case False
      then show ?thesis using handle_events_keep(2) [OF assms(2,3)] s role by simp
    qed
    then have "keeps (session_inv cl) (and_then
        (if is_client s then handle_client_events alloc cb evs (s\<lparr>stream := h\<rparr>)
         else handle_server_events py3 alloc cb evs (s\<lparr>stream := h\<rparr>)) (\<lambda>s _. Ret (resume_sending s) (Inr ())))"
      by (rule keeps_and_then) (simp add: resume_sending_inv)
    then show ?thesis using r s Inr by (simp add: handle_data_received_def Let_def)
  qed
qed

section \<open>The loops\<close>

lemma ping_loop_keeps:
  assumes "session_inv cl s" and "alloc_sane alloc"
  shows "keeps (session_inv cl) (ping_loop_send alloc s)" and "keeps (session_inv cl) (ping_loop_check alloc i s)"
  unfolding ping_loop_send_def ping_loop_check_def handle_ping_timeout_def using assms
  by (auto intro!: keeps_and_then session_send_ping_keeps session_close_keeps)

definition no_undefined_receive :: "allocator \<Rightarrow> recv_result \<Rightarrow> 'd session \<Rightarrow> bool" where
  "no_undefined_receive alloc io s \<longleftrightarrow>
     (\<forall>d. io = RecvData d \<longrightarrow> length d < 2 ^ 63 \<and> on_bytes_received alloc (stream s) (Some d) \<noteq> None)"

lemma run_loop_read_keeps:
  assumes "session_inv cl s" and "alloc_sane alloc" and "callbacks_keep cb" and "no_undefined_receive alloc io s"
  shows "keeps (session_inv cl) (run_loop_read alloc py3 cb io s)"
proof -
  have "keeps (session_inv cl) (and_then (session_close alloc CLOSE_NORMAL None False s)
      (\<lambda>s _. Ret (cleanup_socket py3 s) (Inr LoopEnds)))"
    using session_close_keeps [OF assms(1,2)] by (intro keeps_and_then) (simp_all add: cleanup_socket_inv)
  moreover have "keeps (session_inv cl) (and_then (handle_data_received py3 alloc cb d s) (\<lambda>s _. Ret s (Inr GoOn)))"
    if "io = RecvData d" for d
    using handle_data_keeps [OF assms(1-3), of d] assms(4) that
    by (intro keeps_and_then) (simp_all add: no_undefined_receive_def)
  ultimately show ?thesis
    using assms(1) by (auto simp: run_loop_read_def split: recv_result.splits list.splits)
qed

lemma run_loop_send_keeps:
  fixes s :: "'d session"
  assumes "session_inv cl s" and "alloc_sane alloc"
  shows "keeps (session_inv cl) (run_loop_send alloc py3 prev io s)"
proof -
  have w: "write_ok (stream s)" using assms(1) by (simp add: session_inv_def handler_inv_def)
  obtain bs where "write_buffer_get_bytes alloc (stream s) OUTBUF_MAX False = Some (stream s, bs)"
    by (rule get_bytes_front [OF w, of alloc OUTBUF_MAX False]) simp
  moreover have "s\<lparr>stream := stream s\<rparr> = s" by simp
  moreover have "keeps (session_inv cl) (and_then (session_close alloc CLOSE_NORMAL None False s)
      (\<lambda>s _. Ret (cleanup_socket py3 s) (Inr prev)))"
    using session_close_keeps [OF assms] by (intro keeps_and_then) (simp_all add: cleanup_socket_inv)
  ultimately show ?thesis
    using assms(1) by (simp add: run_loop_send_def Let_def split: option.split send_result.split)
qed

lemma run_loop_write_keeps:
  fixes s :: "'d session"
  assumes "session_inv cl s" and "alloc_sane alloc"
  shows "keeps (session_inv cl) (run_loop_write alloc py3 prev io s)"
proof -
  have "keeps (session_inv cl) (if n = 0
      then Ret (t\<lparr>watcher := (watcher t)\<lparr>sock_write_blocked := True\<rparr>\<rparr>) (Inr (Some n, StartOver))
      else (case write_buffer_consume_bytes alloc (stream t) n of
          None \<Rightarrow> Undefined
        | Some (h, remaining) \<Rightarrow>
            Ret (t\<lparr>stream := h, watcher := (watcher t)\<lparr>sock_write_blocked := remaining > 0\<rparr>\<rparr>) (Inr (Some n, GoOn))))"
    if t: "session_inv cl t" for t :: "'d session" and n
  proof -
    have "write_ok (stream t)" using t by (simp add: session_inv_def handler_inv_def)
    then show ?thesis
      by (cases rule: consume_bytes_drops [where alloc = alloc and n = n])
        (use t in \<open>simp add: session_inv_defs handler_inv_def seq_ok_def\<close>)
  qed
  then show ?thesis
    using assms(1) unfolding run_loop_write_def
    by (auto intro!: keeps_and_then run_loop_send_keeps [OF assms] split: option.split)
qed

lemma run_loop_wait_inv: "session_inv cl s \<Longrightarrow> session_inv cl (fst (run_loop_wait s))"
  using watcher_ok_ops(8) [OF session_inv_watcher, of cl s]
  by (auto simp: run_loop_wait_def split: prod.split intro!: set_watcher_inv)

lemma run_loop_end_inv:
  fixes s :: "'d session"
  assumes "session_inv cl s"
  shows "session_inv cl (run_loop_end py3 s)"
proof -
  have "session_inv cl (t\<lparr>watcher := watcher_reset (watcher t)\<rparr>)" if "session_inv cl t" for t :: "'d session"
    using that by (intro set_watcher_inv) (simp_all add: session_inv_watcher)
  then show ?thesis
    using assms cleanup_socket_inv [OF assms, of py3] by (simp add: run_loop_end_def Let_def)
qed

section \<open>Interleavings\<close>

text \<open>
  What can happen to a session: the calls of the application, the stretches of its two
  loops, the close timer, the hub, and the socket's readiness. A call that waits for the ready event is
  suspended; it goes on in whatever state the session has once the event is set. Suspended calls go on in
  any order. This allows more interleavings than gevent does, which runs one greenlet per loop.
\<close>

datatype 'd action =
    SendRequest 'd
  | SendPush 'd
  | SendResponse u32 'd
  | SendPing
  | Close byte pybytes
  | CloseTimeout
  | Terminate
  | SetPushHandler
  | PingLoopSend
  | PingLoopCheck nat
  | RunLoopWait
  | RunLoopRead recv_result
  | RunLoopWrite "size_t option" send_result
  | RunLoopEnd
  | HubCallback
  | MarkReady int bool

fun act :: "allocator \<Rightarrow> bool \<Rightarrow> 'd callbacks \<Rightarrow> 'd action \<Rightarrow> 'd session \<Rightarrow> ('d, unit) op" where
  "act alloc py3 cb (SendRequest d) s = ignoring (session_send_request alloc d s)"
| "act alloc py3 cb (SendPush d) s = session_send_push alloc d s"
| "act alloc py3 cb (SendResponse q d) s = session_send_response alloc q d s"
| "act alloc py3 cb SendPing s = ignoring (session_send_ping alloc s)"
| "act alloc py3 cb (Close code reason) s = session_close alloc code reason False s"
| "act alloc py3 cb CloseTimeout s = Ret (close_timeout py3 s) (Inr ())"
| "act alloc py3 cb Terminate s = Ret (terminate py3 s) (Inr ())"
| "act alloc py3 cb SetPushHandler s = Ret (set_push_handler s) (Inr ())"
| "act alloc py3 cb PingLoopSend s = ignoring (ping_loop_send alloc s)"
| "act alloc py3 cb (PingLoopCheck i) s = ignoring (ping_loop_check alloc i s)"
| "act alloc py3 cb RunLoopWait s = Ret (fst (run_loop_wait s)) (Inr ())"
| "act alloc py3 cb (RunLoopRead io) s = ignoring (run_loop_read alloc py3 cb io s)"
| "act alloc py3 cb (RunLoopWrite prev io) s = ignoring (run_loop_write alloc py3 prev io s)"
| "act alloc py3 cb RunLoopEnd s = Ret (run_loop_end py3 s) (Inr ())"
| "act alloc py3 cb HubCallback s = Ret (s\<lparr>watcher := hub_runs_callback (watcher s)\<rparr>) (Inr ())"
| "act alloc py3 cb (MarkReady n r) s = Ret (s\<lparr>watcher := mark_ready n r (watcher s)\<rparr>) (Inr ())"

text \<open>A received chunk on which the handler is undefined (an empty handshake) is excluded.\<close>

fun allowed :: "allocator \<Rightarrow> 'd action \<Rightarrow> 'd session \<Rightarrow> bool" where
  "allowed alloc (RunLoopRead io) s = no_undefined_receive alloc io s"
| "allowed alloc a s = True"

lemma act_keeps:
  assumes "session_inv cl s" and "alloc_sane alloc" and "callbacks_keep cb" and "allowed alloc a s"
  shows "keeps (session_inv cl) (act alloc py3 cb a s)"
proof -
  show ?thesis
    using assms
    by (cases a)
      (auto intro!: ignoring_keeps session_send_request_keeps session_send_push_keeps session_send_response_keeps
        session_send_ping_keeps session_close_keeps close_timeout_inv terminate_inv set_push_handler_inv
        ping_loop_keeps run_loop_read_keeps run_loop_write_keeps run_loop_end_inv run_loop_wait_inv set_watcher_inv
        simp: session_inv_watcher)
qed

text \<open>A session with the calls that are suspended in it. A process ends in a state or is suspended.\<close>

type_synonym 'd suspended = "('d session \<Rightarrow> bool) \<times> ('d session \<Rightarrow> ('d, unit) op)"

inductive ends :: "('d, unit) op \<Rightarrow> 'd session \<Rightarrow> 'd suspended list \<Rightarrow> bool" where
  finished: "ends (Ret s r) s []"
| waits: "ends (Wait c s k) s [(c, k)]"

inductive_simps ends_simps: "ends (Ret s r) t ks" "ends (Wait c s k) t ks" "ends Undefined t ks"

inductive sys_step :: "bool \<Rightarrow> 'd callbacks \<Rightarrow> 'd session \<times> 'd suspended list \<Rightarrow>
    'd session \<times> 'd suspended list \<Rightarrow> bool" for py3 :: bool and cb :: "'d callbacks" where
  call: "alloc_sane alloc \<Longrightarrow> allowed alloc a s \<Longrightarrow> ends (act alloc py3 cb a s) s' new \<Longrightarrow>
    sys_step py3 cb (s, ks) (s', ks @ new)"
| resume: "c s \<Longrightarrow> ends (k s) s' new \<Longrightarrow> sys_step py3 cb (s, ks @ (c, k) # ks') (s', ks @ ks' @ new)"

inductive sys_reachable :: "bool \<Rightarrow> 'd callbacks \<Rightarrow> 'd session \<times> 'd suspended list \<Rightarrow> bool"
    for py3 :: bool and cb :: "'d callbacks" where
  open_session: "alloc_sane alloc \<Longrightarrow> session_cinit alloc fileno encs client on_req on_psh = Ret s (Inr ()) \<Longrightarrow>
    sys_reachable py3 cb (s, [])"
| step: "sys_reachable py3 cb c \<Longrightarrow> sys_step py3 cb c c' \<Longrightarrow> sys_reachable py3 cb c'"

definition suspended_ok :: "bool \<Rightarrow> 'd suspended \<Rightarrow> bool" where
  "suspended_ok cl x \<longleftrightarrow> (\<forall>t. session_inv cl t \<and> fst x t \<longrightarrow> keeps (session_inv cl) (snd x t))"

definition config_inv :: "bool \<Rightarrow> 'd session \<times> 'd suspended list \<Rightarrow> bool" where
  "config_inv cl c \<longleftrightarrow>
     session_inv cl (fst c) \<and> (\<forall>x \<in> set (snd c). suspended_ok cl x)"

lemma ends_keeps:
  "ends p s new \<Longrightarrow> keeps (session_inv cl) p \<Longrightarrow>
     session_inv cl s \<and> (\<forall>x \<in> set new. suspended_ok cl x)"
  by (induction rule: ends.induct) (auto simp: suspended_ok_def)

lemma sys_step_inv:
  assumes "sys_step py3 cb c c'" and "config_inv cl c" and "callbacks_keep cb"
  shows "config_inv cl c'"
  using assms
proof (induction rule: sys_step.induct)
  case (call alloc a s s' new ks)
  then show ?case
    using ends_keeps [OF call(3) act_keeps [OF _ call(1) _ call(2)]] by (auto simp: config_inv_def)
next
  case (resume P s k s' new ks ks')
  then have "keeps (session_inv cl) (k s)" by (simp add: config_inv_def suspended_ok_def)
  from ends_keeps [OF resume(2) this] show ?case using resume by (auto simp: config_inv_def)
qed

lemma session_cinit_keeps:
  fixes encs :: "(byte list \<times> 'd codec) list"
  assumes "alloc_sane alloc"
  shows "keeps (session_inv client) (session_cinit alloc fileno encs client on_req on_psh)"
proof -
  define s :: "'d session" where "s = \<lparr>is_client = client, stream = LoquiStreamHandler_cinit alloc, has_sock = True,
         watcher = SocketWatcher_cinit fileno, inflight_requests = [], available_encoders = encs,
         shutting_down = False, shutdown_event = False, close_event = False, ready_event = False,
         is_ready = False, session_ping_interval = 5, encoder_dumps = None, encoder_loads = None,
         session_encoding = None, has_on_request = (\<not> client \<and> on_req),
         has_on_push = on_psh, results = [], close_timers = 0\<rparr>"
  have s: "session_inv client s" using cinit_inv(1) by (simp add: s_def session_inv_defs)
  show ?thesis
    unfolding session_cinit_def Let_def s_def [symmetric] session_send_hello_def
    using s by (auto intro!: keeps_and_then send_push_keeps assms)
qed

lemma reachable_config_inv:
  assumes "sys_reachable py3 cb c" and "callbacks_keep cb"
  shows "\<exists>cl. config_inv cl c"
  using assms
proof (induction rule: sys_reachable.induct)
  case (open_session alloc fileno encs client on_req on_psh s)
  then show ?case
    using session_cinit_keeps [OF open_session(1), of client fileno encs on_req on_psh]
    by (intro exI [of _ client]) (simp add: config_inv_def)
qed (auto intro: sys_step_inv)

text \<open>A push that waits for the handshake.\<close>

definition idle_callbacks :: "nat callbacks" where
  "idle_callbacks = \<lparr>on_request = (\<lambda>q d s. Ret s (Inr None)), on_push = (\<lambda>d s. Ret s (Inr ()))\<rparr>"

lemma suspended_push:
  obtains s k where "sys_reachable True idle_callbacks (s, [(ready_event, k)])" and "\<not> is_client s"
proof -
  define s0 :: "(nat, unit) op" where "s0 = session_cinit big_allocator 3 [] False True True"
  obtain s :: "nat session" where s: "s0 = Ret s (Inr ())" and s': "has_sock s" "\<not> shutting_down s" "\<not> is_ready s"
      "\<not> ready_event s" "\<not> is_client s"
    by (simp add: s0_def session_cinit_def)
  have "sys_reachable True idle_callbacks (s, [])"
    by (rule open_session [OF big_allocator_sane]) (use s in \<open>simp add: s0_def\<close>)
  moreover obtain k where "act big_allocator True idle_callbacks (SendPush 7) s = Wait ready_event s k"
    using s' by (simp add: session_send_push_def defunct_def encode_data_def await_ready_def)
  ultimately have "sys_reachable True idle_callbacks (s, [(ready_event, k)])"
    using sys_step.call [OF big_allocator_sane, of "SendPush 7" s True idle_callbacks s "[(ready_event, k)]" "[]"]
    by (auto intro: step simp: ends_simps)
  then show ?thesis using that s'(5) by blast
qed

section \<open>Property\<close>



end
