(* ===== verification/Loqui_Exchange.thy ===== *)
theory Loqui_Exchange
  imports Loqui_Invariant
begin

text \<open>
  Two sessions that talk to each other: the handshake, a request and its answer, pings.
  \<open>quiet\<close> handlers are between two frames; sizes are bounded as in \<open>Loqui_Transfer\<close>.
\<close>

section \<open>One frame at a time\<close>

definition quiet :: "LoquiStreamHandler \<Rightarrow> bool" where
  "quiet h \<longleftrightarrow> receiver_ok h \<and> pending (decode_buffer h) = []"

definition frame_room :: nat where
  "frame_room = 2 ^ 26"

lemma wire_room:
  "length (frame_payload f) \<le> max_payload \<Longrightarrow> length (wire f) \<le> frame_room"
  by (cases f) (auto simp: wire_def size_field_def max_payload_def frame_room_def)

lemma queue_any:
  assumes "ample alloc" and "write_ok h" and "write_used h < 2 ^ 59" and "valid_command c"
  obtains h' where "perform alloc h c = Some (h', Inr (command_value h c))" and "write_ok h'"
    and "unsent h' = unsent h @ wire (command_frame (bump (sh_seq h)) c)" and "decode_buffer h' = decode_buffer h"
    and "sh_seq h' = seq_after (sh_seq h) c" and "write_used h' \<le> write_used h + frame_room"
proof -
  let ?f = "command_frame (bump (sh_seq h)) c"
  have len: "length (wire ?f) \<le> frame_room" by (rule wire_room [OF command_frame_payload [OF assms(4)]])
  have "\<not> refuses alloc (length (buf_bytes (write_buffer h)) + length (wire ?f))"
    using ample_refuses [OF assms(1)] len assms(3) by (fastforce simp: max_object_def write_used_def frame_room_def)
  then obtain h' where h': "perform alloc h c = Some (h', Inr (command_value h c))" "write_ok h'"
      "unsent h' = unsent h @ wire ?f" "decode_buffer h' = decode_buffer h" "sh_seq h' = seq_after (sh_seq h) c"
      "write_buffer_position h' = write_buffer_position h"
    using perform_outcome [OF assms(2) ample_sane [OF assms(1)], of c] start_state_fields [of h c]
    by (auto simp: send_outcome_def Let_def next_seq_bump)
  have "write_used h' = write_used h + length (wire ?f)"
    using queue_length [OF h'(2)] queue_length [OF assms(2)] h'(3,6) by (simp add: write_used_def)
  then show ?thesis using that [OF h'(1-5)] len by simp
qed

lemma queue_command:
  assumes "ample alloc" and "quiet h" and "write_used h < 2 ^ 59" and "valid_command c"
  obtains h' where "perform alloc h c = Some (h', Inr (command_value h c))" and "quiet h'"
    and "unsent h' = unsent h @ wire (command_frame (bump (sh_seq h)) c)"
    and "sh_seq h' = seq_after (sh_seq h) c" and "write_used h' \<le> write_used h + frame_room"
proof -
  have w: "write_ok h" using assms(2) by (simp add: quiet_def receiver_ok_def)
  show ?thesis
    by (rule queue_any [OF assms(1) w assms(3,4)]) (use that assms(2) in \<open>simp add: quiet_def receiver_ok_def\<close>)
qed

lemma receive_command:
  assumes "ample alloc" and "quiet h" and "write_used h < 2 ^ 59"
    and "length (frame_payload f) \<le> max_payload" and "legal f ev"
  obtains h' where "on_bytes_received alloc h (Some (wire f)) = Some (h', Inr [ev])" and "quiet h'"
    and "unsent h' = unsent h @ concat (List.map wire (frame_reply f))"
    and "sh_seq h' = sh_seq h" and "write_used h' \<le> write_used h + frame_room"
proof -
  have "stream_events (wire f) = Some ([ev], concat (List.map wire (frame_reply f)), [])"
    using stream_frames_wires [of "[f]"] assms(4,5) by (simp add: stream_events_iff)
  moreover have "write_used h + length (wire f) < receive_limit"
    using wire_room [OF assms(4)] assms(3) by (simp add: receive_limit_def frame_room_def)
  ultimately show ?thesis
    using receive_bytes [OF assms(1), of h "wire f"] assms(2) that wire_room [OF assms(4)]
    by (fastforce simp: quiet_def)
qed

text \<open>A session that receives the bytes of one frame.\<close>

lemma session_receives:
  assumes "ample alloc" and "quiet (stream s)" and "write_used (stream s) < 2 ^ 59"
    and "length (frame_payload f) \<le> max_payload" and "legal f ev"
  obtains h where "handle_data_received py3 alloc cb (wire f) s =
      and_then (if is_client s then handle_client_event alloc cb ev (s\<lparr>stream := h\<rparr>)
        else handle_server_event py3 alloc cb ev (s\<lparr>stream := h\<rparr>)) (\<lambda>s _. Ret (resume_sending s) (Inr ()))"
    and "quiet h" and "unsent h = unsent (stream s) @ concat (List.map wire (frame_reply f))"
    and "sh_seq h = sh_seq (stream s)" and "write_used h \<le> write_used (stream s) + frame_room"
  by (rule receive_command [OF assms]; cases "is_client s")
    (use that in \<open>auto simp: handle_data_received_def Let_def handle_client_events_def handle_server_events_def\<close>)

section \<open>Requests\<close>

text \<open>A session whose handshake is done and that is open, with the codec that was chosen.\<close>

definition established :: "'d codec \<Rightarrow> 'd session \<Rightarrow> bool" where
  "established c s \<longleftrightarrow>
     is_ready s \<and> has_sock s \<and> \<not> shutting_down s \<and> encoder_dumps s = Some (codec_dumps c) \<and>
     encoder_loads s = Some (codec_loads c) \<and> quiet (stream s)"

text \<open>The same, possibly with an incomplete frame in the decode buffer.\<close>

definition usable :: "'d codec \<Rightarrow> 'd session \<Rightarrow> bool" where
  "usable c s \<longleftrightarrow>
     is_ready s \<and> has_sock s \<and> \<not> shutting_down s \<and> encoder_dumps s = Some (codec_dumps c) \<and>
     encoder_loads s = Some (codec_loads c) \<and> receiver_ok (stream s)"

lemma established_usable: "established c s \<longleftrightarrow> usable c s \<and> pending (decode_buffer (stream s)) = []"
  by (auto simp: established_def usable_def quiet_def)

lemma usable_open: "usable c s \<Longrightarrow> \<not> defunct s" "usable c s \<Longrightarrow> await_ready s k = k s"
  by (simp_all add: usable_def defunct_def await_ready_def)

text \<open>A value that the codec transports. Empty bytes arrive as \<open>None\<close>.\<close>

definition transports :: "'d codec \<Rightarrow> 'd \<Rightarrow> byte list \<Rightarrow> bool" where
  "transports c d b \<longleftrightarrow>
     codec_dumps c d = Inr (Some b) \<and> codec_loads c (opt_payload b) = Inr d \<and> length b \<le> max_payload"

text \<open>An application that answers every request at once.\<close>

definition answers_with :: "('d \<Rightarrow> 'd) \<Rightarrow> 'd callbacks \<Rightarrow> bool" where
  "answers_with f cb \<longleftrightarrow> (\<forall>q x s. on_request cb q x s = Ret s (Inr (Some (f x))))"

lemma established_ready:
  assumes "established c s"
  shows "await_ready s k = k s" and "\<not> defunct s"
  using assms by (simp_all add: established_def await_ready_def defunct_def)

lemma resume_sending_fields [simp]:
  "stream (resume_sending s) = stream s" "results (resume_sending s) = results s"
  "inflight_requests (resume_sending s) = inflight_requests s" "is_client (resume_sending s) = is_client s"
  "has_sock (resume_sending s) = has_sock s" "shutting_down (resume_sending s) = shutting_down s"
  "is_ready (resume_sending s) = is_ready s" "ready_event (resume_sending s) = ready_event s"
  "encoder_dumps (resume_sending s) = encoder_dumps s" "encoder_loads (resume_sending s) = encoder_loads s"
  "shutdown_event (resume_sending s) = shutdown_event s" "close_event (resume_sending s) = close_event s"
  "session_encoding (resume_sending s) = session_encoding s"
  "session_ping_interval (resume_sending s) = session_ping_interval s"
  "has_on_request (resume_sending s) = has_on_request s"
  by (simp_all add: resume_sending_def)

lemma send_request_usable:
  assumes "ample alloc" and "usable c s" and "is_client s" and "codec_dumps c d = Inr (Some b)"
    and "length b \<le> max_payload" and "write_used (stream s) < 2 ^ 59"
  obtains h where "session_send_request alloc d s = (if bump (sh_seq (stream s)) = 0
        then Ret (s\<lparr>results := results s @ [None], stream := h\<rparr>) (Inl SystemError)
        else Ret (resume_sending (put_inflight (bump (sh_seq (stream s))) (Waiting (length (results s)))
          (s\<lparr>results := results s @ [None], stream := h\<rparr>))) (Inr (length (results s))))"
    and "write_ok h" and "unsent h = unsent (stream s) @ wire (FRequest 0 (bump (sh_seq (stream s))) b)"
    and "decode_buffer h = decode_buffer (stream s)" and "sh_seq h = bump (sh_seq (stream s))"
    and "write_used h \<le> write_used (stream s) + frame_room"
proof -
  have v: "valid_command (CmdRequest 0 b)" using assms(5) by (simp add: valid_command_def)
  have sp: "sent_payload b = b"
    using assms(5) by (intro sent_payload_small) (simp add: max_payload_def)
  have w: "write_ok (stream s)" using assms(2) by (simp add: usable_def receiver_ok_def)
  show ?thesis
    by (rule queue_any [OF assms(1) w assms(6) v]; cases "bump (sh_seq (stream s)) = 0")
      (use that assms in
        \<open>auto simp: usable_open [OF assms(2)] session_send_request_def encode_data_def usable_def new_result_def on_stream_def
          command_frame_def command_value_def next_seq_bump except0_def seq_after_def sp\<close>)
qed

lemma send_request_established:
  assumes "ample alloc" and "established c s" and "is_client s" and "codec_dumps c d = Inr (Some b)"
    and "length b \<le> max_payload" and "bump (sh_seq (stream s)) \<noteq> 0" and "write_used (stream s) < 2 ^ 59"
  obtains h where "session_send_request alloc d s = Ret (resume_sending (put_inflight (bump (sh_seq (stream s)))
        (Waiting (length (results s))) (s\<lparr>results := results s @ [None], stream := h\<rparr>))) (Inr (length (results s)))"
    and "quiet h" and "unsent h = unsent (stream s) @ wire (FRequest 0 (bump (sh_seq (stream s))) b)"
    and "write_used h \<le> write_used (stream s) + frame_room"
proof -
  have u: "usable c s" "quiet (stream s)"
    using assms(2) by (simp_all add: established_usable established_def quiet_def usable_def)
  show ?thesis
    by (rule send_request_usable [OF assms(1) u(1) assms(3-5,7)])
      (use that assms(6) u(2) in \<open>auto simp: quiet_def receiver_ok_def\<close>)
qed

lemma send_response_usable:
  assumes "ample alloc" and "usable c s" and "\<not> is_client s" and "map_of (inflight_requests s) q = Some r"
    and "codec_dumps c x = Inr (Some b)" and "length b \<le> max_payload" and "write_used (stream s) < 2 ^ 59"
  obtains h where "session_send_response alloc q x s =
      Ret (resume_sending (s\<lparr>inflight_requests := AList.delete q (inflight_requests s), stream := h\<rparr>)) (Inr ())"
    and "write_ok h" and "unsent h = unsent (stream s) @ wire (FResponse 0 q b)"
    and "decode_buffer h = decode_buffer (stream s)" and "sh_seq h = sh_seq (stream s)"
    and "write_used h \<le> write_used (stream s) + frame_room"
proof -
  have v: "valid_command (CmdResponse 0 q b)" using assms(6) by (simp add: valid_command_def)
  have sp: "sent_payload b = b"
    using assms(6) by (intro sent_payload_small) (simp add: max_payload_def)
  have w: "write_ok (stream s)" using assms(2) by (simp add: usable_def receiver_ok_def)
  show ?thesis
    by (rule queue_any [OF assms(1) w assms(7) v])
      (use that assms in
        \<open>auto simp: usable_def session_send_response_def defunct_def pop_inflight_def encode_data_def await_ready_def
          on_stream_def command_frame_def command_value_def except0_def sp seq_after_def\<close>)
qed

text \<open>What \<open>handle_request\<close> does up to the application's answer.\<close>

lemma request_handled:
  assumes "usable c s" and "has_on_request s" and "codec_loads c (opt_payload p) = Inr x"
    and "on_request cb q x (put_inflight q (Serving q) s) = Ret (put_inflight q (Serving q) s) (Inr y)"
  shows "handle_request alloc cb fl q (opt_payload p) s = (case y of
      None \<Rightarrow> Ret (put_inflight q (Serving q) s) (Inr ())
    | Some r \<Rightarrow> session_send_response alloc q r (put_inflight q (Serving q) s))"
  using assms by (simp add: handle_request_def decode_data_def await_ready_def usable_def)

lemma put_inflight_usable [simp]: "usable c (put_inflight q r s) = usable c s"
  by (simp add: usable_def put_inflight_def)

lemma request_served:
  assumes "ample alloc" and "established c s" and "\<not> is_client s" and "has_on_request s"
    and "answers_with f cb" and "codec_loads c (opt_payload p) = Inr x" and "codec_dumps c (f x) = Inr (Some b)"
    and "length b \<le> max_payload" and "write_used (stream s) < 2 ^ 59"
  obtains h where "handle_request alloc cb fl q (opt_payload p) s =
      Ret (resume_sending (s\<lparr>inflight_requests := AList.delete q (inflight_requests s), stream := h\<rparr>)) (Inr ())"
    and "quiet h" and "unsent h = unsent (stream s) @ wire (FResponse 0 q b)"
    and "sh_seq h = sh_seq (stream s)" and "write_used h \<le> write_used (stream s) + frame_room"
proof -
  let ?t = "put_inflight q (Serving q) s"
  have u: "usable c s" "quiet (stream s)"
    using assms(2) by (simp_all add: established_usable quiet_def usable_def)
  have t: "usable c ?t" "\<not> is_client ?t" "map_of (inflight_requests ?t) q = Some (Serving q)" "write_used (stream ?t) < 2 ^ 59"
    using u assms(3,9) by (simp_all add: usable_def put_inflight_def update_conv)
  have upd: "AList.delete q (AList.update q v al) = AList.delete q al" for v and al :: "(u32 \<times> inflight) list"
    by (rule AList.delete_update_same)
  show ?thesis
    by (rule send_response_usable [OF assms(1) t(1-3) assms(7,8) t(4)])
      (use that request_handled [OF u(1) assms(4,6), of cb q "Some (f x)"] assms(5) u(2) in
        \<open>simp add: answers_with_def put_inflight_def upd quiet_def receiver_ok_def\<close>)
qed

section \<open>The handshake\<close>

lemma member_join: "x \<in> set names \<Longrightarrow> length x \<le> length (bytes_join sep names)"
  by (induction sep names rule: bytes_join.induct) auto

text \<open>An empty list of compressors and a list of one empty name are sent alike.\<close>

lemma send_hello_no_compressors: "send_hello alloc h fl encs [] = perform alloc h (CmdHello fl encs [[]])"
  by (simp add: send_hello_def)

lemma pick_first:
  "\<forall>x \<in> set xs. map_of avail x = None \<Longrightarrow> map_of avail e = Some c \<Longrightarrow>
     pick_best_encoding avail (xs @ e # ys) = Some (e, c)"
  by (induction xs) auto

lemma cinit_quiet: "quiet (LoquiStreamHandler_cinit alloc)" "write_used (LoquiStreamHandler_cinit alloc) = 0"
    "unsent (LoquiStreamHandler_cinit alloc) = []" "sh_seq (LoquiStreamHandler_cinit alloc) = 0"
  using cinit_inv by (simp_all add: quiet_def)

definition hello_of :: "byte list list \<Rightarrow> command" where
  "hello_of encs = CmdHello 0 encs [[]]"

lemma client_opens:
  assumes "ample alloc" and "valid_command (hello_of (List.map fst encs))"
  obtains h and s :: "'d session" where "session_cinit alloc n encs True rq ps = Ret s (Inr ())" and "stream s = h"
    and "quiet h" and "unsent h = wire (command_frame 1 (hello_of (List.map fst encs)))"
    and "write_used h \<le> frame_room" and "is_client s" and "available_encoders s = encs" and "has_sock s"
    and "\<not> shutting_down s" and "inflight_requests s = []" and "results s = []"
    and "sh_seq h = 0" and "\<not> is_ready s" and "\<not> ready_event s"
proof -
  let ?h = "LoquiStreamHandler_cinit alloc"
  have b: "bump 0 = 1" by (simp add: bump_def SEQ_MAX_def word_le_nat_alt)
  show ?thesis
    by (rule queue_command [OF assms(1) cinit_quiet(1) _ assms(2), of alloc])
      (use that in \<open>auto simp: session_cinit_def Let_def session_send_hello_def send_hello_no_compressors
        hello_of_def on_stream_def command_value_def except0_def cinit_quiet b seq_after_def\<close>)
qed

lemma server_accepts:
  fixes s :: "'d session"
  assumes "ample alloc" and "quiet (stream s)" and "write_used (stream s) < 2 ^ 57" and "\<not> is_client s"
    and "has_sock s" and "\<not> shutting_down s" and "encs = xs @ e # ys" and "valid_command (hello_of encs)"
    and "\<forall>x \<in> set xs. map_of (available_encoders s) x = None" and "map_of (available_encoders s) e = Some c"
    and "e \<noteq> []"
  obtains h t where "handle_data_received False alloc cb (wire (command_frame 1 (hello_of encs))) s = Ret t (Inr ())"
    and "established c t" and "session_encoding t = Some e" and "\<not> is_client t" and "stream t = h"
    and "unsent h = unsent (stream s) @ wire (FHelloAck 0 (session_ping_interval s * 1000) (e @ [PIPE]))"
    and "session_ping_interval t = session_ping_interval s" and "is_client t = is_client s"
proof -
  let ?f = "command_frame 1 (hello_of encs)"
  have payload: "length (frame_payload ?f) \<le> max_payload" by (rule command_frame_payload [OF assms(8)])
  have legal: "legal ?f (Hello 0 LOQUI_VERSION encs [[]])"
    using command_legal [OF assms(8), of 1] by (simp add: hello_of_def)
  have ack: "valid_command (CmdHelloAck 0 n e None)" for n
    using assms(7,8) member_join [of e encs COMMA]
    by (auto simp: valid_command_def hello_of_def plain_name_def opt_bytes_def)
  have reply: "frame_reply ?f = []" by (simp add: hello_of_def command_frame_def)
  obtain h1 where r: "handle_data_received False alloc cb (wire ?f) s =
        and_then (handle_hello False alloc encs (s\<lparr>stream := h1\<rparr>)) (\<lambda>s _. Ret (resume_sending s) (Inr ()))"
      and h1: "quiet h1" "unsent h1 = unsent (stream s)" "write_used h1 \<le> write_used (stream s) + frame_room"
    by (rule session_receives [where ?py3.0 = False and cb = cb, OF assms(1,2) _ payload legal])
      (use assms(3,4) reply in \<open>auto simp: handle_server_event_def\<close>)
  have room: "write_used h1 < 2 ^ 59" using h1(3) assms(3) by (simp add: frame_room_def)
  obtain h2 where h2: "send_hello_ack False alloc h1 0 (session_ping_interval s * 1000) e None = Some (h2, Inr 1)" "quiet h2"
      "unsent h2 = unsent h1 @ wire (command_frame (bump (sh_seq h1)) (CmdHelloAck 0 (session_ping_interval s * 1000) e None))"
      "write_used h2 \<le> write_used h1 + frame_room"
    by (rule queue_command [OF assms(1) h1(1) room ack [of "session_ping_interval s * 1000"]])
      (use that in \<open>auto simp: command_value_def\<close>)
  have "sent_payload (e @ [PIPE]) = e @ [PIPE]"
    using ack [of 0] by (intro sent_payload_small) (simp add: valid_command_def opt_bytes_def max_payload_def)
  then have "unsent h2 = unsent (stream s) @ wire (FHelloAck 0 (session_ping_interval s * 1000) (e @ [PIPE]))"
    using h2(3) h1(2) by (simp add: command_frame_def opt_bytes_def)
  moreover define t where "t = resume_sending (s\<lparr>stream := h1, encoder_dumps := Some (codec_dumps c),
      encoder_loads := Some (codec_loads c), session_encoding := Some e, stream := h2, is_ready := True,
      ready_event := True\<rparr>)"
  moreover have "handle_data_received False alloc cb (wire ?f) s = Ret t (Inr ())"
    using assms(4-7,9-11) h2(1) r
    by (simp add: t_def handle_hello_def pick_first session_send_hello_ack_def defunct_def on_stream_def except0_def)
  ultimately show ?thesis
    using that [of t h2] assms(3-6) h1(3) h2(2,4) by (simp add: established_def frame_room_def)
qed

lemma client_accepts:
  fixes s :: "'d session"
  assumes "ample alloc" and "quiet (stream s)" and "write_used (stream s) < 2 ^ 57" and "is_client s"
    and "has_sock s" and "\<not> shutting_down s" and "map_of (available_encoders s) e = Some c"
    and "PIPE \<notin> set e" and "length e < max_payload"
  obtains t where "handle_data_received py3 alloc cb (wire (FHelloAck 0 pint (e @ [PIPE]))) s = Ret t (Inr ())"
    and "established c t" and "session_encoding t = Some e" and "is_client t" and "unsent (stream t) = unsent (stream s)"
    and "session_ping_interval t = pint div 1000"
proof -
  let ?f = "FHelloAck 0 pint (e @ [PIPE])"
  have legal: "legal ?f (HelloAck 0 pint e [])"
    using split_pair_joined [of e "[]"] assms(8) by (simp add: legal_def)
  have payload: "length (frame_payload ?f) \<le> max_payload" using assms(9) by simp
  show ?thesis
    by (rule session_receives [where ?py3.0 = py3 and cb = cb, OF assms(1,2) _ payload legal])
      (use that assms in \<open>auto simp: handle_client_event_def handle_hello_ack_def established_def frame_room_def\<close>)
qed

section \<open>Properties\<close>

text \<open>
  C15: The handshake agrees (with a server on Python 2). A client with encodings whose names are not empty and free of the
  separators opens and sends its HELLO; the server picks the first of them, in the client's order, that it
  knows itself, and answers; then both sessions are ready with that encoding and each side's own codec for
  it, and the client pings at the server's interval.
\<close>

theorem handshake_agrees:
  fixes client_encs server_encs :: "(byte list \<times> 'd codec) list"
  assumes "ample alloc" and "List.map fst client_encs = xs @ e # ys" and "list_all plain_name (xs @ e # ys)"
    and "length (bytes_join COMMA (xs @ e # ys)) < max_payload" and "e \<noteq> []"
    and "\<forall>x \<in> set xs. map_of server_encs x = None" and "map_of server_encs e = Some sc"
    and "map_of client_encs e = Some cc"
  shows "\<exists>c0 s0 s1 c1.
    session_cinit alloc n client_encs True rq ps = Ret c0 (Inr ()) \<and>
    session_cinit alloc n' server_encs False rq' ps' = Ret s0 (Inr ()) \<and>
    handle_data_received False alloc cb (unsent (stream c0)) s0 = Ret s1 (Inr ()) \<and>
    handle_data_received py3 alloc cb' (unsent (stream s1)) c0 = Ret c1 (Inr ()) \<and>
    established sc s1 \<and> established cc c1 \<and>
    session_encoding s1 = Some e \<and> session_encoding c1 = Some e \<and>
    session_ping_interval c1 = session_ping_interval s1"
proof -
  have v: "valid_command (hello_of (List.map fst client_encs))"
    using assms(2-4) by (simp add: valid_command_def hello_of_def plain_name_def)
  obtain c0 :: "'d session" where c0: "session_cinit alloc n client_encs True rq ps = Ret c0 (Inr ())"
      "quiet (stream c0)" "unsent (stream c0) = wire (command_frame 1 (hello_of (xs @ e # ys)))"
      "write_used (stream c0) \<le> frame_room" "is_client c0" "available_encoders c0 = client_encs" "has_sock c0"
      "\<not> shutting_down c0"
    by (rule client_opens [OF assms(1) v, of n rq ps]) (use assms(2) in auto)
  obtain s0 :: "'d session" where s0: "session_cinit alloc n' server_encs False rq' ps' = Ret s0 (Inr ())"
      "stream s0 = LoquiStreamHandler_cinit alloc" "\<not> is_client s0" "available_encoders s0 = server_encs"
      "has_sock s0" "\<not> shutting_down s0" "session_ping_interval s0 = 5"
    by (auto simp: session_cinit_def)
  obtain h s1 where s1: "handle_data_received False alloc cb (unsent (stream c0)) s0 = Ret s1 (Inr ())" "established sc s1"
      "session_encoding s1 = Some e" "stream s1 = h" "unsent h = wire (FHelloAck 0 5000 (e @ [PIPE]))"
      "session_ping_interval s1 = 5"
    by (rule server_accepts [of alloc s0 "xs @ e # ys" xs e ys sc cb])
      (use assms v s0 c0(3) in \<open>auto simp: cinit_quiet\<close>)
  have e: "PIPE \<notin> set e" "length e < max_payload"
    using assms(3,4) member_join [of e "xs @ e # ys" COMMA] by (auto simp: plain_name_def)
  obtain c1 where "handle_data_received py3 alloc cb' (unsent (stream s1)) c0 = Ret c1 (Inr ())" "established cc c1"
      "session_encoding c1 = Some e" "session_ping_interval c1 = 5000 div 1000"
    by (rule client_accepts [where ?py3.0 = py3 and cb = cb' and pint = 5000 and s = c0 and e = e and c = cc]) (use assms c0 e s1 in \<open>auto simp: frame_room_def\<close>)
  moreover have "5000 div 1000 = (5 :: u32)" by simp
  ultimately show ?thesis using c0(1) s0(1) s1 by metis
qed

text \<open>The codec that leaves bytes as they are.\<close>

definition plain_codec :: "byte list codec" where
  "plain_codec = \<lparr>codec_dumps = (\<lambda>d. Inr (Some d)), codec_loads = (\<lambda>b. Inr (opt_bytes b))\<rparr>"

lemma plain_transports: "length d \<le> max_payload \<Longrightarrow> transports plain_codec d d"
  by (simp add: transports_def plain_codec_def opt_bytes_def opt_payload_def)

text \<open>The client prefers an encoding that the server does not have.\<close>

lemma handshake_agrees_witness:
  "\<exists>c0 s0 s1 c1 :: byte list session.
    session_cinit big_allocator 3 [([106], plain_codec), ([109], plain_codec)] True True True = Ret c0 (Inr ()) \<and>
    session_cinit big_allocator 4 [([109], plain_codec)] False True True = Ret s0 (Inr ()) \<and>
    handle_data_received False big_allocator \<lparr>on_request = (\<lambda>q d s. Ret s (Inr None)), on_push = (\<lambda>d s. Ret s (Inr ()))\<rparr>
      (unsent (stream c0)) s0 = Ret s1 (Inr ()) \<and>
    established plain_codec s1 \<and> established plain_codec c1 \<and> session_encoding c1 = Some [109]"
  using handshake_agrees [of big_allocator "[([106], plain_codec), ([109], plain_codec)]" "[[106]]" "[109]" "[]"
      "[([109], plain_codec)]" plain_codec plain_codec 3 True True 4 True True
      "\<lparr>on_request = (\<lambda>q d s. Ret s (Inr None)), on_push = (\<lambda>d s. Ret s (Inr ()))\<rparr>" False
      "\<lparr>on_request = (\<lambda>q d s. Ret s (Inr None)), on_push = (\<lambda>d s. Ret s (Inr ()))\<rparr>"] ample_exists
  by (fastforce simp: plain_name_def COMMA_def PIPE_def max_payload_def)

lemma request_exchange:
  assumes "ample alloc" and "established cd c" and "is_client c" and "unsent (stream c) = []"
    and "established cd s" and "\<not> is_client s" and "has_on_request s" and "unsent (stream s) = []"
    and "transports cd d b" and "transports cd (f d) b'" and "answers_with f cb"
    and "bump (sh_seq (stream c)) \<noteq> 0" and "write_used (stream c) < 2 ^ 58" and "write_used (stream s) < 2 ^ 58"
  shows "\<exists>c1 s1 c2. session_send_request alloc d c = Ret c1 (Inr (length (results c))) \<and>
    results c1 = results c @ [None] \<and>
    handle_data_received py3 alloc cb (unsent (stream c1)) s = Ret s1 (Inr ()) \<and>
    handle_data_received py3 alloc cb' (unsent (stream s1)) c1 = Ret c2 (Inr ()) \<and>
    results c2 = results c @ [Some (Data (f d))] \<and>
    inflight_requests c2 = AList.delete (bump (sh_seq (stream c))) (inflight_requests c)"
proof -
  let ?q = "bump (sh_seq (stream c))"
  note tr = assms(9,10) [unfolded transports_def]
  obtain h where send: "session_send_request alloc d c = Ret (resume_sending (put_inflight ?q
        (Waiting (length (results c))) (c\<lparr>results := results c @ [None], stream := h\<rparr>))) (Inr (length (results c)))"
      and h: "quiet h" "unsent h = wire (FRequest 0 ?q b)" "write_used h \<le> write_used (stream c) + frame_room"
    by (rule send_request_established [OF assms(1-3) _ _ assms(12), of d b]) (use tr assms(4,13) in auto)
  define c1 where "c1 = resume_sending (put_inflight ?q (Waiting (length (results c)))
      (c\<lparr>results := results c @ [None], stream := h\<rparr>))"
  have qs: "quiet (stream s)" using assms(5) by (simp add: established_def)
  obtain h1 where recv: "handle_data_received py3 alloc cb (wire (FRequest 0 ?q b)) s =
        and_then (handle_request alloc cb 0 ?q (opt_payload b) (s\<lparr>stream := h1\<rparr>)) (\<lambda>s _. Ret (resume_sending s) (Inr ()))"
      and h1: "quiet h1" "unsent h1 = []" "write_used h1 \<le> write_used (stream s) + frame_room"
    by (rule session_receives [OF assms(1) qs(1), of "FRequest 0 ?q b" "Request 0 ?q (opt_payload b)" py3 cb])
      (use assms(14) tr assms(6,8) in \<open>auto simp: legal_def handle_server_event_def\<close>)
  have s: "established cd (s\<lparr>stream := h1\<rparr>)" "\<not> is_client (s\<lparr>stream := h1\<rparr>)" "has_on_request (s\<lparr>stream := h1\<rparr>)"
    "write_used (stream (s\<lparr>stream := h1\<rparr>)) < 2 ^ 59"
    using assms(5-7,14) h1 by (simp_all add: established_def frame_room_def)
  obtain h2 where serve: "handle_request alloc cb 0 ?q (opt_payload b) (s\<lparr>stream := h1\<rparr>) =
        Ret (resume_sending (s\<lparr>inflight_requests := AList.delete ?q (inflight_requests s), stream := h2\<rparr>)) (Inr ())"
      and h2: "unsent h2 = wire (FResponse 0 ?q b')"
    by (rule request_served [OF assms(1) s(1-3) assms(11), of b d b' 0 ?q]) (use tr h1(2) s(4) in auto)
  define s1 where "s1 = resume_sending (resume_sending
      (s\<lparr>inflight_requests := AList.delete ?q (inflight_requests s), stream := h2\<rparr>))"
  have c1: "quiet (stream c1)" "is_client c1" "write_used (stream c1) < 2 ^ 59" "results c1 = results c @ [None]"
    "is_ready c1" "encoder_loads c1 = Some (codec_loads cd)"
    "inflight_requests c1 = AList.update ?q (Waiting (length (results c))) (inflight_requests c)"
    using assms(2,3,13) h by (simp_all add: c1_def put_inflight_def established_def frame_room_def)
  obtain h3 where answer: "handle_data_received py3 alloc cb' (wire (FResponse 0 ?q b')) c1 =
        and_then (handle_response 0 ?q (opt_payload b') (c1\<lparr>stream := h3\<rparr>)) (\<lambda>s _. Ret (resume_sending s) (Inr ()))"
    by (rule session_receives [OF assms(1) c1(1,3), of "FResponse 0 ?q b'" "Response 0 ?q (opt_payload b')" py3 cb'])
      (use tr c1(2) in \<open>auto simp: legal_def handle_client_event_def\<close>)
  define c2 where "c2 = resume_sending (set_result (length (results c)) (Data (f d))
      (c1\<lparr>stream := h3, inflight_requests := AList.delete ?q (inflight_requests c1)\<rparr>))"
  have "handle_data_received py3 alloc cb' (wire (FResponse 0 ?q b')) c1 = Ret c2 (Inr ())"
    using c1 tr by (simp add: answer c2_def handle_response_def pop_inflight_def update_conv decode_data_def await_ready_def)
  moreover have "results c2 = results c @ [Some (Data (f d))]" "inflight_requests c2 = AList.delete ?q (inflight_requests c)"
    using c1 by (simp_all add: c2_def set_result_def delete_update_same)
  moreover have "handle_data_received py3 alloc cb (unsent (stream c1)) s = Ret s1 (Inr ())"
    using recv serve h by (simp add: c1_def put_inflight_def s1_def)
  moreover have "unsent (stream s1) = wire (FResponse 0 ?q b')" by (simp add: s1_def h2)
  ultimately show ?thesis using send c1(4) c1_def by metis
qed

text \<open>
  A request is answered. On two established sessions, \<open>send_request\<close> on the client returns
  a result that is still empty; the server, given the bytes, calls the application and queues its answer;
  the client, given those, puts exactly the application's answer into that result, and forgets the
  request; no other result changes.
\<close>

theorem request_answered:
  assumes "ample alloc" and "established cd c" and "is_client c" and "unsent (stream c) = []"
    and "established cd s" and "\<not> is_client s" and "has_on_request s" and "unsent (stream s) = []"
    and "transports cd d b" and "transports cd (f d) b'" and "answers_with f cb"
    and "bump (sh_seq (stream c)) \<noteq> 0" and "write_used (stream c) < 2 ^ 58" and "write_used (stream s) < 2 ^ 58"
  shows "\<exists>c1 s1 c2. session_send_request alloc d c = Ret c1 (Inr (length (results c))) \<and>
    results c1 = results c @ [None] \<and>
    handle_data_received py3 alloc cb (unsent (stream c1)) s = Ret s1 (Inr ()) \<and>
    handle_data_received py3 alloc cb' (unsent (stream s1)) c1 = Ret c2 (Inr ()) \<and>
    results c2 = results c @ [Some (Data (f d))] \<and>
    inflight_requests c2 = AList.delete (bump (sh_seq (stream c))) (inflight_requests c)"
  using request_exchange [OF assms] .

text \<open>A session after its handshake, with \<open>plain_codec\<close>.\<close>

definition ready_session :: "bool \<Rightarrow> byte list session" where
  "ready_session client =
     \<lparr>is_client = client, stream = LoquiStreamHandler_cinit big_allocator, has_sock = True,
      watcher = SocketWatcher_cinit 3, inflight_requests = [], available_encoders = [([106], plain_codec)],
      shutting_down = False, shutdown_event = False, close_event = False, ready_event = True, is_ready = True,
      session_ping_interval = 5, encoder_dumps = Some (codec_dumps plain_codec),
      encoder_loads = Some (codec_loads plain_codec), session_encoding = Some [106],
      has_on_request = (\<not> client), has_on_push = True, results = [], close_timers = 0\<rparr>"

lemma ready_session_ok:
  "established plain_codec (ready_session client)" "session_inv client (ready_session client)"
  "unsent (stream (ready_session client)) = []" "write_used (stream (ready_session client)) = 0"
  "bump (sh_seq (stream (ready_session client))) = 1"
  by (simp_all add: ready_session_def established_def cinit_quiet session_inv_defs cinit_inv bump_def SEQ_MAX_def
      word_le_nat_alt)

text \<open>An application that reverses.\<close>

definition reversing :: "byte list callbacks" where
  "reversing = \<lparr>on_request = (\<lambda>q x s. Ret s (Inr (Some (rev x)))), on_push = (\<lambda>d s. Ret s (Inr ()))\<rparr>"

lemma reversing_answers: "answers_with rev reversing"
  by (simp add: answers_with_def reversing_def)

lemma request_answered_witness:
  "\<exists>c1 s1 c2. session_send_request big_allocator [1, 2] (ready_session True) = Ret c1 (Inr 0) \<and>
    handle_data_received True big_allocator reversing (unsent (stream c1)) (ready_session False) = Ret s1 (Inr ()) \<and>
    handle_data_received True big_allocator reversing (unsent (stream s1)) c1 = Ret c2 (Inr ()) \<and>
    results c2 = [Some (Data [2, 1])]"
proof -
  have "is_client (ready_session True)" "\<not> is_client (ready_session False)" "has_on_request (ready_session False)"
    "results (ready_session True) = []"
    by (simp_all add: ready_session_def)
  then show ?thesis
    using request_answered [of big_allocator plain_codec "ready_session True" "ready_session False" "[1, 2]" "[1, 2]"
        rev "[2, 1]" reversing True reversing]
      ample_exists plain_transports [of "[1, 2]"] plain_transports [of "[2, 1]"] reversing_answers
    by (auto simp: ready_session_ok max_payload_def)
qed

section \<open>Pings\<close>

lemma send_ping_any:
  assumes "ample alloc" and "write_ok (stream s)" and "\<not> defunct s" and "write_used (stream s) < 2 ^ 59"
  obtains h where "session_send_ping alloc s = (if bump (sh_seq (stream s)) = 0
        then Ret (s\<lparr>results := results s @ [None], stream := h\<rparr>) (Inl SystemError)
        else Ret (resume_sending (put_inflight (bump (sh_seq (stream s))) (Waiting (length (results s)))
          (s\<lparr>results := results s @ [None], stream := h\<rparr>))) (Inr (length (results s))))"
    and "write_ok h" and "unsent h = unsent (stream s) @ wire (FPing 0 (bump (sh_seq (stream s))))"
    and "decode_buffer h = decode_buffer (stream s)" and "write_used h \<le> write_used (stream s) + frame_room"
  by (rule queue_any [OF assms(1,2,4), of "CmdPing 0"]; cases "bump (sh_seq (stream s)) = 0")
    (use that assms in \<open>auto simp: session_send_ping_def new_result_def on_stream_def valid_command_def
      command_frame_def command_value_def next_seq_bump except0_def\<close>)

lemma send_ping_open:
  assumes "ample alloc" and "quiet (stream s)" and "\<not> defunct s" and "bump (sh_seq (stream s)) \<noteq> 0"
    and "write_used (stream s) < 2 ^ 59"
  obtains h where "session_send_ping alloc s = Ret (resume_sending (put_inflight (bump (sh_seq (stream s)))
        (Waiting (length (results s))) (s\<lparr>results := results s @ [None], stream := h\<rparr>))) (Inr (length (results s)))"
    and "quiet h" and "unsent h = unsent (stream s) @ wire (FPing 0 (bump (sh_seq (stream s))))"
    and "write_used h \<le> write_used (stream s) + frame_room"
proof -
  have w: "write_ok (stream s)" using assms(2) by (simp add: quiet_def receiver_ok_def)
  show ?thesis
    by (rule send_ping_any [OF assms(1) w assms(3,5)]) (use that assms(2,4) in \<open>simp add: quiet_def receiver_ok_def\<close>)
qed

lemma close_open:
  assumes "ample alloc" and "quiet (stream s)" and "has_sock s" and "\<not> shutting_down s"
    and "write_used (stream s) < 2 ^ 59" and "length (opt_bytes reason) \<le> max_payload"
  obtains h where "session_close alloc code reason False s = Ret (s\<lparr>shutting_down := True, ready_event := True,
        shutdown_event := True, stream := h, close_timers := close_timers s + 1\<rparr>) (Inr ())"
    and "quiet h" and "unsent h = unsent (stream s) @ wire (FGoAway 0 (ucast code) (opt_bytes reason))"
proof -
  have v: "valid_command (CmdGoAway 0 (ucast code) reason)" using assms(6) by (simp add: valid_command_def)
  have sp: "sent_payload (opt_bytes reason) = opt_bytes reason"
    using assms(6) by (intro sent_payload_small) (simp add: max_payload_def)
  show ?thesis
    by (rule queue_command [OF assms(1,2,5) v])
      (use that assms(3,4) in \<open>auto simp: session_close_def Let_def on_stream_def command_frame_def
        command_value_def except0_def sp\<close>)
qed

text \<open>
  C37: A server's ping can be lost behind a request. Client and server number their frames
  independently, but the server keeps requests and its own pings in one dict, by number. When the client
  sends a request with the number of a ping that is under way, the request replaces the ping's result; the
  pong that then arrives finds nothing, the ping's result stays empty, and at the next check the
  server closes the connection for a ping time-out although the client answered.
\<close>

theorem ping_request_collision:
  assumes "ample alloc" and "established c s" and "\<not> is_client s" and "has_on_request s" and "\<not> shutdown_event s"
    and "answers_with f cb" and "codec_loads c (opt_payload p) = Inr x" and "codec_dumps c (f x) = Inr (Some b)"
    and "length b \<le> max_payload" and "bump (sh_seq (stream s)) = q" and "q \<noteq> 0" and "write_used (stream s) < 2 ^ 58"
  shows "\<exists>s1 s2 s3. session_send_ping alloc s = Ret s1 (Inr (length (results s))) \<and>
    map_of (inflight_requests s1) q = Some (Waiting (length (results s))) \<and>
    handle_server_events py3 alloc cb [Request 0 q (opt_payload p), Pong 0 q] s1 = Ret s2 (Inr ()) \<and>
    results s2 = results s @ [None] \<and>
    ping_loop_check alloc (length (results s)) s2 = Ret s3 (Inr False) \<and> shutting_down s3 \<and>
    unsent (stream s3) = unsent (stream s2) @ wire (FGoAway 0 1 [])"
proof -
  let ?i = "length (results s)"
  obtain h where ping: "session_send_ping alloc s = Ret (resume_sending (put_inflight q (Waiting ?i)
        (s\<lparr>results := results s @ [None], stream := h\<rparr>))) (Inr ?i)"
      and h: "quiet h" "write_used h \<le> write_used (stream s) + frame_room"
    by (rule send_ping_open [OF assms(1) _ established_ready(2) [OF assms(2)]])
      (use assms(2,10-12) in \<open>auto simp: established_def\<close>)
  define s1 where "s1 = resume_sending (put_inflight q (Waiting ?i) (s\<lparr>results := results s @ [None], stream := h\<rparr>))"
  have s1: "established c s1" "\<not> is_client s1" "has_on_request s1" "write_used (stream s1) < 2 ^ 59"
      "results s1 = results s @ [None]" "\<not> shutdown_event s1" "map_of (inflight_requests s1) q = Some (Waiting ?i)"
    using assms(2-5,12) h by (simp_all add: s1_def put_inflight_def established_def frame_room_def update_conv)
  obtain h2 where served: "handle_request alloc cb 0 q (opt_payload p) s1 =
        Ret (resume_sending (s1\<lparr>inflight_requests := AList.delete q (inflight_requests s1), stream := h2\<rparr>)) (Inr ())"
      and h2: "quiet h2" "write_used h2 \<le> write_used (stream s1) + frame_room"
    by (rule request_served [OF assms(1) s1(1-3) assms(6-9) s1(4), of 0 q])
  define s2 where "s2 = resume_sending (s1\<lparr>inflight_requests := AList.delete q (inflight_requests s1), stream := h2\<rparr>)"
  have pong: "handle_server_events py3 alloc cb [Request 0 q (opt_payload p), Pong 0 q] s1 =
      Ret (s2\<lparr>inflight_requests := AList.delete q (inflight_requests s2)\<rparr>) (Inr ())"
    by (simp add: handle_server_events_def handle_server_event_def served s2_def handle_pong_def pop_inflight_def delete_conv)
  define t where "t = s2\<lparr>inflight_requests := AList.delete q (inflight_requests s2)\<rparr>"
  have t: "quiet (stream t)" "has_sock t" "\<not> shutting_down t" "write_used (stream t) < 2 ^ 59"
      "results t = results s @ [None]" "\<not> shutdown_event t"
    using s1 h2 h(2) assms(12) by (simp_all add: t_def s2_def s1_def established_def put_inflight_def frame_room_def)
  obtain h3 where closed: "session_close alloc CLOSE_PING_TIMEOUT None False t = Ret (t\<lparr>shutting_down := True,
        ready_event := True, shutdown_event := True, stream := h3, close_timers := close_timers t + 1\<rparr>) (Inr ())"
      and h3: "unsent h3 = unsent (stream t) @ wire (FGoAway 0 (ucast CLOSE_PING_TIMEOUT) (opt_bytes None))"
    by (rule close_open [OF assms(1) t(1-4), of None CLOSE_PING_TIMEOUT]) (simp add: opt_bytes_def)
  have "ping_loop_check alloc ?i t = Ret (t\<lparr>shutting_down := True, ready_event := True, shutdown_event := True,
      stream := h3, close_timers := close_timers t + 1\<rparr>) (Inr False)"
    using t(5,6) closed by (simp add: ping_loop_check_def handle_ping_timeout_def)
  then show ?thesis
    using ping pong [folded t_def] s1(7) t(5) h3 by (fold s1_def) (auto simp: opt_bytes_def CLOSE_PING_TIMEOUT_def)
qed

lemma ping_request_collision_witness:
  "\<exists>s1 s2 s3. session_send_ping big_allocator (ready_session False) = Ret s1 (Inr 0) \<and>
    handle_server_events True big_allocator reversing [Request 0 1 (Some [7]), Pong 0 1] s1 = Ret s2 (Inr ()) \<and>
    ping_loop_check big_allocator 0 s2 = Ret s3 (Inr False) \<and> shutting_down s3"
proof -
  have "\<not> is_client (ready_session False)" "has_on_request (ready_session False)" "\<not> shutdown_event (ready_session False)"
    "results (ready_session False) = []"
    by (simp_all add: ready_session_def)
  then show ?thesis
    using ping_request_collision [of big_allocator plain_codec "ready_session False" rev reversing "[7]" "[7]" "[7]" 1 True]
      ample_exists plain_transports [of "[7]"] reversing_answers
    by (auto simp: ready_session_ok max_payload_def transports_def opt_payload_def)
qed

end
