(* ===== verification/Loqui_Rpc.thy ===== *)
theory Loqui_Rpc
  imports Loqui_Exchange "HOL-Library.Multiset"
begin

text \<open>
  A whole connection: a client session and a server session that are joined by a stream of bytes in
  each direction. Applications ask and answer, the run loops move bytes to and from the sockets in
  pieces of any size, and all of this is interleaved in any order.
\<close>

section \<open>The connection\<close>

text \<open>
  \<open>upstream\<close> and \<open>downstream\<close> are the bytes that one side's socket took and the other's
  has not delivered. The last two fields only record what happened: what each of the client's results
  was made for (\<open>None\<close> is a ping), and the requests that the server's application was given and
  has not yet answered.
\<close>

record 'd rpc =
  rpc_client :: "'d session"
  rpc_server :: "'d session"
  upstream :: "byte list"
  downstream :: "byte list"
  asked :: "'d option list"
  owed :: "(u32 \<times> 'd) list"

text \<open>An application that computes \<open>f\<close>, for some requests at once and for others later.\<close>

definition serves :: "('d \<Rightarrow> 'd) \<Rightarrow> (u32 \<Rightarrow> 'd \<Rightarrow> bool) \<Rightarrow> 'd callbacks \<Rightarrow> bool" where
  "serves f now cb \<longleftrightarrow>
     (\<forall>q x s. on_request cb q x s = Ret s (Inr (if now q x then Some (f x) else None)))"

fun deferred :: "'d codec \<Rightarrow> (u32 \<Rightarrow> 'd \<Rightarrow> bool) \<Rightarrow> event \<Rightarrow> (u32 \<times> 'd) list" where
  "deferred cd now (Request fl q p) =
     (case codec_loads cd p of Inr x \<Rightarrow> if now q x then [] else [(q, x)] | Inl _ \<Rightarrow> [])"
| "deferred cd now _ = []"

text \<open>Values that the codec transports, and so their answers.\<close>

definition dumped :: "'d codec \<Rightarrow> 'd \<Rightarrow> byte list" where
  "dumped cd d = (case codec_dumps cd d of Inr b \<Rightarrow> opt_bytes b | Inl _ \<Rightarrow> [])"

definition carried :: "'d codec \<Rightarrow> 'd \<Rightarrow> bool" where
  "carried cd d \<longleftrightarrow> transports cd d (dumped cd d)"

text \<open>Memory: the write buffer and what \<open>n\<close> more bytes can add to it.\<close>

definition has_room :: "'d session \<Rightarrow> nat \<Rightarrow> bool" where
  "has_room s n \<longleftrightarrow>
     write_used (stream s) + (length (pending (decode_buffer (stream s))) + n + 1) * frame_room < 2 ^ 58"

section \<open>Steps\<close>

text \<open>The writing half of a turn of the run loop, in which the socket takes the bytes \<open>bs\<close>.\<close>

definition writes :: "bool \<Rightarrow> 'd session \<Rightarrow> byte list \<Rightarrow> 'd session \<Rightarrow> bool" where
  "writes py3 s bs t \<longleftrightarrow>
     (\<exists>alloc prev n h front r. sock_should_write s \<and>
        write_buffer_get_bytes alloc (stream s) OUTBUF_MAX False = Some (h, Some front) \<and>
        unat n \<le> length front \<and> bs = take (unat n) front \<and>
        run_loop_write alloc py3 prev (Sent n) s = Ret t r)"

text \<open>The reading half, in which the socket delivers the bytes \<open>d\<close>, and the events that they complete.\<close>

definition reads :: "bool \<Rightarrow> 'd callbacks \<Rightarrow> 'd session \<Rightarrow> byte list \<Rightarrow> event list \<Rightarrow> 'd session \<Rightarrow> bool" where
  "reads py3 cb s d evs t \<longleftrightarrow>
     (\<exists>alloc h r. ample alloc \<and> d \<noteq> [] \<and> has_room s (length d) \<and> sock_read_ready (watcher s) \<and>
        on_bytes_received alloc (stream s) (Some d) = Some (h, Inr evs) \<and>
        run_loop_read alloc py3 cb (RecvData d) s = Ret t r)"

definition next_free :: "'d session \<Rightarrow> bool" where
  "next_free s \<longleftrightarrow> map_of (inflight_requests s) (bump (sh_seq (stream s))) = None"

inductive rpc_step ::
    "'d codec \<Rightarrow> ('d \<Rightarrow> 'd) \<Rightarrow> (u32 \<Rightarrow> 'd \<Rightarrow> bool) \<Rightarrow> bool \<Rightarrow> 'd callbacks \<Rightarrow> 'd callbacks \<Rightarrow> 'd rpc \<Rightarrow> 'd rpc \<Rightarrow> bool"
  for cd f now py3 ccb scb where
  ask: "ample alloc \<Longrightarrow> has_room (rpc_client w) 0 \<Longrightarrow> next_free (rpc_client w) \<Longrightarrow> carried cd d \<Longrightarrow> carried cd (f d) \<Longrightarrow>
    session_send_request alloc d (rpc_client w) = Ret c (Inr i) \<Longrightarrow>
    rpc_step cd f now py3 ccb scb w (w\<lparr>rpc_client := c, asked := asked w @ [Some d]\<rparr>)"
| ping: "ample alloc \<Longrightarrow> has_room (rpc_client w) 0 \<Longrightarrow> next_free (rpc_client w) \<Longrightarrow>
    session_send_ping alloc (rpc_client w) = Ret c (Inr i) \<Longrightarrow>
    rpc_step cd f now py3 ccb scb w (w\<lparr>rpc_client := c, asked := asked w @ [None]\<rparr>)"
| respond: "ample alloc \<Longrightarrow> has_room (rpc_server w) 0 \<Longrightarrow> (q, x) \<in> set (owed w) \<Longrightarrow>
    session_send_response alloc q (f x) (rpc_server w) = Ret s r \<Longrightarrow>
    rpc_step cd f now py3 ccb scb w (w\<lparr>rpc_server := s, owed := remove1 (q, x) (owed w)\<rparr>)"
| client_writes: "writes py3 (rpc_client w) bs c \<Longrightarrow>
    rpc_step cd f now py3 ccb scb w (w\<lparr>rpc_client := c, upstream := upstream w @ bs\<rparr>)"
| server_writes: "writes py3 (rpc_server w) bs s \<Longrightarrow>
    rpc_step cd f now py3 ccb scb w (w\<lparr>rpc_server := s, downstream := downstream w @ bs\<rparr>)"
| client_reads: "downstream w = d @ rest \<Longrightarrow> reads py3 ccb (rpc_client w) d evs c \<Longrightarrow>
    rpc_step cd f now py3 ccb scb w (w\<lparr>rpc_client := c, downstream := rest\<rparr>)"
| server_reads: "upstream w = d @ rest \<Longrightarrow> reads py3 scb (rpc_server w) d evs s \<Longrightarrow>
    rpc_step cd f now py3 ccb scb w
      (w\<lparr>rpc_server := s, upstream := rest, owed := owed w @ concat (List.map (deferred cd now) evs)\<rparr>)"
| client_wakes: "rpc_step cd f now py3 ccb scb w (w\<lparr>rpc_client := (rpc_client w)\<lparr>watcher := v\<rparr>\<rparr>)"
| server_wakes: "rpc_step cd f now py3 ccb scb w (w\<lparr>rpc_server := (rpc_server w)\<lparr>watcher := v\<rparr>\<rparr>)"

text \<open>At the start both sides have made their handshake and nothing else.\<close>

definition connection :: "'d codec \<Rightarrow> 'd rpc \<Rightarrow> bool" where
  "connection cd w \<longleftrightarrow>
     established cd (rpc_client w) \<and> is_client (rpc_client w) \<and>
     unsent (stream (rpc_client w)) = [] \<and> write_used (stream (rpc_client w)) = 0 \<and>
     inflight_requests (rpc_client w) = [] \<and> results (rpc_client w) = [] \<and>
     established cd (rpc_server w) \<and> \<not> is_client (rpc_server w) \<and> has_on_request (rpc_server w) \<and>
     unsent (stream (rpc_server w)) = [] \<and> write_used (stream (rpc_server w)) = 0 \<and> upstream w = [] \<and> downstream w = [] \<and> asked w = [] \<and> owed w = []"

inductive rpc_run ::
    "'d codec \<Rightarrow> ('d \<Rightarrow> 'd) \<Rightarrow> (u32 \<Rightarrow> 'd \<Rightarrow> bool) \<Rightarrow> bool \<Rightarrow> 'd callbacks \<Rightarrow> 'd callbacks \<Rightarrow> 'd rpc \<Rightarrow> bool"
  for cd f now py3 ccb scb where
  opened: "connection cd w \<Longrightarrow> rpc_run cd f now py3 ccb scb w"
| step: "rpc_run cd f now py3 ccb scb w \<Longrightarrow> rpc_step cd f now py3 ccb scb w w' \<Longrightarrow> rpc_run cd f now py3 ccb scb w'"

section \<open>Delivering a part of a stream of frames\<close>

lemma wire_nonempty: "wire f \<noteq> []"
  by (cases f) (simp_all add: wire_def)

lemma frames_length: "length fs \<le> length (concat (List.map wire fs))"
proof (induction fs)
  case (Cons f fs)
  then show ?case using wire_nonempty [of f] by (cases "wire f") simp_all
qed simp

lemma stream_frames_length:
  assumes "snd (deframe p) = Rest r"
  shows "length (stream_frames p) \<le> length p"
proof -
  have "length p = length (concat (List.map wire (stream_frames p))) + length r"
    using arg_cong [OF stream_split [OF assms], of length] by simp
  then show ?thesis using frames_length [of "stream_frames p"] by linarith
qed

text \<open>A write buffer with nothing left to send has been reset.\<close>

definition tidy :: "LoquiStreamHandler \<Rightarrow> bool" where
  "tidy h \<longleftrightarrow> (unsent h = [] \<longrightarrow> write_used h = 0)"

lemma deliver_part:
  assumes "ample alloc" and "receiver_ok h"
    and "write_used h + length (pending (decode_buffer h) @ d) < receive_limit"
    and "\<And>f. f \<in> set fs \<Longrightarrow> length (frame_payload f) \<le> max_payload" and "list_all2 legal fs evs"
    and "pending (decode_buffer h) @ d @ rest = concat (List.map wire fs)"
  obtains n h' where "on_bytes_received alloc h (Some d) = Some (h', Inr (take n evs))" and "receiver_ok h'"
    and "n \<le> length (pending (decode_buffer h)) + length d"
    and "pending (decode_buffer h') @ rest = concat (List.map wire (drop n fs))"
    and "unsent h' = unsent h @ concat (List.map wire (concat (List.map frame_reply (take n fs))))"
    and "sh_seq h' = sh_seq h" and "write_used h' + length (pending (decode_buffer h')) \<le>
      write_used h + length (pending (decode_buffer h)) + length d"
    and "tidy h \<Longrightarrow> tidy h'"
proof -
  let ?p = "pending (decode_buffer h) @ d"
  have whole: "?p @ rest = concat (List.map wire fs)" using assms(6) by simp
  have all: "stream_frames (?p @ rest) = fs" "snd (deframe (?p @ rest)) = Rest []"
    unfolding whole using stream_frames_wires [OF assms(4)] by blast+
  have "stream_events (?p @ rest) = Some (evs, concat (List.map wire (concat (List.map frame_reply fs))), [])"
    unfolding stream_events_iff all using assms(5) by simp
  then obtain e1 out r where p: "stream_events ?p = Some (e1, out, r)" by (rule stream_events_prefix)
  note p' = p [unfolded stream_events_iff]
  have split: "fs = stream_frames ?p @ stream_frames (r @ rest)"
    using stream_frames_append [of ?p r rest] p' all(1) by simp
  define n where "n = length (stream_frames ?p)"
  have n: "take n fs = stream_frames ?p" "drop n fs = stream_frames (r @ rest)"
    using split by (metis append_eq_conv_conj n_def)+
  have "e1 = take n evs"
    using legal_unique [OF _ p' [THEN conjunct2, THEN conjunct1]] list_all2_takeI [OF assms(5), of n] n(1) by auto
  moreover have bytes: "?p = concat (List.map wire (take n fs)) @ r" using stream_split p' n(1) by metis
  moreover have "r @ rest = concat (List.map wire (drop n fs))"
  proof -
    have "concat (List.map wire fs) = concat (List.map wire (take n fs)) @ concat (List.map wire (drop n fs))"
      by (metis append_take_drop_id concat_append map_append)
    then show ?thesis using bytes whole by simp
  qed
  moreover have "n \<le> length ?p" using stream_frames_length [of ?p r] p' by (simp add: n_def)
  moreover obtain h' where "on_bytes_received alloc h (Some d) = Some (h', Inr e1)" "receiver_ok h'"
      "pending (decode_buffer h') = r" "unsent h' = unsent h @ out" "sh_seq h' = sh_seq h"
      "write_used h' + length r \<le> write_used h + length ?p" "write_used h' = write_used h + length out"
    by (rule receive_bytes [OF assms(1-3) p])
  ultimately show ?thesis using that [of h' n] p' n(1) by (simp add: tidy_def)
qed

section \<open>Tickets\<close>

text \<open>
  A ticket is a number in flight and the result that waits for it. What was asked for the result
  says which frame goes up and which comes back, and what is finally put into the result.
\<close>

definition question :: "'d codec \<Rightarrow> 'd option list \<Rightarrow> u32 \<times> nat \<Rightarrow> frame" where
  "question cd as = (\<lambda>(q, i). case as ! i of Some d \<Rightarrow> FRequest 0 q (dumped cd d) | None \<Rightarrow> FPing 0 q)"

definition question_event :: "'d codec \<Rightarrow> 'd option list \<Rightarrow> u32 \<times> nat \<Rightarrow> event" where
  "question_event cd as = (\<lambda>(q, i).
     case as ! i of Some d \<Rightarrow> Request 0 q (opt_payload (dumped cd d)) | None \<Rightarrow> Ping 0 q)"

definition reply :: "'d codec \<Rightarrow> ('d \<Rightarrow> 'd) \<Rightarrow> 'd option list \<Rightarrow> u32 \<times> nat \<Rightarrow> frame" where
  "reply cd f as = (\<lambda>(q, i). case as ! i of Some d \<Rightarrow> FResponse 0 q (dumped cd (f d)) | None \<Rightarrow> FPong 0 q)"

definition reply_event :: "'d codec \<Rightarrow> ('d \<Rightarrow> 'd) \<Rightarrow> 'd option list \<Rightarrow> u32 \<times> nat \<Rightarrow> event" where
  "reply_event cd f as = (\<lambda>(q, i).
     case as ! i of Some d \<Rightarrow> Response 0 q (opt_payload (dumped cd (f d))) | None \<Rightarrow> Pong 0 q)"

definition right_answer :: "('d \<Rightarrow> 'd) \<Rightarrow> 'd option \<Rightarrow> 'd answer \<Rightarrow> bool" where
  "right_answer f m a \<longleftrightarrow> (case m of Some d \<Rightarrow> a = Data (f d) | None \<Rightarrow> \<exists>q. a = PongAnswer (Pong 0 q))"

definition all_carried :: "'d codec \<Rightarrow> ('d \<Rightarrow> 'd) \<Rightarrow> 'd option list \<Rightarrow> bool" where
  "all_carried cd f as \<longleftrightarrow> (\<forall>d. Some d \<in> set as \<longrightarrow> carried cd d \<and> carried cd (f d))"

lemmas ticket_defs = question_def question_event_def reply_def reply_event_def

lemma carriedD:
  assumes "carried cd d"
  shows "codec_dumps cd d = Inr (Some (dumped cd d))" "codec_loads cd (opt_payload (dumped cd d)) = Inr d"
    "length (dumped cd d) \<le> max_payload"
  using assms by (simp_all add: carried_def transports_def)

lemma ticket_cases:
  assumes "all_carried cd f as" and "i < length as"
  obtains (ping) "as ! i = None" | (request) d where "as ! i = Some d" "carried cd d" "carried cd (f d)"
proof (cases "as ! i")
  case (Some d)
  then have "Some d \<in> set as" using assms(2) by (metis nth_mem)
  then show ?thesis using that Some assms(1) by (simp add: all_carried_def)
qed (use that in simp)

definition in_range :: "'d option list \<Rightarrow> (u32 \<times> nat) list \<Rightarrow> bool" where
  "in_range as ts \<longleftrightarrow> (\<forall>(q, i) \<in> set ts. i < length as)"

lemma in_range_simps [simp]:
  "in_range as []" "in_range as ((q, i) # ts) \<longleftrightarrow> i < length as \<and> in_range as ts"
  "in_range as (xs @ ys) \<longleftrightarrow> in_range as xs \<and> in_range as ys"
  by (auto simp: in_range_def)

lemma ticket_frame:
  assumes "all_carried cd f as" and "i < length as"
  shows "legal (question cd as (q, i)) (question_event cd as (q, i))" "legal (reply cd f as (q, i)) (reply_event cd f as (q, i))"
    "length (frame_payload (question cd as (q, i))) \<le> max_payload" "length (frame_payload (reply cd f as (q, i))) \<le> max_payload"
proof -
  have "legal (question cd as (q, i)) (question_event cd as (q, i)) \<and> legal (reply cd f as (q, i)) (reply_event cd f as (q, i)) \<and>
    length (frame_payload (question cd as (q, i))) \<le> max_payload \<and> length (frame_payload (reply cd f as (q, i))) \<le> max_payload"
    using assms
  proof (cases rule: ticket_cases)
    case ping
    then show ?thesis by (simp add: ticket_defs legal_def)
  next
    case (request d)
    then show ?thesis by (simp add: ticket_defs legal_def carriedD)
  qed
  then show "legal (question cd as (q, i)) (question_event cd as (q, i))" "legal (reply cd f as (q, i)) (reply_event cd f as (q, i))"
    "length (frame_payload (question cd as (q, i))) \<le> max_payload" "length (frame_payload (reply cd f as (q, i))) \<le> max_payload"
    by simp_all
qed

lemma ticket_frames:
  assumes "all_carried cd f as" and "in_range as ts"
  shows "list_all2 legal (List.map (question cd as) ts) (List.map (question_event cd as) ts)"
    and "list_all2 legal (List.map (reply cd f as) ts) (List.map (reply_event cd f as) ts)"
    and "x \<in> set (List.map (question cd as) ts) \<Longrightarrow> length (frame_payload x) \<le> max_payload"
    and "x \<in> set (List.map (reply cd f as) ts) \<Longrightarrow> length (frame_payload x) \<le> max_payload"
  using ticket_frame [OF assms(1)] assms(2)
  by (auto simp: in_range_def list.rel_map intro!: list.rel_refl_strong)

section \<open>The server takes a part of the stream\<close>

definition serving :: "'d codec \<Rightarrow> 'd session \<Rightarrow> bool" where
  "serving cd s \<longleftrightarrow> usable cd s \<and> \<not> is_client s \<and> has_on_request s \<and> tidy (stream s)"

definition prompt :: "(u32 \<Rightarrow> 'd \<Rightarrow> bool) \<Rightarrow> 'd option list \<Rightarrow> u32 \<times> nat \<Rightarrow> bool" where
  "prompt now as = (\<lambda>(q, i). case as ! i of Some d \<Rightarrow> now q d | None \<Rightarrow> False)"

definition late :: "(u32 \<Rightarrow> 'd \<Rightarrow> bool) \<Rightarrow> 'd option list \<Rightarrow> u32 \<times> nat \<Rightarrow> bool" where
  "late now as = (\<lambda>(q, i). case as ! i of Some d \<Rightarrow> \<not> now q d | None \<Rightarrow> False)"

text \<open>What a server's call leaves alone, and how much memory it takes.\<close>

definition served :: "'d codec \<Rightarrow> 'd session \<Rightarrow> frame list \<Rightarrow> nat \<Rightarrow> 'd session \<Rightarrow> bool" where
  "served cd s out n t \<longleftrightarrow>
     serving cd t \<and> decode_buffer (stream t) = decode_buffer (stream s) \<and>
     unsent (stream t) = unsent (stream s) @ concat (List.map wire out) \<and>
     write_used (stream t) \<le> write_used (stream s) + n * frame_room"

lemma served_trans: "served cd s xs n t \<Longrightarrow> served cd t ys m u \<Longrightarrow> served cd s (xs @ ys) (n + m) u"
  by (auto simp: served_def add_mult_distrib)

lemma server_answers:
  assumes "ample alloc" and "serving cd s" and "map_of (inflight_requests s) q = Some r" and "carried cd x"
    and "write_used (stream s) < 2 ^ 59"
  obtains t where "session_send_response alloc q x s = Ret t (Inr ())"
    and "served cd s [FResponse 0 q (dumped cd x)] 1 t"
    and "map_of (inflight_requests t) = (map_of (inflight_requests s))(q := None)"
proof -
  have u: "usable cd s" "\<not> is_client s" using assms(2) by (simp_all add: serving_def)
  show ?thesis
    by (rule send_response_usable [OF assms(1) u assms(3) carriedD(1,3) [OF assms(4)] assms(5)], rule that)
      (use assms(2) in \<open>auto simp: served_def serving_def usable_def receiver_ok_def delete_conv' tidy_def wire_nonempty\<close>)
qed

lemma server_takes:
  assumes "ample alloc" and "serves f now cb" and "serving cd s" and "all_carried cd f as" and "i < length as"
    and "write_used (stream s) < 2 ^ 59"
  obtains t where "handle_server_event py3 alloc cb (question_event cd as (q, i)) s = Ret t (Inr ())"
    and "served cd s (List.map (reply cd f as) (filter (prompt now as) [(q, i)])) 1 t"
    and "\<And>p. p \<noteq> q \<Longrightarrow> map_of (inflight_requests t) p = map_of (inflight_requests s) p"
    and "late now as (q, i) \<Longrightarrow> map_of (inflight_requests t) q \<noteq> None"
proof (rule ticket_cases [OF assms(4,5)])
  assume "as ! i = None"
  then show ?thesis
    using that [of s] assms(3)
    by (simp add: ticket_defs handle_server_event_def handle_ping_def prompt_def late_def served_def)
next
  fix d assume d: "as ! i = Some d" "carried cd d" "carried cd (f d)"
  let ?t = "put_inflight q (Serving q) s"
  have t: "serving cd ?t" "stream ?t = stream s" "map_of (inflight_requests ?t) = (map_of (inflight_requests s))(q \<mapsto> Serving q)"
    using assms(3) by (auto simp: serving_def put_inflight_def update_conv' usable_def)
  have u: "usable cd s" "has_on_request s" using assms(3) by (simp_all add: serving_def)
  have handled: "handle_server_event py3 alloc cb (question_event cd as (q, i)) s =
      (if now q d then session_send_response alloc q (f d) ?t else Ret ?t (Inr ()))"
    using request_handled [OF u carriedD(2) [OF d(2)], of cb q "if now q d then Some (f d) else None" alloc 0] assms(2)
    by (simp add: serves_def question_event_def d handle_server_event_def)
  show ?thesis
  proof (cases "now q d")
    case True
    show ?thesis
      by (rule server_answers [OF assms(1) t(1) _ d(3), of q "Serving q"])
        (use that handled True assms(6) t d(1) in \<open>auto simp: served_def prompt_def late_def reply_def\<close>)
  next
    case False
    then show ?thesis
      using that [of ?t] handled t d(1) by (simp add: served_def prompt_def late_def)
  qed
qed

lemma server_takes_all:
  assumes "ample alloc" and "serves f now cb" and "all_carried cd f as" and "in_range as ts"
    and "serving cd s" and "write_used (stream s) + length ts * frame_room < 2 ^ 59" and "distinct (List.map fst ts)"
  shows "\<exists>t. handle_server_events py3 alloc cb (List.map (question_event cd as) ts) s = Ret t (Inr ()) \<and>
    served cd s (List.map (reply cd f as) (filter (prompt now as) ts)) (length ts) t \<and>
    (\<forall>p. p \<notin> fst ` set ts \<longrightarrow> map_of (inflight_requests t) p = map_of (inflight_requests s) p) \<and>
    (\<forall>(q, i) \<in> set ts. late now as (q, i) \<longrightarrow> map_of (inflight_requests t) q \<noteq> None)"
  using assms(4-)
proof (induction ts arbitrary: s)
  case Nil
  then show ?case by (simp add: handle_server_events_def served_def)
next
  case (Cons qi ts)
  obtain q i where qi: "qi = (q, i)" by (cases qi)
  have small: "write_used (stream s) < 2 ^ 59" and i: "i < length as" using Cons.prems by (simp_all add: qi)
  obtain u where u: "handle_server_event py3 alloc cb (question_event cd as (q, i)) s = Ret u (Inr ())"
      "served cd s (List.map (reply cd f as) (filter (prompt now as) [(q, i)])) 1 u"
      "\<And>p. p \<noteq> q \<Longrightarrow> map_of (inflight_requests u) p = map_of (inflight_requests s) p"
      "late now as (q, i) \<Longrightarrow> map_of (inflight_requests u) q \<noteq> None"
    using server_takes [OF assms(1,2) Cons.prems(2) assms(3) i small] by metis
  have used: "write_used (stream u) \<le> write_used (stream s) + frame_room" "serving cd u"
    using u(2) by (simp_all add: served_def)
  obtain t where t: "handle_server_events py3 alloc cb (List.map (question_event cd as) ts) u = Ret t (Inr ())"
      "served cd u (List.map (reply cd f as) (filter (prompt now as) ts)) (length ts) t"
      "\<forall>p. p \<notin> fst ` set ts \<longrightarrow> map_of (inflight_requests t) p = map_of (inflight_requests u) p"
      "\<forall>(q, i) \<in> set ts. late now as (q, i) \<longrightarrow> map_of (inflight_requests t) q \<noteq> None"
    using Cons.IH [of u] Cons.prems used by (auto simp: qi)
  have "handle_server_events py3 alloc cb (List.map (question_event cd as) (qi # ts)) s = Ret t (Inr ())"
    using t(1) u(1) by (simp add: handle_server_events_def qi)
  moreover have "served cd s (List.map (reply cd f as) (filter (prompt now as) (qi # ts))) (length (qi # ts)) t"
    using served_trans [OF u(2) t(2)] by (simp add: qi split: if_splits)
  moreover have "q \<notin> fst ` set ts" using Cons.prems(4) by (simp add: qi)
  ultimately show ?case using t(3,4) u(3,4) by (auto simp: qi)
qed

lemma replies_of_questions:
  "concat (List.map frame_reply (List.map (question cd as) ts)) =
     List.map (reply cd f as) (filter (\<lambda>(q, i). as ! i = None) ts)"
  by (induction ts) (auto simp: ticket_defs split: option.splits)

lemma deferred_of_questions:
  assumes "all_carried cd f as" and "in_range as ts"
  shows "concat (List.map (deferred cd now) (List.map (question_event cd as) ts)) =
    List.map (\<lambda>(q, i). (q, the (as ! i))) (filter (late now as) ts)"
  using assms(2)
proof (induction ts)
  case (Cons qi ts)
  obtain q i where qi: "qi = (q, i)" "i < length as" using Cons.prems by (cases qi) auto
  show ?case
    using assms(1) qi(2)
  proof (cases rule: ticket_cases)
    case ping
    then show ?thesis using Cons by (simp add: qi ticket_defs late_def)
  next
    case (request d)
    then show ?thesis using Cons by (simp add: qi ticket_defs late_def carriedD)
  qed
qed simp

section \<open>The client's table\<close>

definition asking :: "'d codec \<Rightarrow> 'd session \<Rightarrow> bool" where
  "asking cd c \<longleftrightarrow> usable cd c \<and> is_client c \<and> tidy (stream c)"

definition client_table :: "('d \<Rightarrow> 'd) \<Rightarrow> 'd session \<Rightarrow> 'd option list \<Rightarrow> (u32 \<times> nat) list \<Rightarrow> bool" where
  "client_table f c as ts \<longleftrightarrow>
     distinct (List.map fst ts) \<and> distinct (List.map snd ts) \<and> in_range as ts \<and> length (results c) = length as \<and>
     (\<forall>q r. map_of (inflight_requests c) q = Some r \<longleftrightarrow> (\<exists>i. r = Waiting i \<and> (q, i) \<in> set ts)) \<and>
     (\<forall>i < length as. results c ! i = None \<longleftrightarrow> i \<in> snd ` set ts) \<and>
     (\<forall>i < length as. \<forall>a. results c ! i = Some a \<longrightarrow> right_answer f (as ! i) a)"

lemma client_table_mset:
  assumes "client_table f c as ts" and "mset ts = mset us"
  shows "client_table f c as us"
proof -
  have "set ts = set us" by (rule mset_eq_setD [OF assms(2)])
  moreover have "distinct (List.map fst ts) = distinct (List.map fst us)" "distinct (List.map snd ts) = distinct (List.map snd us)"
    by (rule mset_eq_imp_distinct_iff, simp add: assms(2))+
  ultimately show ?thesis using assms(1) by (simp add: client_table_def in_range_def)
qed

lemma client_table_cong:
  "results c' = results c \<Longrightarrow> inflight_requests c' = inflight_requests c \<Longrightarrow>
     client_table f c' as ts = client_table f c as ts"
  by (simp add: client_table_def)

text \<open>A new ticket.\<close>

lemma client_table_ask:
  assumes "client_table f c as ts" and "map_of (inflight_requests c) q = None"
    and "results c' = results c @ [None]" and "inflight_requests c' = AList.update q (Waiting (length (results c))) (inflight_requests c)"
  shows "client_table f c' (as @ [m]) ((q, length as) # ts)"
proof -
  note tab = assms(1) [unfolded client_table_def in_range_def]
  have q: "(q, i) \<notin> set ts" for i using tab assms(2) by fastforce
  have l: "length (results c) = length as" "(p, length as) \<notin> set ts" for p using tab by auto
  have "\<forall>p r. map_of (inflight_requests c') p = Some r \<longleftrightarrow> (\<exists>i. r = Waiting i \<and> (p, i) \<in> set ((q, length as) # ts))"
    using tab q l by (auto simp: assms(4) update_conv')
  moreover have "\<forall>i < length (as @ [m]). results c' ! i = None \<longleftrightarrow> i \<in> snd ` set ((q, length as) # ts)"
    using tab l by (auto simp: assms(3) nth_append less_Suc_eq)
  moreover have "\<forall>i < length (as @ [m]). \<forall>a. results c' ! i = Some a \<longrightarrow> right_answer f ((as @ [m]) ! i) a"
    using tab l by (auto simp: assms(3) nth_append less_Suc_eq)
  moreover have "distinct (List.map fst ((q, length as) # ts))" "distinct (List.map snd ((q, length as) # ts))"
      "in_range (as @ [m]) ((q, length as) # ts)"
    using tab q l by (force simp: in_range_def)+
  ultimately show ?thesis unfolding client_table_def using l assms(3) by simp
qed

lemma client_answered:
  assumes "asking cd c" and "client_table f c as ((q, i) # ts)" and "all_carried cd f as"
  obtains t where "handle_client_event alloc cb (reply_event cd f as (q, i)) c = Ret t (Inr ())" and "asking cd t"
    and "stream t = stream c" and "client_table f t as ts"
proof -
  have q: "map_of (inflight_requests c) q = Some (Waiting i)" and i: "i < length as" "i < length (results c)"
    using assms(2) by (auto simp: client_table_def in_range_def)
  let ?t = "\<lambda>a. set_result i a (c\<lparr>inflight_requests := AList.delete q (inflight_requests c)\<rparr>)"
  note tab = assms(2) [unfolded client_table_def in_range_def]
  have nin: "q \<notin> fst ` set ts" "i \<notin> snd ` set ts" using tab by simp_all
  then have fresh: "(q, j) \<notin> set ts" "(p, i) \<notin> set ts" for j p by force+
  have infl: "\<forall>p r. map_of (inflight_requests (?t a)) p = Some r \<longleftrightarrow> (\<exists>i. r = Waiting i \<and> (p, i) \<in> set ts)" for a
    using tab fresh by (auto simp: set_result_def delete_conv')
  have res: "\<forall>j < length as. results c ! j = None \<longleftrightarrow> j \<in> snd ` set ((q, i) # ts)" using tab by (elim conjE)
  have empty: "\<forall>j < length as. results (?t a) ! j = None \<longleftrightarrow> j \<in> snd ` set ts" for a
  proof (intro allI impI)
    fix j assume "j < length as"
    then have "results c ! j = None \<longleftrightarrow> j \<in> snd ` set ((q, i) # ts)" using res by simp
    then show "results (?t a) ! j = None \<longleftrightarrow> j \<in> snd ` set ts"
      using i nin(2) by (cases "j = i") (simp_all add: set_result_def)
  qed
  have keep: "client_table f (?t a) as ts" if "right_answer f (as ! i) a" for a
  proof -
    have "\<forall>j < length as. \<forall>b. results (?t a) ! j = Some b \<longrightarrow> right_answer f (as ! j) b"
      using tab i that by (simp add: set_result_def nth_list_update)
    then show ?thesis
      unfolding client_table_def using infl empty tab by (simp add: in_range_def set_result_def)
  qed
  have asking: "asking cd (?t a)" "stream (?t a) = stream c" for a
    using assms(1) by (simp_all add: asking_def usable_def set_result_def)
  show ?thesis
    using assms(3) i(1)
  proof (cases rule: ticket_cases)
    case ping
    then show ?thesis
      using that [of "?t (PongAnswer (Pong 0 q))"] keep asking q
      by (simp add: reply_event_def handle_client_event_def handle_pong_def pop_inflight_def right_answer_def)
  next
    case (request d)
    have "is_ready c" "encoder_loads c = Some (codec_loads cd)" using assms(1) by (simp_all add: asking_def usable_def)
    then show ?thesis
      using that [of "?t (Data (f d))"] keep asking q request carriedD(2) [OF request(3)]
      by (simp add: reply_event_def handle_client_event_def handle_response_def pop_inflight_def right_answer_def
          decode_data_def await_ready_def)
  qed
qed

lemma client_answered_all:
  assumes "all_carried cd f as" and "asking cd c" and "client_table f c as (ts @ us)"
  shows "\<exists>t. handle_client_events alloc cb (List.map (reply_event cd f as) ts) c = Ret t (Inr ()) \<and> asking cd t \<and>
    stream t = stream c \<and> client_table f t as us"
  using assms(2,3)
proof (induction ts arbitrary: c)
  case Nil
  then show ?case by (simp add: handle_client_events_def)
next
  case (Cons qi ts)
  obtain q i where qi: "qi = (q, i)" by (cases qi)
  obtain u where u: "handle_client_event alloc cb (reply_event cd f as (q, i)) c = Ret u (Inr ())" "asking cd u"
      "stream u = stream c" "client_table f u as (ts @ us)"
    using client_answered [OF Cons.prems(1) _ assms(1)] Cons.prems(2) by (metis append_Cons qi)
  show ?case using Cons.IH [OF u(2,4)] u(1,3) by (auto simp: qi handle_client_events_def)
qed

section \<open>The invariant\<close>

text \<open>
  What is still to be read on one side is a sequence of whole frames: the part of one that is in the
  decode buffer, what is under way and what the other side has not sent.
\<close>

definition to_come :: "'d session \<Rightarrow> byte list \<Rightarrow> 'd session \<Rightarrow> byte list" where
  "to_come r bs s = pending (decode_buffer (stream r)) @ bs @ unsent (stream s)"

text \<open>Every ticket is in one of three places: going up, with the application, or coming back.\<close>

definition tickets ::
    "'d codec \<Rightarrow> ('d \<Rightarrow> 'd) \<Rightarrow> 'd rpc \<Rightarrow> (u32 \<times> nat) list \<Rightarrow> (u32 \<times> nat) list \<Rightarrow> (u32 \<times> nat) list \<Rightarrow> bool" where
  "tickets cd f w up held down \<longleftrightarrow>
     client_table f (rpc_client w) (asked w) (up @ held @ down) \<and>
     to_come (rpc_server w) (upstream w) (rpc_client w) = concat (List.map wire (List.map (question cd (asked w)) up)) \<and>
     to_come (rpc_client w) (downstream w) (rpc_server w) = concat (List.map wire (List.map (reply cd f (asked w)) down)) \<and>
     owed w = List.map (\<lambda>(q, i). (q, the (asked w ! i))) held \<and>
     (\<forall>(q, i) \<in> set held. asked w ! i \<noteq> None \<and> map_of (inflight_requests (rpc_server w)) q \<noteq> None)"

definition rpc_inv :: "'d codec \<Rightarrow> ('d \<Rightarrow> 'd) \<Rightarrow> 'd rpc \<Rightarrow> bool" where
  "rpc_inv cd f w \<longleftrightarrow>
     asking cd (rpc_client w) \<and> serving cd (rpc_server w) \<and> all_carried cd f (asked w) \<and>
     (\<exists>up held down. tickets cd f w up held down)"

lemma connection_inv: "connection cd w \<Longrightarrow> rpc_inv cd f w"
  unfolding rpc_inv_def
  by (intro conjI exI [of _ "[]"])
    (auto simp: connection_def asking_def serving_def established_usable all_carried_def tickets_def client_table_def
      to_come_def tidy_def)

lemma later_tickets:
  assumes "in_range as ts"
  shows "List.map (question cd (as @ ms)) ts = List.map (question cd as) ts"
    and "List.map (reply cd f (as @ ms)) ts = List.map (reply cd f as) ts"
    and "List.map (\<lambda>(q, i). (q, the ((as @ ms) ! i))) ts = List.map (\<lambda>(q, i). (q, the (as ! i))) ts"
  using assms by (auto simp: in_range_def ticket_defs nth_append)

lemma client_asks:
  assumes "rpc_inv cd f w" and "next_free (rpc_client w)" and "c = rpc_client w" and "q = bump (sh_seq (stream c))"
    and "asking cd c'" and "results c' = results c @ [None]"
    and "inflight_requests c' = AList.update q (Waiting (length (results c))) (inflight_requests c)"
    and "unsent (stream c') = unsent (stream c) @ wire (question cd [m] (q, 0))"
    and "decode_buffer (stream c') = decode_buffer (stream c)"
    and "\<forall>d. m = Some d \<longrightarrow> carried cd d \<and> carried cd (f d)"
  shows "rpc_inv cd f (w\<lparr>rpc_client := c', asked := asked w @ [m]\<rparr>)"
proof -
  obtain up held down where t: "tickets cd f w up held down" using assms(1) by (auto simp: rpc_inv_def)
  let ?l = "length (asked w)"
  have r: "in_range (asked w) (up @ held @ down)" using t by (simp add: tickets_def client_table_def)
  have "client_table f c' (asked w @ [m]) ((q, ?l) # up @ held @ down)"
    by (rule client_table_ask [of f c]) (use assms t in \<open>auto simp: tickets_def next_free_def\<close>)
  then have "client_table f c' (asked w @ [m]) ((up @ [(q, ?l)]) @ held @ down)"
    by (rule client_table_mset) simp
  moreover have "question cd (asked w @ [m]) (q, ?l) = question cd [m] (q, 0)" by (simp add: question_def)
  moreover have "in_range (asked w) up" "in_range (asked w) held" "in_range (asked w) down" using r by simp_all
  note lt = this [THEN later_tickets(1)] this [THEN later_tickets(2)] this [THEN later_tickets(3)]
  have "(asked w @ [m]) ! i = asked w ! i" if "(p, i) \<in> set held" for p i
    using r that by (auto simp: in_range_def nth_append)
  ultimately have "tickets cd f (w\<lparr>rpc_client := c', asked := asked w @ [m]\<rparr>) (up @ [(q, ?l)]) held down"
    using t assms(3,8,9) by (auto simp: tickets_def to_come_def lt simp del: map_eq_conv)
  moreover have "all_carried cd f (asked w @ [m])"
    using assms(1,10) by (auto simp: rpc_inv_def all_carried_def)
  ultimately show ?thesis using assms(1,5) by (auto simp: rpc_inv_def)
qed

lemma writes_front:
  assumes "writes py3 s bs t" and "write_ok (stream s)"
  obtains h v where "t = s\<lparr>stream := h, watcher := v\<rparr>" and "write_ok h" and "unsent (stream s) = bs @ unsent h"
    and "decode_buffer h = decode_buffer (stream s)" and "tidy (stream s) \<Longrightarrow> tidy h"
proof -
  obtain alloc prev n h front r where *: "sock_should_write s"
      "write_buffer_get_bytes alloc (stream s) OUTBUF_MAX False = Some (h, Some front)"
      "unat n \<le> length front" "bs = take (unat n) front" "run_loop_write alloc py3 prev (Sent n) s = Ret t r"
    using assms(1) by (auto simp: writes_def)
  have front: "h = stream s \<and> front = take (unat OUTBUF_MAX) (unsent (stream s))"
    by (rule get_bytes_front [OF assms(2), of alloc OUTBUF_MAX False]) (use *(2) in \<open>simp add: Let_def split: if_splits\<close>)
  then have h: "h = stream s" by simp
  have bs: "bs = take (unat n) (unsent (stream s))" using *(3,4) front by simp
  obtain h' where h': "write_buffer_consume_bytes alloc (stream s) n = Some (h', write_buffer_len h')" "write_ok h'"
      "unsent h' = drop (unat n) (unsent (stream s))" "decode_buffer h' = decode_buffer (stream s)" "tidy h'"
    by (rule consume_bytes_drops [OF assms(2), of alloc n]) (use that in \<open>simp add: tidy_def write_used_def\<close>)
  show ?thesis
  proof (cases "n = 0")
    case True
    then show ?thesis
      using that [where h = "stream s"] *(1,2,5) bs assms(2) h by (auto simp: run_loop_write_def run_loop_send_def)
  next
    case False
    then show ?thesis
      using that [where h = h'] *(1,2,5) bs h h' by (auto simp: run_loop_write_def run_loop_send_def)
  qed
qed

section \<open>Reading\<close>

lemma resume_sending_watcher: "\<exists>v. resume_sending u = u\<lparr>watcher := v\<rparr>"
proof -
  have "u = u\<lparr>watcher := watcher u\<rparr>" by simp
  then show ?thesis unfolding resume_sending_def by metis
qed

definition session_events :: "bool \<Rightarrow> allocator \<Rightarrow> 'd callbacks \<Rightarrow> event list \<Rightarrow> 'd session \<Rightarrow> ('d, unit) op" where
  "session_events py3 alloc cb evs s =
     (if is_client s then handle_client_events alloc cb evs s else handle_server_events py3 alloc cb evs s)"

lemma read_turn:
  assumes "has_sock s" and "sock_read_ready (watcher s)" and "d \<noteq> []"
    and "on_bytes_received alloc (stream s) (Some d) = Some (h, Inr evs)"
    and "session_events py3 alloc cb evs (s\<lparr>stream := h\<rparr>) = Ret u (Inr ())"
  shows "\<exists>v. run_loop_read alloc py3 cb (RecvData d) s = Ret (u\<lparr>watcher := v\<rparr>) (Inr GoOn)"
proof -
  obtain v where v: "resume_sending u = u\<lparr>watcher := v\<rparr>" using resume_sending_watcher by blast
  have "\<exists>v. handle_data_received py3 alloc cb d s = Ret (u\<lparr>watcher := v\<rparr>) (Inr ())"
  proof (cases "evs = []")
    case True
    then have "u = s\<lparr>stream := h\<rparr>"
      using assms(5) by (simp add: session_events_def handle_client_events_def handle_server_events_def split: if_splits)
    then have "u = u\<lparr>watcher := watcher u\<rparr>" "handle_data_received py3 alloc cb d s = Ret u (Inr ())"
      using assms(4) True by (simp_all add: handle_data_received_def)
    then show ?thesis by metis
  next
    case False
    then show ?thesis using assms(4,5) v by (auto simp: handle_data_received_def session_events_def)
  qed
  then show ?thesis using assms(1-3) by (cases d) (auto simp: run_loop_read_def)
qed

lemma reads_events:
  assumes "reads py3 cb s d evs t" and "has_sock s"
  obtains alloc h where "ample alloc" and "has_room s (length d)"
    and "on_bytes_received alloc (stream s) (Some d) = Some (h, Inr evs)"
    and "\<And>u. session_events py3 alloc cb evs (s\<lparr>stream := h\<rparr>) = Ret u (Inr ()) \<Longrightarrow> \<exists>v. t = u\<lparr>watcher := v\<rparr>"
proof -
  obtain alloc h r where *: "ample alloc" "d \<noteq> []" "has_room s (length d)" "sock_read_ready (watcher s)"
      "on_bytes_received alloc (stream s) (Some d) = Some (h, Inr evs)" "run_loop_read alloc py3 cb (RecvData d) s = Ret t r"
    using assms(1) by (auto simp: reads_def)
  show ?thesis
  proof (rule that [OF *(1,3,5)])
    fix u assume "session_events py3 alloc cb evs (s\<lparr>stream := h\<rparr>) = Ret u (Inr ())"
    from read_turn [OF assms(2) *(4,2,5) this] show "\<exists>v. t = u\<lparr>watcher := v\<rparr>" using *(6) by auto
  qed
qed

lemma kinds_of_tickets:
  "mset ts = mset (filter (late now as) ts) + mset (filter (\<lambda>(q, i). as ! i = None) ts) + mset (filter (prompt now as) ts)"
  by (induction ts) (auto simp: late_def prompt_def split: option.splits)

lemma room_receive:
  "has_room s (length d) \<Longrightarrow> write_used (stream s) + length (pending (decode_buffer (stream s)) @ d) < receive_limit"
  by (simp add: has_room_def receive_limit_def frame_room_def)

lemma room_left:
  assumes "has_room s (length d)" and "n \<le> length (pending (decode_buffer (stream s))) + length d"
    and "write_used h \<le> write_used (stream s) + length (pending (decode_buffer (stream s))) + length d"
  shows "write_used h + n * frame_room < 2 ^ 59"
  using assms by (simp add: has_room_def frame_room_def)

lemma server_reads_part:
  assumes "rpc_inv cd f w" and "ample alloc" and "serves f now cb" and "upstream w = d @ rest"
    and "has_room (rpc_server w) (length d)"
  obtains h evs u where "on_bytes_received alloc (stream (rpc_server w)) (Some d) = Some (h, Inr evs)"
    and "session_events py3 alloc cb evs ((rpc_server w)\<lparr>stream := h\<rparr>) = Ret u (Inr ())"
    and "\<And>v. rpc_inv cd f (w\<lparr>rpc_server := u\<lparr>watcher := v\<rparr>, upstream := rest,
      owed := owed w @ concat (List.map (deferred cd now) evs)\<rparr>)"
proof -
  let ?as = "asked w" and ?s = "rpc_server w"
  obtain up held down where t: "tickets cd f w up held down" and carried: "all_carried cd f ?as"
      and serving: "serving cd ?s" and asking: "asking cd (rpc_client w)"
    using assms(1) by (auto simp: rpc_inv_def)
  have table: "client_table f (rpc_client w) ?as (up @ held @ down)" using t by (simp add: tickets_def)
  then have range: "in_range ?as up" and dist: "distinct (List.map fst (up @ held @ down))"
    by (simp_all add: client_table_def)
  have rok: "receiver_ok (stream ?s)" using serving by (simp add: serving_def usable_def)
  note fr = ticket_frames [OF carried range]
  obtain n h where nh: "on_bytes_received alloc (stream ?s) (Some d) = Some (h, Inr (take n (List.map (question_event cd ?as) up)))"
      "receiver_ok h" "n \<le> length (pending (decode_buffer (stream ?s))) + length d"
      "pending (decode_buffer h) @ rest @ unsent (stream (rpc_client w)) =
        concat (List.map wire (drop n (List.map (question cd ?as) up)))"
      "unsent h = unsent (stream ?s) @ concat (List.map wire (concat (List.map frame_reply (take n (List.map (question cd ?as) up)))))"
      "write_used h + length (pending (decode_buffer h)) \<le>
        write_used (stream ?s) + length (pending (decode_buffer (stream ?s))) + length d" "tidy h"
    by (rule deliver_part [OF assms(2) rok room_receive [OF assms(5)] fr(3,1), of "rest @ unsent (stream (rpc_client w))"])
      (use t assms(4) serving in \<open>auto simp: tickets_def to_come_def serving_def\<close>)
  define ts where "ts = take n up"
  have up: "up = ts @ drop n up" by (simp add: ts_def)
  have ts: "in_range ?as ts" "distinct (List.map fst ts)" "length ts \<le> n"
    using range dist up by (metis in_range_simps(3), metis distinct_append map_append, simp add: ts_def)
  obtain u where u: "handle_server_events py3 alloc cb (List.map (question_event cd ?as) ts) (?s\<lparr>stream := h\<rparr>) = Ret u (Inr ())"
      "served cd (?s\<lparr>stream := h\<rparr>) (List.map (reply cd f ?as) (filter (prompt now ?as) ts)) (length ts) u"
      "\<forall>p. p \<notin> fst ` set ts \<longrightarrow> map_of (inflight_requests u) p = map_of (inflight_requests ?s) p"
      "\<forall>(q, i) \<in> set ts. late now ?as (q, i) \<longrightarrow> map_of (inflight_requests u) q \<noteq> None"
    using server_takes_all [where ?py3.0 = py3, OF assms(2,3) carried ts(1), of "?s\<lparr>stream := h\<rparr>"] ts(2,3) serving nh(2,3,6,7)
      room_left [OF assms(5), of "length ts" h]
    by (auto simp: serving_def usable_def)
  let ?late = "filter (late now ?as) ts" and ?ping = "filter (\<lambda>(q, i). ?as ! i = None) ts"
  and ?prompt = "filter (prompt now ?as) ts"
  have "mset (up @ held @ down) = mset (drop n up @ (held @ ?late) @ (down @ ?ping @ ?prompt))"
    using arg_cong [OF up, of mset] kinds_of_tickets [of ts now ?as] by (simp only: mset_append ac_simps)
  from client_table_mset [OF table this]
  have table': "client_table f (rpc_client w) ?as (drop n up @ (held @ ?late) @ (down @ ?ping @ ?prompt))" .
  have evs: "take n (List.map (question_event cd ?as) up) = List.map (question_event cd ?as) ts" by (simp add: take_map ts_def)
  have "unsent (stream u) = unsent (stream ?s) @ concat (List.map wire (List.map (reply cd f ?as) (?ping @ ?prompt)))"
    using u(2) nh(5) replies_of_questions [of cd ?as ts f] by (simp add: served_def take_map ts_def)
  then have "to_come (rpc_client w) (downstream w) (u\<lparr>watcher := v\<rparr>) = to_come (rpc_client w) (downstream w) ?s @
      concat (List.map wire (List.map (reply cd f ?as) (?ping @ ?prompt)))" for v
    by (simp add: to_come_def)
  moreover have "to_come (u\<lparr>watcher := v\<rparr>) rest (rpc_client w) = concat (List.map wire (List.map (question cd ?as) (drop n up)))" for v
    using u(2) nh(4) by (simp add: served_def drop_map to_come_def)
  moreover have kept: "map_of (inflight_requests u) q \<noteq> None" if "(q, i) \<in> set (held @ ?late)" for q i
  proof (cases "(q, i) \<in> set held")
    case True
    have "fst ` set ts \<inter> fst ` set held = {}" using dist by (subst (asm) up) auto
    then have "q \<notin> fst ` set ts" using True by force
    then show ?thesis using u(3) t True by (auto simp: tickets_def)
  next
    case False
    then show ?thesis using u(4) that by auto
  qed
  moreover have "?as ! i \<noteq> None" if "(q, i) \<in> set (held @ ?late)" for q i
    using that t by (auto simp: tickets_def late_def split: option.splits)
  with kept have "\<forall>(q, i) \<in> set (held @ ?late). ?as ! i \<noteq> None \<and> map_of (inflight_requests u) q \<noteq> None" by blast
  ultimately have "tickets cd f (w\<lparr>rpc_server := u\<lparr>watcher := v\<rparr>, upstream := rest,
      owed := owed w @ concat (List.map (deferred cd now) (List.map (question_event cd ?as) ts))\<rparr>)
      (drop n up) (held @ ?late) (down @ ?ping @ ?prompt)" for v
    using t table' deferred_of_questions [OF carried ts(1), of now] unfolding tickets_def by simp
  moreover have "serving cd (u\<lparr>watcher := v\<rparr>)" for v using u(2) by (simp add: served_def serving_def usable_def)
  ultimately have "rpc_inv cd f (w\<lparr>rpc_server := u\<lparr>watcher := v\<rparr>, upstream := rest,
      owed := owed w @ concat (List.map (deferred cd now) (List.map (question_event cd ?as) ts))\<rparr>)" for v
    using asking carried unfolding rpc_inv_def by (auto intro: exI)
  then show ?thesis
    using that [OF nh(1), of u] u(1) serving unfolding evs by (simp add: session_events_def serving_def)
qed

lemma client_reads_part:
  assumes "rpc_inv cd f w" and "ample alloc" and "downstream w = d @ rest" and "has_room (rpc_client w) (length d)"
  obtains h evs u where "on_bytes_received alloc (stream (rpc_client w)) (Some d) = Some (h, Inr evs)"
    and "session_events py3 alloc cb evs ((rpc_client w)\<lparr>stream := h\<rparr>) = Ret u (Inr ())"
    and "\<And>v. rpc_inv cd f (w\<lparr>rpc_client := u\<lparr>watcher := v\<rparr>, downstream := rest\<rparr>)"
    and "unsent (stream u) = unsent (stream (rpc_client w))"
proof -
  let ?as = "asked w" and ?c = "rpc_client w"
  obtain up held down where t: "tickets cd f w up held down" and carried: "all_carried cd f ?as"
      and serving: "serving cd (rpc_server w)" and asking: "asking cd ?c"
    using assms(1) by (auto simp: rpc_inv_def)
  have table: "client_table f ?c ?as (up @ held @ down)" using t by (simp add: tickets_def)
  then have range: "in_range ?as down" by (simp add: client_table_def)
  have rok: "receiver_ok (stream ?c)" using asking by (simp add: asking_def usable_def)
  note fr = ticket_frames [OF carried range]
  obtain n h where nh: "on_bytes_received alloc (stream ?c) (Some d) = Some (h, Inr (take n (List.map (reply_event cd f ?as) down)))"
      "receiver_ok h" "pending (decode_buffer h) @ rest @ unsent (stream (rpc_server w)) =
        concat (List.map wire (drop n (List.map (reply cd f ?as) down)))"
      "unsent h = unsent (stream ?c) @ concat (List.map wire (concat (List.map frame_reply (take n (List.map (reply cd f ?as) down)))))" "tidy h"
    by (rule deliver_part [OF assms(2) rok room_receive [OF assms(4)] fr(4,2), of "rest @ unsent (stream (rpc_server w))"])
      (use t assms(3) asking in \<open>auto simp: tickets_def to_come_def asking_def\<close>)
  define ts where "ts = take n down"
  have down: "down = ts @ drop n down" by (simp add: ts_def)
  have silent: "unsent h = unsent (stream ?c)"
    using nh(4) by (auto simp: reply_def split: option.splits prod.splits dest!: in_set_takeD)
  have "mset (up @ held @ down) = mset (ts @ up @ held @ drop n down)"
    using arg_cong [OF down, of mset] by (simp only: mset_append ac_simps)
  from client_table_mset [OF table this]
  have table': "client_table f (?c\<lparr>stream := h\<rparr>) ?as (ts @ up @ held @ drop n down)"
    by (simp add: client_table_def)
  have asking': "asking cd (?c\<lparr>stream := h\<rparr>)" using asking nh(2,5) by (simp add: asking_def usable_def)
  obtain u where u: "handle_client_events alloc cb (List.map (reply_event cd f ?as) ts) (?c\<lparr>stream := h\<rparr>) = Ret u (Inr ())"
      "asking cd u" "stream u = h" "client_table f u ?as (up @ held @ drop n down)"
    using client_answered_all [OF carried asking' table'] by force
  have "tickets cd f (w\<lparr>rpc_client := u\<lparr>watcher := v\<rparr>, downstream := rest\<rparr>) up held (drop n down)" for v
    using t u(3,4) nh(3) silent client_table_cong [of "u\<lparr>watcher := v\<rparr>" u]
    by (auto simp: tickets_def to_come_def drop_map)
  moreover have "asking cd (u\<lparr>watcher := v\<rparr>)" for v using u(2) by (simp add: asking_def usable_def)
  ultimately have "rpc_inv cd f (w\<lparr>rpc_client := u\<lparr>watcher := v\<rparr>, downstream := rest\<rparr>)" for v
    using serving carried unfolding rpc_inv_def by (auto intro: exI)
  then show ?thesis
    using that [OF nh(1), of u] u(1,3) silent asking by (simp add: session_events_def asking_def ts_def take_map)
qed

section \<open>Every step keeps the invariant\<close>

lemma remove_held:
  assumes "distinct (List.map fst held)" and "(q, i) \<in> set held"
  shows "remove1 (q, g q i) (List.map (\<lambda>(q, i). (q, g q i)) held) = List.map (\<lambda>(q, i). (q, g q i)) (remove1 (q, i) held)"
  using assms by (induction held) (auto, force)

lemma removed_other:
  assumes "distinct (List.map fst held)" and "(q, i) \<in> set held" and "(p, j) \<in> set (remove1 (q, i) held)"
  shows "p \<noteq> q"
  using assms by (induction held) (force split: if_split_asm)+

lemma server_responds:
  assumes "rpc_inv cd f w" and "ample alloc" and "has_room (rpc_server w) 0" and "(q, x) \<in> set (owed w)"
  obtains s where "session_send_response alloc q (f x) (rpc_server w) = Ret s (Inr ())"
    and "rpc_inv cd f (w\<lparr>rpc_server := s, owed := remove1 (q, x) (owed w)\<rparr>)"
proof -
  let ?as = "asked w" and ?s = "rpc_server w"
  obtain up held down where t: "tickets cd f w up held down" and carried: "all_carried cd f ?as"
      and serving: "serving cd ?s" and asking: "asking cd (rpc_client w)"
    using assms(1) by (auto simp: rpc_inv_def)
  have table: "client_table f (rpc_client w) ?as (up @ held @ down)" using t by (simp add: tickets_def)
  obtain i where i: "(q, i) \<in> set held" "x = the (?as ! i)" using assms(4) t by (auto simp: tickets_def)
  have held: "?as ! i = Some x" "map_of (inflight_requests ?s) q \<noteq> None" "i < length ?as" "distinct (List.map fst held)"
    using i t table by (auto simp: tickets_def client_table_def in_range_def)
  have fx: "carried cd (f x)" using carried held(1,3) by (metis all_carried_def nth_mem)
  have room: "write_used (stream ?s) < 2 ^ 59" using assms(3) by (simp add: has_room_def frame_room_def)
  obtain r where r: "map_of (inflight_requests ?s) q = Some r" using held(2) by blast
  obtain s where s: "session_send_response alloc q (f x) ?s = Ret s (Inr ())"
      "served cd ?s [FResponse 0 q (dumped cd (f x))] 1 s"
      "map_of (inflight_requests s) = (map_of (inflight_requests ?s))(q := None)"
    by (rule server_answers [OF assms(2) serving r fx room])
  have "mset (up @ held @ down) = mset (up @ remove1 (q, i) held @ (down @ [(q, i)]))" using i(1) by simp
  from client_table_mset [OF table this]
  have "client_table f (rpc_client w) ?as (up @ remove1 (q, i) held @ (down @ [(q, i)]))" .
  moreover have "remove1 (q, x) (owed w) = List.map (\<lambda>(q, i). (q, the (?as ! i))) (remove1 (q, i) held)"
    using remove_held [OF held(4) i(1), of "\<lambda>q i. the (?as ! i)"] t i(2) by (simp add: tickets_def)
  moreover have "to_come (rpc_client w) (downstream w) s = to_come (rpc_client w) (downstream w) ?s @
      wire (reply cd f ?as (q, i))"
    using s(2) held(1) by (simp add: to_come_def served_def reply_def)
  moreover have "to_come s (upstream w) (rpc_client w) = to_come ?s (upstream w) (rpc_client w)"
    using s(2) by (simp add: to_come_def served_def)
  moreover have "\<forall>(p, j) \<in> set (remove1 (q, i) held). ?as ! j \<noteq> None \<and> map_of (inflight_requests s) p \<noteq> None"
  proof clarify
    fix p j assume p: "(p, j) \<in> set (remove1 (q, i) held)"
    have "p \<noteq> q" by (rule removed_other [OF held(4) i(1) p])
    then show "?as ! j \<noteq> None \<and> map_of (inflight_requests s) p \<noteq> None"
      using p t s(3) set_remove1_subset [of "(q, i)" held] by (auto simp: tickets_def)
  qed
  ultimately have "tickets cd f (w\<lparr>rpc_server := s, owed := remove1 (q, x) (owed w)\<rparr>) up (remove1 (q, i) held) (down @ [(q, i)])"
    using t unfolding tickets_def by simp
  then show ?thesis
    using that [OF s(1)] s(2) asking carried by (auto simp: rpc_inv_def served_def)
qed

lemma inv_client_bytes:
  assumes "rpc_inv cd f w" and "asking cd c" and "results c = results (rpc_client w)"
    and "inflight_requests c = inflight_requests (rpc_client w)"
    and "decode_buffer (stream c) = decode_buffer (stream (rpc_client w))"
    and "bs @ unsent (stream c) = upstream w @ unsent (stream (rpc_client w))"
  shows "rpc_inv cd f (w\<lparr>rpc_client := c, upstream := bs\<rparr>)"
  using assms client_table_cong [OF assms(3,4), of f]
  by (auto simp: rpc_inv_def tickets_def to_come_def)

lemma inv_server_bytes:
  assumes "rpc_inv cd f w" and "serving cd s" and "inflight_requests s = inflight_requests (rpc_server w)"
    and "decode_buffer (stream s) = decode_buffer (stream (rpc_server w))"
    and "bs @ unsent (stream s) = downstream w @ unsent (stream (rpc_server w))"
  shows "rpc_inv cd f (w\<lparr>rpc_server := s, downstream := bs\<rparr>)"
  using assms by (auto simp: rpc_inv_def tickets_def to_come_def)

lemma client_write_inv:
  assumes "rpc_inv cd f w" and "writes py3 (rpc_client w) bs c"
  shows "rpc_inv cd f (w\<lparr>rpc_client := c, upstream := upstream w @ bs\<rparr>)"
proof -
  have a: "asking cd (rpc_client w)" "write_ok (stream (rpc_client w))"
    using assms(1) by (simp_all add: rpc_inv_def asking_def usable_def receiver_ok_def)
  show ?thesis
    by (rule writes_front [OF assms(2) a(2)], rule inv_client_bytes [OF assms(1)])
      (use a in \<open>simp_all add: asking_def usable_def receiver_ok_def\<close>)
qed

lemma server_write_inv:
  assumes "rpc_inv cd f w" and "writes py3 (rpc_server w) bs s"
  shows "rpc_inv cd f (w\<lparr>rpc_server := s, downstream := downstream w @ bs\<rparr>)"
proof -
  have a: "serving cd (rpc_server w)" "write_ok (stream (rpc_server w))"
    using assms(1) by (simp_all add: rpc_inv_def serving_def usable_def receiver_ok_def)
  show ?thesis
    by (rule writes_front [OF assms(2) a(2)], rule inv_server_bytes [OF assms(1)])
      (use a in \<open>simp_all add: serving_def usable_def receiver_ok_def\<close>)
qed

lemma client_ask_inv:
  assumes "rpc_inv cd f w" and "ample alloc" and "has_room (rpc_client w) 0" and "next_free (rpc_client w)"
    and "carried cd d" and "carried cd (f d)" and "session_send_request alloc d (rpc_client w) = Ret c (Inr i)"
  shows "rpc_inv cd f (w\<lparr>rpc_client := c, asked := asked w @ [Some d]\<rparr>)"
proof -
  have a: "usable cd (rpc_client w)" "is_client (rpc_client w)" "write_used (stream (rpc_client w)) < 2 ^ 59"
    using assms(1,3) by (simp_all add: rpc_inv_def asking_def has_room_def frame_room_def)
  show ?thesis
    by (rule send_request_usable [OF assms(2) a(1,2) carriedD(1,3) [OF assms(5)] a(3)],
        rule client_asks [OF assms(1,4) refl refl])
      (use a assms(5-7) in \<open>auto simp: asking_def usable_def receiver_ok_def tidy_def wire_nonempty put_inflight_def
        question_def split: if_splits\<close>)
qed

lemma client_ping_inv:
  assumes "rpc_inv cd f w" and "ample alloc" and "has_room (rpc_client w) 0" and "next_free (rpc_client w)"
    and "session_send_ping alloc (rpc_client w) = Ret c (Inr i)"
  shows "rpc_inv cd f (w\<lparr>rpc_client := c, asked := asked w @ [None]\<rparr>)"
proof -
  have a: "usable cd (rpc_client w)" "is_client (rpc_client w)" "write_used (stream (rpc_client w)) < 2 ^ 59"
    "write_ok (stream (rpc_client w))"
    using assms(1,3) by (simp_all add: rpc_inv_def asking_def has_room_def frame_room_def usable_def receiver_ok_def)
  show ?thesis
    by (rule send_ping_any [OF assms(2) a(4) usable_open(1) [OF a(1)] a(3)], rule client_asks [OF assms(1,4) refl refl])
      (use a assms(5) in \<open>auto simp: asking_def usable_def receiver_ok_def tidy_def wire_nonempty put_inflight_def
        question_def split: if_splits\<close>)
qed

lemma wakes_inv:
  assumes "rpc_inv cd f w"
  shows "rpc_inv cd f (w\<lparr>rpc_client := (rpc_client w)\<lparr>watcher := v\<rparr>\<rparr>)"
    and "rpc_inv cd f (w\<lparr>rpc_server := (rpc_server w)\<lparr>watcher := v\<rparr>\<rparr>)"
  using assms client_table_cong [of "(rpc_client w)\<lparr>watcher := v\<rparr>" "rpc_client w" f]
  by (auto simp: rpc_inv_def tickets_def to_come_def asking_def serving_def usable_def)

lemma rpc_step_inv:
  assumes "rpc_step cd f now py3 ccb scb w w'" and "serves f now scb" and inv: "rpc_inv cd f w"
  shows "rpc_inv cd f w'"
  using assms(1)
proof cases
  case (respond alloc q x s r)
  show ?thesis by (rule server_responds [OF inv respond(2,3,4)]) (use respond(1,5) in simp)
next
  case (client_reads d rest evs c)
  have sock: "has_sock (rpc_client w)" using inv by (simp add: rpc_inv_def asking_def usable_def)
  obtain alloc h where r: "ample alloc" "has_room (rpc_client w) (length d)"
      "on_bytes_received alloc (stream (rpc_client w)) (Some d) = Some (h, Inr evs)"
      "\<And>u. session_events py3 alloc ccb evs ((rpc_client w)\<lparr>stream := h\<rparr>) = Ret u (Inr ()) \<Longrightarrow> \<exists>v. c = u\<lparr>watcher := v\<rparr>"
    using reads_events [OF client_reads(3) sock] by metis
  show ?thesis
    by (rule client_reads_part [OF inv r(1) client_reads(2) r(2), of py3 ccb]) (use r(3,4) client_reads(1) in fastforce)
next
  case (server_reads d rest evs s)
  have sock: "has_sock (rpc_server w)" using inv by (simp add: rpc_inv_def serving_def usable_def)
  obtain alloc h where r: "ample alloc" "has_room (rpc_server w) (length d)"
      "on_bytes_received alloc (stream (rpc_server w)) (Some d) = Some (h, Inr evs)"
      "\<And>u. session_events py3 alloc scb evs ((rpc_server w)\<lparr>stream := h\<rparr>) = Ret u (Inr ()) \<Longrightarrow> \<exists>v. s = u\<lparr>watcher := v\<rparr>"
    using reads_events [OF server_reads(3) sock] by metis
  show ?thesis
    by (rule server_reads_part [OF inv r(1) assms(2) server_reads(2) r(2)]) (use r(3,4) server_reads(1) in fastforce)
qed (use inv in \<open>auto intro: client_ask_inv client_ping_inv client_write_inv server_write_inv wakes_inv\<close>)

lemma rpc_run_inv: "rpc_run cd f now py3 ccb scb w \<Longrightarrow> serves f now scb \<Longrightarrow> rpc_inv cd f w"
  by (induction rule: rpc_run.induct) (auto intro: connection_inv rpc_step_inv)

text \<open>Nothing is under way: then no ticket is left.\<close>

definition idle_connection :: "'d rpc \<Rightarrow> bool" where
  "idle_connection w \<longleftrightarrow> upstream w = [] \<and> downstream w = [] \<and> owed w = [] \<and>
     unsent (stream (rpc_client w)) = [] \<and> unsent (stream (rpc_server w)) = []"

lemma pending_no_frame:
  assumes "receiver_ok h" and "pending (decode_buffer h) @ rest = concat (List.map wire fs)"
    and "\<And>f. f \<in> set fs \<Longrightarrow> length (frame_payload f) \<le> max_payload"
  shows "length (pending (decode_buffer h)) \<le> frame_room" and "rest = [] \<Longrightarrow> fs = []"
proof -
  let ?p = "pending (decode_buffer h)"
  have inc: "cut_frame ?p = Incomplete" using assms(1) by (simp add: receiver_ok_def pending_incomplete)
  have first: "length ?p < length (wire f)" if "fs = f # gs" for f gs
  proof (rule ccontr)
    assume "\<not> length ?p < length (wire f)"
    moreover have "take (length (wire f)) (?p @ rest) = wire f" using assms(2) that by simp
    ultimately have "take (length (wire f)) ?p = wire f" by simp
    then obtain x where x: "?p = wire f @ x" by (metis append_take_drop_id)
    show False using inc cut_frame_wire [of f x] assms(3) [of f] that unfolding x by simp
  qed
  show "length ?p \<le> frame_room"
  proof (cases fs)
    case (Cons f gs)
    then show ?thesis using first [OF Cons] wire_room [of f] assms(3) by fastforce
  qed (use assms(2) in simp)
  show "fs = []" if "rest = []"
    using first assms(2) that by (cases fs) auto
qed

lemma idle_no_tickets:
  assumes "rpc_inv cd f w" and "idle_connection w"
  shows "client_table f (rpc_client w) (asked w) []"
proof -
  obtain up held down where t: "tickets cd f w up held down" using assms(1) by (auto simp: rpc_inv_def)
  have carried: "all_carried cd f (asked w)" and ok: "receiver_ok (stream (rpc_client w))" "receiver_ok (stream (rpc_server w))"
    using assms(1) by (simp_all add: rpc_inv_def asking_def serving_def usable_def)
  have range: "in_range (asked w) up" "in_range (asked w) down"
    using t by (simp_all add: tickets_def client_table_def)
  have "List.map (question cd (asked w)) up = []"
    by (rule pending_no_frame(2) [OF ok(2) _ ticket_frames(3) [OF carried range(1)] refl])
      (use t assms(2) in \<open>simp add: tickets_def to_come_def idle_connection_def\<close>)
  moreover have "List.map (reply cd f (asked w)) down = []"
    by (rule pending_no_frame(2) [OF ok(1) _ ticket_frames(4) [OF carried range(2)] refl])
      (use t assms(2) in \<open>simp add: tickets_def to_come_def idle_connection_def\<close>)
  ultimately show ?thesis using t assms(2) by (simp add: tickets_def idle_connection_def)
qed

section \<open>Everything under way can arrive\<close>

definition goes_to ::
    "'d codec \<Rightarrow> ('d \<Rightarrow> 'd) \<Rightarrow> (u32 \<Rightarrow> 'd \<Rightarrow> bool) \<Rightarrow> bool \<Rightarrow> 'd callbacks \<Rightarrow> 'd callbacks \<Rightarrow> 'd rpc \<Rightarrow> 'd rpc \<Rightarrow> bool" where
  "goes_to cd f now py3 ccb scb = rtranclp (rpc_step cd f now py3 ccb scb)"

lemma goes_to_trans:
  "goes_to cd f now py3 ccb scb w w' \<Longrightarrow> goes_to cd f now py3 ccb scb w' w'' \<Longrightarrow> goes_to cd f now py3 ccb scb w w''"
  by (simp add: goes_to_def)

lemma goes_to_two:
  "rpc_step cd f now py3 ccb scb w w' \<Longrightarrow> rpc_step cd f now py3 ccb scb w' w'' \<Longrightarrow> goes_to cd f now py3 ccb scb w w''"
  by (simp add: goes_to_def)

lemma goes_to_run: "goes_to cd f now py3 ccb scb w w' \<Longrightarrow> rpc_run cd f now py3 ccb scb w \<Longrightarrow> rpc_run cd f now py3 ccb scb w'"
  unfolding goes_to_def by (induction rule: rtranclp_induct) (auto intro: rpc_run.step)

lemma write_possible:
  assumes "write_ok (stream s)" and "unsent (stream s) = b # bs" and "sock_write_ready (watcher s)"
  shows "\<exists>t. writes py3 s [b] t"
proof -
  have front: "write_buffer_get_bytes big_allocator (stream s) OUTBUF_MAX False = Some (stream s, Some (b # take 65534 bs))"
    by (rule get_bytes_front [OF assms(1), of big_allocator OUTBUF_MAX False])
      (use assms(2) in \<open>simp add: Let_def OUTBUF_MAX_def\<close>)
  obtain h where "write_buffer_consume_bytes big_allocator (stream s) 1 = Some (h, write_buffer_len h)"
    by (rule consume_bytes_drops [OF assms(1)])
  then have "run_loop_write big_allocator py3 None (Sent 1) s =
      Ret (s\<lparr>stream := h, watcher := (watcher s)\<lparr>sock_write_blocked := write_buffer_len h > 0\<rparr>\<rparr>) (Inr (Some 1, GoOn))"
    using assms(3) front by (simp add: run_loop_write_def run_loop_send_def sock_should_write_def)
  then show ?thesis
    using assms(3) front unfolding writes_def sock_should_write_def
    by (intro exI [of _ big_allocator] exI [of _ 1] exI) auto
qed

lemma server_sends_byte:
  assumes "rpc_inv cd f w" and "unsent (stream (rpc_server w)) = b # bs"
  obtains s where "goes_to cd f now py3 ccb scb w (w\<lparr>rpc_server := s, downstream := downstream w @ [b]\<rparr>)"
    and "rpc_inv cd f (w\<lparr>rpc_server := s, downstream := downstream w @ [b]\<rparr>)" and "unsent (stream s) = bs"
proof -
  define v where "v = (watcher (rpc_server w))\<lparr>sock_write_ready := True\<rparr>"
  define x where "x = w\<lparr>rpc_server := (rpc_server w)\<lparr>watcher := v\<rparr>\<rparr>"
  have inv: "rpc_inv cd f x" and step: "rpc_step cd f now py3 ccb scb w x"
    unfolding x_def by (rule wakes_inv [OF assms(1)], rule rpc_step.server_wakes)
  have w: "write_ok (stream (rpc_server x))"
    using assms(1) by (simp add: x_def rpc_inv_def serving_def usable_def receiver_ok_def)
  obtain s where s: "writes py3 (rpc_server x) [b] s"
    using write_possible [OF w, of b bs] assms(2) by (auto simp: x_def v_def)
  have "unsent (stream s) = bs" by (rule writes_front [OF s w]) (use assms(2) in \<open>simp add: x_def\<close>)
  moreover have "x\<lparr>rpc_server := s, downstream := downstream x @ [b]\<rparr> = w\<lparr>rpc_server := s, downstream := downstream w @ [b]\<rparr>"
    by (simp add: x_def)
  ultimately show ?thesis
    using that goes_to_two [OF step rpc_step.server_writes [OF s]] server_write_inv [OF inv s] by metis
qed

lemma client_sends_byte:
  assumes "rpc_inv cd f w" and "unsent (stream (rpc_client w)) = b # bs"
  obtains c where "goes_to cd f now py3 ccb scb w (w\<lparr>rpc_client := c, upstream := upstream w @ [b]\<rparr>)"
    and "rpc_inv cd f (w\<lparr>rpc_client := c, upstream := upstream w @ [b]\<rparr>)" and "unsent (stream c) = bs"
proof -
  define v where "v = (watcher (rpc_client w))\<lparr>sock_write_ready := True\<rparr>"
  define x where "x = w\<lparr>rpc_client := (rpc_client w)\<lparr>watcher := v\<rparr>\<rparr>"
  have inv: "rpc_inv cd f x" and step: "rpc_step cd f now py3 ccb scb w x"
    unfolding x_def by (rule wakes_inv [OF assms(1)], rule rpc_step.client_wakes)
  have w: "write_ok (stream (rpc_client x))"
    using assms(1) by (simp add: x_def rpc_inv_def asking_def usable_def receiver_ok_def)
  obtain c where c: "writes py3 (rpc_client x) [b] c"
    using write_possible [OF w, of b bs] assms(2) by (auto simp: x_def v_def)
  have "unsent (stream c) = bs" by (rule writes_front [OF c w]) (use assms(2) in \<open>simp add: x_def\<close>)
  moreover have "x\<lparr>rpc_client := c, upstream := upstream x @ [b]\<rparr> = w\<lparr>rpc_client := c, upstream := upstream w @ [b]\<rparr>"
    by (simp add: x_def)
  ultimately show ?thesis
    using that goes_to_two [OF step rpc_step.client_writes [OF c]] client_write_inv [OF inv c] by metis
qed

lemma server_flushes:
  assumes "rpc_inv cd f w"
  shows "\<exists>s bs. goes_to cd f now py3 ccb scb w (w\<lparr>rpc_server := s, downstream := bs\<rparr>) \<and>
    rpc_inv cd f (w\<lparr>rpc_server := s, downstream := bs\<rparr>) \<and> unsent (stream s) = []"
  using assms
proof (induction "unsent (stream (rpc_server w))" arbitrary: w)
  case Nil
  then have "rpc_inv cd f (w\<lparr>rpc_server := rpc_server w, downstream := downstream w\<rparr>)" by simp
  then show ?case using Nil(1) by (metis goes_to_def rpc.surjective rpc.update_convs(2,4) rtranclp.rtrancl_refl)
next
  case (Cons b bs)
  obtain s where s: "goes_to cd f now py3 ccb scb w (w\<lparr>rpc_server := s, downstream := downstream w @ [b]\<rparr>)"
    "rpc_inv cd f (w\<lparr>rpc_server := s, downstream := downstream w @ [b]\<rparr>)" "unsent (stream s) = bs"
    using server_sends_byte [OF Cons.prems Cons(2) [symmetric]] by metis
  show ?case using Cons.hyps(1) [OF _ s(2)] s(1,3) goes_to_trans by fastforce
qed

lemma client_flushes:
  assumes "rpc_inv cd f w"
  shows "\<exists>c bs. goes_to cd f now py3 ccb scb w (w\<lparr>rpc_client := c, upstream := bs\<rparr>) \<and>
    rpc_inv cd f (w\<lparr>rpc_client := c, upstream := bs\<rparr>) \<and> unsent (stream c) = [] \<and>
    bs = upstream w @ unsent (stream (rpc_client w))"
  using assms
proof (induction "unsent (stream (rpc_client w))" arbitrary: w)
  case Nil
  then have "rpc_inv cd f (w\<lparr>rpc_client := rpc_client w, upstream := upstream w\<rparr>)" by simp
  then show ?case
    using Nil(1) by (intro exI [of _ "rpc_client w"] exI [of _ "upstream w"]) (simp add: goes_to_def)
next
  case (Cons b bs)
  obtain c where c: "goes_to cd f now py3 ccb scb w (w\<lparr>rpc_client := c, upstream := upstream w @ [b]\<rparr>)"
    "rpc_inv cd f (w\<lparr>rpc_client := c, upstream := upstream w @ [b]\<rparr>)" "unsent (stream c) = bs"
    using client_sends_byte [OF Cons.prems Cons(2) [symmetric]] by metis
  show ?case using Cons.hyps(1) [OF _ c(2)] c(1,3) Cons(2) [symmetric] goes_to_trans by fastforce
qed

lemma flushed_room:
  assumes "tidy (stream s)" and "unsent (stream s) = []" and "length (pending (decode_buffer (stream s))) \<le> frame_room"
  shows "has_room s 0" and "has_room s 1"
proof -
  have "(length (pending (decode_buffer (stream s))) + n + 1) * frame_room < 2 ^ 58" if "n \<le> 1" for n
  proof -
    have "(length (pending (decode_buffer (stream s))) + n + 1) * frame_room \<le> (frame_room + 2) * frame_room"
      using assms(3) that by (intro mult_right_mono) auto
    then show ?thesis by (simp add: frame_room_def)
  qed
  from this [of 0] this [of 1] show "has_room s 0" "has_room s 1" using assms(1,2) by (simp_all add: tidy_def has_room_def)
qed

lemma sessions_room:
  assumes "rpc_inv cd f w"
  shows "unsent (stream (rpc_server w)) = [] \<Longrightarrow> has_room (rpc_server w) 0"
    and "unsent (stream (rpc_server w)) = [] \<Longrightarrow> has_room (rpc_server w) 1"
    and "unsent (stream (rpc_client w)) = [] \<Longrightarrow> has_room (rpc_client w) 1"
proof -
  obtain up held down where t: "tickets cd f w up held down" using assms(1) by (auto simp: rpc_inv_def)
  have carried: "all_carried cd f (asked w)" and c: "asking cd (rpc_client w)" and s: "serving cd (rpc_server w)"
    using assms by (simp_all add: rpc_inv_def)
  have ok: "receiver_ok (stream (rpc_client w))" "tidy (stream (rpc_client w))"
    "receiver_ok (stream (rpc_server w))" "tidy (stream (rpc_server w))"
    using c s by (simp_all add: asking_def serving_def usable_def)
  have range: "in_range (asked w) up" "in_range (asked w) down"
    using t by (simp_all add: tickets_def client_table_def)
  have "length (pending (decode_buffer (stream (rpc_server w)))) \<le> frame_room"
    by (rule pending_no_frame(1) [where rest = "upstream w @ unsent (stream (rpc_client w))", OF ok(3) _ ticket_frames(3) [OF carried range(1)]])
      (use t in \<open>simp_all only: tickets_def to_come_def\<close>)
  then show "unsent (stream (rpc_server w)) = [] \<Longrightarrow> has_room (rpc_server w) 0"
    "unsent (stream (rpc_server w)) = [] \<Longrightarrow> has_room (rpc_server w) 1"
    using flushed_room [OF ok(4)] by blast+
  have "length (pending (decode_buffer (stream (rpc_client w)))) \<le> frame_room"
    by (rule pending_no_frame(1) [where rest = "downstream w @ unsent (stream (rpc_server w))", OF ok(1) _ ticket_frames(4) [OF carried range(2)]])
      (use t in \<open>simp_all only: tickets_def to_come_def\<close>)
  then show "unsent (stream (rpc_client w)) = [] \<Longrightarrow> has_room (rpc_client w) 1"
    using flushed_room [OF ok(2)] by blast
qed

lemma server_reads_byte:
  assumes "rpc_inv cd f w" and "serves f now scb" and "upstream w = b # rest" and "unsent (stream (rpc_server w)) = []"
  obtains s ow where "goes_to cd f now py3 ccb scb w (w\<lparr>rpc_server := s, upstream := rest, owed := ow\<rparr>)"
    and "rpc_inv cd f (w\<lparr>rpc_server := s, upstream := rest, owed := ow\<rparr>)"
proof -
  define v where "v = (watcher (rpc_server w))\<lparr>sock_read_ready := True\<rparr>"
  define x where "x = w\<lparr>rpc_server := (rpc_server w)\<lparr>watcher := v\<rparr>\<rparr>"
  have inv: "rpc_inv cd f x" and step: "rpc_step cd f now py3 ccb scb w x"
    unfolding x_def by (rule wakes_inv [OF assms(1)], rule rpc_step.server_wakes)
  have x: "upstream x = [b] @ rest" "has_room (rpc_server x) (length [b])" "sock_read_ready (watcher (rpc_server x))"
      "has_sock (rpc_server x)"
    using assms(3,4) sessions_room(2) [OF inv] inv by (simp_all add: x_def v_def rpc_inv_def serving_def usable_def)
  obtain h evs u where r: "on_bytes_received big_allocator (stream (rpc_server x)) (Some [b]) = Some (h, Inr evs)"
      "session_events py3 big_allocator scb evs ((rpc_server x)\<lparr>stream := h\<rparr>) = Ret u (Inr ())"
      "\<And>v. rpc_inv cd f (x\<lparr>rpc_server := u\<lparr>watcher := v\<rparr>, upstream := rest,
        owed := owed x @ concat (List.map (deferred cd now) evs)\<rparr>)"
    using server_reads_part [OF inv ample_exists assms(2) x(1,2)] by metis
  obtain v' where "run_loop_read big_allocator py3 scb (RecvData [b]) (rpc_server x) = Ret (u\<lparr>watcher := v'\<rparr>) (Inr GoOn)"
    using read_turn [OF x(4,3) _ r(1,2)] by blast
  then have "reads py3 scb (rpc_server x) [b] evs (u\<lparr>watcher := v'\<rparr>)"
    unfolding reads_def using ample_exists x(2,3) r(1) by (intro exI [of _ big_allocator] exI conjI) simp_all
  from goes_to_two [OF step rpc_step.server_reads [OF x(1) this]] r(3) [of v'] show ?thesis
    using that by (simp add: x_def)
qed

lemma client_reads_byte:
  assumes "rpc_inv cd f w" and "downstream w = b # rest" and "unsent (stream (rpc_client w)) = []"
  obtains c where "goes_to cd f now py3 ccb scb w (w\<lparr>rpc_client := c, downstream := rest\<rparr>)"
    and "rpc_inv cd f (w\<lparr>rpc_client := c, downstream := rest\<rparr>)" and "unsent (stream c) = []"
proof -
  define v where "v = (watcher (rpc_client w))\<lparr>sock_read_ready := True\<rparr>"
  define x where "x = w\<lparr>rpc_client := (rpc_client w)\<lparr>watcher := v\<rparr>\<rparr>"
  have inv: "rpc_inv cd f x" and step: "rpc_step cd f now py3 ccb scb w x"
    unfolding x_def by (rule wakes_inv [OF assms(1)], rule rpc_step.client_wakes)
  have x: "downstream x = [b] @ rest" "has_room (rpc_client x) (length [b])" "sock_read_ready (watcher (rpc_client x))"
      "has_sock (rpc_client x)" "unsent (stream (rpc_client x)) = []"
    using assms(2,3) sessions_room(3) [OF inv] inv by (simp_all add: x_def v_def rpc_inv_def asking_def usable_def)
  obtain h evs u where r: "on_bytes_received big_allocator (stream (rpc_client x)) (Some [b]) = Some (h, Inr evs)"
      "session_events py3 big_allocator ccb evs ((rpc_client x)\<lparr>stream := h\<rparr>) = Ret u (Inr ())"
      "\<And>v. rpc_inv cd f (x\<lparr>rpc_client := u\<lparr>watcher := v\<rparr>, downstream := rest\<rparr>)"
      "unsent (stream u) = unsent (stream (rpc_client x))"
    using client_reads_part [OF inv ample_exists x(1,2)] by metis
  obtain v' where "run_loop_read big_allocator py3 ccb (RecvData [b]) (rpc_client x) = Ret (u\<lparr>watcher := v'\<rparr>) (Inr GoOn)"
    using read_turn [OF x(4,3) _ r(1,2)] by blast
  then have "reads py3 ccb (rpc_client x) [b] evs (u\<lparr>watcher := v'\<rparr>)"
    unfolding reads_def using ample_exists x(2,3) r(1) by (intro exI [of _ big_allocator] exI conjI) simp_all
  from goes_to_two [OF step rpc_step.client_reads [OF x(1) this]] r(3) [of v'] show ?thesis
    using that r(4) x(5) by (simp add: x_def)
qed

lemma upstream_drains:
  assumes "rpc_inv cd f w" and "serves f now scb"
  shows "\<exists>w'. goes_to cd f now py3 ccb scb w w' \<and> rpc_inv cd f w' \<and> asked w' = asked w \<and>
    rpc_client w' = rpc_client w \<and> upstream w' = []"
  using assms(1)
proof (induction "upstream w" arbitrary: w)
  case Nil
  then show ?case by (intro exI [of _ w]) (simp add: goes_to_def)
next
  case (Cons b rest)
  obtain s bs where s: "goes_to cd f now py3 ccb scb w (w\<lparr>rpc_server := s, downstream := bs\<rparr>)"
      "rpc_inv cd f (w\<lparr>rpc_server := s, downstream := bs\<rparr>)" "unsent (stream s) = []"
    using server_flushes [OF Cons.prems] by metis
  let ?x = "w\<lparr>rpc_server := s, downstream := bs\<rparr>"
  obtain t ow where t: "goes_to cd f now py3 ccb scb ?x (?x\<lparr>rpc_server := t, upstream := rest, owed := ow\<rparr>)"
      "rpc_inv cd f (?x\<lparr>rpc_server := t, upstream := rest, owed := ow\<rparr>)"
    by (rule server_reads_byte [where ?py3.0 = py3 and ccb = ccb, OF s(2) assms(2), of b rest]) (use s(3) Cons(2) in auto)
  show ?case using Cons.hyps(1) [OF _ t(2)] goes_to_trans [OF s(1) t(1)] goes_to_trans by fastforce
qed

lemma debts_are_paid:
  assumes "rpc_inv cd f w"
  shows "\<exists>w'. goes_to cd f now py3 ccb scb w w' \<and> rpc_inv cd f w' \<and> asked w' = asked w \<and>
    rpc_client w' = rpc_client w \<and> upstream w' = upstream w \<and> owed w' = []"
  using assms
proof (induction "length (owed w)" arbitrary: w)
  case 0
  then show ?case by (intro exI [of _ w]) (simp add: goes_to_def)
next
  case (Suc n)
  obtain s bs where s: "goes_to cd f now py3 ccb scb w (w\<lparr>rpc_server := s, downstream := bs\<rparr>)"
      "rpc_inv cd f (w\<lparr>rpc_server := s, downstream := bs\<rparr>)" "unsent (stream s) = []"
    using server_flushes [OF Suc.prems] by metis
  let ?x = "w\<lparr>rpc_server := s, downstream := bs\<rparr>"
  obtain q y where qy: "(q, y) \<in> set (owed ?x)" using Suc(2) by (cases "owed w") auto
  have room: "has_room (rpc_server ?x) 0" using sessions_room(1) [OF s(2)] s(3) by simp
  obtain t where t: "session_send_response big_allocator q (f y) (rpc_server ?x) = Ret t (Inr ())"
      "rpc_inv cd f (?x\<lparr>rpc_server := t, owed := remove1 (q, y) (owed ?x)\<rparr>)"
    by (rule server_responds [OF s(2) ample_exists room qy])
  let ?z = "?x\<lparr>rpc_server := t, owed := remove1 (q, y) (owed ?x)\<rparr>"
  have "rpc_step cd f now py3 ccb scb ?x ?z" by (rule rpc_step.respond [where f = f, OF ample_exists room qy t(1)])
  then have "goes_to cd f now py3 ccb scb w ?z" using s(1) by (simp add: goes_to_def)
  moreover have "n = length (owed ?z)" using Suc(2) qy by (simp add: length_remove1)
  ultimately show ?case using Suc.hyps(1) [OF _ t(2)] goes_to_trans by fastforce
qed

lemma downstream_drains:
  assumes "rpc_inv cd f w" and "unsent (stream (rpc_client w)) = []"
  shows "\<exists>c. goes_to cd f now py3 ccb scb w (w\<lparr>rpc_client := c, downstream := []\<rparr>) \<and>
    rpc_inv cd f (w\<lparr>rpc_client := c, downstream := []\<rparr>) \<and> unsent (stream c) = []"
  using assms
proof (induction "downstream w" arbitrary: w)
  case Nil
  then have "w\<lparr>rpc_client := rpc_client w, downstream := []\<rparr> = w" by simp
  then show ?case using Nil.prems by (intro exI [of _ "rpc_client w"]) (simp add: goes_to_def)
next
  case (Cons b rest)
  obtain c where c: "goes_to cd f now py3 ccb scb w (w\<lparr>rpc_client := c, downstream := rest\<rparr>)"
      "rpc_inv cd f (w\<lparr>rpc_client := c, downstream := rest\<rparr>)" "unsent (stream c) = []"
    using client_reads_byte [OF Cons.prems(1) Cons(2) [symmetric] Cons.prems(2)] by metis
  show ?case using Cons.hyps(1) [OF _ c(2)] c(1,3) goes_to_trans by fastforce
qed

lemma everything_arrives:
  assumes "rpc_inv cd f w" and "serves f now scb"
  shows "\<exists>w'. goes_to cd f now py3 ccb scb w w' \<and> rpc_inv cd f w' \<and> asked w' = asked w \<and> idle_connection w'"
proof -
  obtain c bs where c: "goes_to cd f now py3 ccb scb w (w\<lparr>rpc_client := c, upstream := bs\<rparr>)"
      "rpc_inv cd f (w\<lparr>rpc_client := c, upstream := bs\<rparr>)" "unsent (stream c) = []"
    using client_flushes [OF assms(1)] by metis
  obtain x where x: "goes_to cd f now py3 ccb scb (w\<lparr>rpc_client := c, upstream := bs\<rparr>) x" "rpc_inv cd f x"
      "asked x = asked w" "rpc_client x = c" "upstream x = []"
    using upstream_drains [OF c(2) assms(2)] by fastforce
  obtain y where y: "goes_to cd f now py3 ccb scb x y" "rpc_inv cd f y" "asked y = asked w" "rpc_client y = c"
      "upstream y = []" "owed y = []"
    using debts_are_paid [OF x(2)] x(3-5) by metis
  obtain s ds where s: "goes_to cd f now py3 ccb scb y (y\<lparr>rpc_server := s, downstream := ds\<rparr>)"
      "rpc_inv cd f (y\<lparr>rpc_server := s, downstream := ds\<rparr>)" "unsent (stream s) = []"
    using server_flushes [OF y(2)] by metis
  let ?z = "y\<lparr>rpc_server := s, downstream := ds\<rparr>"
  obtain e where e: "goes_to cd f now py3 ccb scb ?z (?z\<lparr>rpc_client := e, downstream := []\<rparr>)"
      "rpc_inv cd f (?z\<lparr>rpc_client := e, downstream := []\<rparr>)" "unsent (stream e) = []"
    using downstream_drains [OF s(2)] y(4) c(3) by fastforce
  have "goes_to cd f now py3 ccb scb w (?z\<lparr>rpc_client := e, downstream := []\<rparr>)"
    using c(1) x(1) y(1) s(1) e(1) goes_to_trans by metis
  then show ?thesis
    using e s(3) y(3,5,6) by (intro exI [of _ "?z\<lparr>rpc_client := e, downstream := []\<rparr>"]) (simp add: idle_connection_def)
qed

section \<open>Properties\<close>


text \<open>A connection whose server answers everything late, and its client's first request.\<close>

definition late_server :: "byte list callbacks" where
  "late_server = \<lparr>on_request = (\<lambda>q x s. Ret s (Inr None)), on_push = (\<lambda>d s. Ret s (Inr ()))\<rparr>"

lemma late_server_serves: "serves rev (\<lambda>q x. False) late_server"
  by (simp add: serves_def late_server_def)

lemma first_request:
  obtains w where "rpc_run plain_codec rev (\<lambda>q x. False) True late_server late_server w" and "asked w = [Some [1, 2]]"
    and "upstream w = []" and "unsent (stream (rpc_client w)) = wire (FRequest 0 1 [1, 2])"
    and "rpc_server w = ready_session False"
proof -
  let ?w = "\<lparr>rpc_client = ready_session True, rpc_server = ready_session False, upstream = [], downstream = [],
    asked = [], owed = []\<rparr>"
  have c: "usable plain_codec (ready_session True)" "is_client (ready_session True)"
    using ready_session_ok(1) [of True, unfolded established_usable] by (simp, simp add: ready_session_def)
  have conn: "connection plain_codec ?w"
    unfolding connection_def rpc.select_convs
    by (intro conjI ready_session_ok) (simp_all add: ready_session_def cinit_quiet)
  have car: "carried plain_codec [1, 2]" "carried plain_codec [2, 1]"
    by (simp_all add: carried_def dumped_def plain_codec_def transports_def opt_bytes_def opt_payload_def max_payload_def)
  obtain h where "session_send_request big_allocator [1, 2] (ready_session True) =
      (if bump (sh_seq (stream (ready_session True))) = 0
       then Ret ((ready_session True)\<lparr>results := results (ready_session True) @ [None], stream := h\<rparr>) (Inl SystemError)
       else Ret (resume_sending (put_inflight (bump (sh_seq (stream (ready_session True))))
          (Waiting (length (results (ready_session True))))
          ((ready_session True)\<lparr>results := results (ready_session True) @ [None], stream := h\<rparr>)))
        (Inr (length (results (ready_session True)))))"
      and h: "unsent h = unsent (stream (ready_session True)) @ wire (FRequest 0 (bump (sh_seq (stream (ready_session True)))) [1, 2])"
    by (rule send_request_usable [OF ample_exists c, of "[1, 2]" "[1, 2]"])
      (auto simp: plain_codec_def max_payload_def ready_session_ok)
  then obtain c1 i where c1: "session_send_request big_allocator [1, 2] (ready_session True) = Ret c1 (Inr i)"
      "unsent (stream c1) = wire (FRequest 0 1 [1, 2])"
    by (auto simp: ready_session_ok put_inflight_def)
  have "rpc_step plain_codec rev (\<lambda>q x. False) True late_server late_server ?w
      (?w\<lparr>rpc_client := c1, asked := asked ?w @ [Some [1, 2]]\<rparr>)"
  proof (rule rpc_step.ask [where alloc = big_allocator])
    show "has_room (rpc_client ?w) 0" by (simp add: has_room_def ready_session_def cinit_quiet cinit_inv frame_room_def)
    show "next_free (rpc_client ?w)" by (simp add: next_free_def ready_session_def)
  qed (use car ample_exists c1(1) in simp_all)
  from rpc_run.step [OF rpc_run.opened [OF conn] this] show ?thesis
    by (rule that) (simp_all add: c1)
qed






end
