(* ===== verification/Loqui_Liveness.thy ===== *)
theory Loqui_Liveness
  imports Loqui_Invariant
begin

text \<open>
  What waits is released. \<open>prompt b\<close> is a property of a process that starts with the ready
  event set (\<open>b\<close>) or not: it never clears the event, and it waits only while the event is not set.
\<close>

section \<open>Prompt processes\<close>

primrec prompt :: "bool \<Rightarrow> ('d, 'a) op \<Rightarrow> bool" where
  "prompt b Undefined = True"
| "prompt b (Ret s r) = (b \<longrightarrow> ready_event s)"
| "prompt b (Wait c s k) = (c = ready_event \<and> \<not> b \<and> (\<forall>t. prompt (ready_event t) (k t)))"

lemma prompt_mono: "prompt c p \<Longrightarrow> (b \<Longrightarrow> c) \<Longrightarrow> prompt b p"
  by (cases p) auto

lemma prompt_and_then:
  assumes "prompt b p" and "\<And>s x. prompt (ready_event s) (f s x)"
  shows "prompt b (and_then p f)"
  using assms(1)
proof (induction p arbitrary: b)
  case (Ret s r)
  then show ?case by (cases r) (auto intro: prompt_mono [OF assms(2)])
qed auto

lemma prompt_catching:
  assumes "prompt b p" and "\<And>s e. prompt (ready_event s) (f s e)"
  shows "prompt b (catching p f)"
  using assms(1)
proof (induction p arbitrary: b)
  case (Ret s r)
  then show ?case by (cases r) (auto intro: prompt_mono [OF assms(2)])
qed auto

lemma prompt_await: "(\<And>t. prompt (ready_event t) (k t)) \<Longrightarrow> prompt (ready_event s) (await_ready s k)"
  by (auto simp: await_ready_def intro: prompt_mono)

lemma prompt_stream: "prompt (ready_event s) (on_stream s r)"
  by (auto simp: on_stream_def split: option.split)

lemmas prompt_intros = prompt_and_then prompt_catching prompt_await prompt_stream

text \<open>Only closing and the handshake write the event, and they set it.\<close>

lemma ready_event_kept [simp]:
  "ready_event (resume_sending s) = ready_event s" "ready_event (set_result i v s) = ready_event s"
  "ready_event (put_inflight q r s) = ready_event s" "ready_event (snd (new_result s)) = ready_event s"
  "ready_event (snd (pop_inflight q s)) = ready_event s" "ready_event (cleanup_socket py3 s)"
  by (simp_all add: resume_sending_def set_result_def put_inflight_def new_result_def pop_inflight_def
      cleanup_socket_eq)

lemma pair_kept:
  "new_result s = (i, t) \<Longrightarrow> ready_event t = ready_event s"
  "pop_inflight q s = (r, t) \<Longrightarrow> ready_event t = ready_event s"
  using ready_event_kept(4) [of s] ready_event_kept(5) [of q s] by simp_all

section \<open>Operations\<close>

lemma prompt_codec: "prompt (ready_event s) (encode_data d s)" "prompt (ready_event s) (decode_data fl b s)"
  unfolding encode_data_def decode_data_def by (auto intro!: prompt_await split: option.split)

lemma prompt_on:
  "ready_event t = ready_event s \<Longrightarrow> prompt (ready_event s) (and_then (on_stream t r) f)"
  if "\<And>s x. prompt (ready_event s) (f s x)"
  using prompt_and_then [OF prompt_stream that, of t r] by simp

lemma prompt_send:
  "prompt (ready_event s) (session_send_request alloc d s)" "prompt (ready_event s) (session_send_push alloc d s)"
  "prompt (ready_event s) (session_send_ping alloc s)" "prompt (ready_event s) (session_send_hello_ack py3 alloc enc cmp s)"
  unfolding session_send_request_def session_send_push_def session_send_ping_def session_send_hello_ack_def
  by (auto intro!: prompt_and_then prompt_codec prompt_on split: prod.split dest: pair_kept)

lemma prompt_send_response: "prompt (ready_event s) (session_send_response alloc q d s)"
proof -
  obtain r t where pop: "pop_inflight q s = (r, t)" by (cases "pop_inflight q s")
  have "prompt (ready_event t) (and_then (encode_data d t) (\<lambda>s (flags, b).
      and_then (on_stream s (send_response alloc (stream s) flags q b)) (\<lambda>s _. Ret (resume_sending s) (Inr ()))))"
    by (intro prompt_and_then prompt_codec) (auto intro!: prompt_on split: prod.split)
  then show ?thesis
    using pair_kept(2) [OF pop] by (auto simp: session_send_response_def pop split: option.split)
qed

lemma prompt_close: "prompt (ready_event s) (session_close alloc code reason remote s)"
  unfolding session_close_def Let_def
  by (auto intro!: prompt_mono [OF prompt_and_then [OF prompt_stream]])

definition callbacks_prompt :: "'d callbacks \<Rightarrow> bool" where
  "callbacks_prompt cb \<longleftrightarrow>
     (\<forall>q d s. prompt (ready_event s) (on_request cb q d s)) \<and> (\<forall>d s. prompt (ready_event s) (on_push cb d s))"

lemma prompt_handlers:
  assumes "callbacks_prompt cb"
  shows "prompt (ready_event s) (handle_request alloc cb fl q d s)" and "prompt (ready_event s) (handle_push cb fl d s)"
proof -
  have req: "prompt (ready_event t) (on_request cb q x (put_inflight q (Serving q) t))" for t x
  proof -
    have "prompt (ready_event (put_inflight q (Serving q) t)) (on_request cb q x (put_inflight q (Serving q) t))"
      using assms by (simp only: callbacks_prompt_def)
    then show ?thesis by simp
  qed
  show "prompt (ready_event s) (handle_request alloc cb fl q d s)"
    unfolding handle_request_def
    by (auto intro!: prompt_and_then prompt_codec req prompt_send_response split: option.split)
  show "prompt (ready_event s) (handle_push cb fl d s)"
    using assms by (auto simp: handle_push_def callbacks_prompt_def intro!: prompt_and_then prompt_codec)
qed

lemma prompt_answers:
  "prompt (ready_event s) (handle_response fl q d s)" "prompt (ready_event s) (handle_pong fl q s)"
  "prompt (ready_event s) (handle_error code q d s)"
proof -
  obtain r t where pop: "pop_inflight q s = (r, t)" by (cases "pop_inflight q s")
  have "prompt (ready_event t) (catching (and_then (decode_data fl d t) (\<lambda>s d. Ret (set_result i (Data d) s) (Inr ())))
      (\<lambda>s e. Ret (set_result i (Failed e) s) (Inr ())))" for i
    by (intro prompt_catching prompt_and_then prompt_codec) simp_all
  then show "prompt (ready_event s) (handle_response fl q d s)"
    using pair_kept(2) [OF pop] by (auto simp: handle_response_def pop split: option.split inflight.split)
  show "prompt (ready_event s) (handle_pong fl q s)" "prompt (ready_event s) (handle_error code q d s)"
    using pair_kept(2) [OF pop]
    by (auto simp: handle_pong_def handle_error_def pop split: option.split inflight.split)
qed

lemma prompt_ready: "prompt c p \<Longrightarrow> c \<Longrightarrow> prompt b p"
  by (auto elim: prompt_mono)

lemma prompt_handshake:
  "prompt (ready_event s) (handle_hello py3 alloc encs s)" "prompt (ready_event s) (handle_hello_ack alloc pint enc s)"
  "prompt (ready_event s) (handle_go_away alloc code reason s)"
proof -
  have "prompt (ready_event s) (and_then (session_send_hello_ack py3 alloc e None (s\<lparr>encoder_dumps := x, encoder_loads := y,
      session_encoding := z\<rparr>)) (\<lambda>s _. Ret (s\<lparr>is_ready := True, ready_event := True\<rparr>) (Inr ())))" for e x y z
    using prompt_send(4) [of "s\<lparr>encoder_dumps := x, encoder_loads := y, session_encoding := z\<rparr>" py3 alloc e None]
    by (intro prompt_and_then) simp_all
  then show "prompt (ready_event s) (handle_hello py3 alloc encs s)"
    by (auto simp: handle_hello_def Let_def split: option.split)
  show "prompt (ready_event s) (handle_hello_ack alloc pint enc s)"
    "prompt (ready_event s) (handle_go_away alloc code reason s)"
    using prompt_close by (auto simp: handle_hello_ack_def handle_go_away_def split: option.split sum.split)
qed

lemma prompt_each:
  "(\<And>ev s. prompt (ready_event s) (f ev s)) \<Longrightarrow> prompt (ready_event s) (each_event f evs s)"
  by (induction evs arbitrary: s) (auto intro!: prompt_and_then)

lemma prompt_data:
  assumes "callbacks_prompt cb"
  shows "prompt (ready_event s) (handle_data_received py3 alloc cb d s)"
proof -
  have c: "prompt (ready_event s) (handle_client_events alloc cb evs s)" for evs s
    using assms by (auto simp: handle_client_events_def handle_client_event_def handle_ping_def split: event.split
        intro!: prompt_each prompt_handlers prompt_answers prompt_handshake)
  have v: "prompt (ready_event s) (handle_server_events py3 alloc cb evs s)" for evs s
    using assms by (auto simp: handle_server_events_def handle_server_event_def handle_ping_def split: event.split
        intro!: prompt_each prompt_handlers prompt_answers prompt_handshake)
  have "prompt (ready_event s) (and_then (if is_client s then handle_client_events alloc cb evs (s\<lparr>stream := h\<rparr>)
      else handle_server_events py3 alloc cb evs (s\<lparr>stream := h\<rparr>)) (\<lambda>s _. Ret (resume_sending s) (Inr ())))" for evs h
    using c [of "s\<lparr>stream := h\<rparr>"] v [of "s\<lparr>stream := h\<rparr>"] by (intro prompt_and_then) auto
  then show ?thesis
    using prompt_close [of "s\<lparr>stream := _\<rparr>"]
    by (auto simp: handle_data_received_def Let_def split: option.split sum.split py_error.split)
qed

lemma prompt_loops:
  assumes "callbacks_prompt cb"
  shows "prompt (ready_event s) (ping_loop_send alloc s)" and "prompt (ready_event s) (ping_loop_check alloc i s)"
    and "prompt (ready_event s) (run_loop_read alloc py3 cb io s)"
    and "prompt (ready_event s) (run_loop_write alloc py3 prev wio s)"
proof -
  show "prompt (ready_event s) (ping_loop_send alloc s)" "prompt (ready_event s) (ping_loop_check alloc i s)"
    unfolding ping_loop_send_def ping_loop_check_def handle_ping_timeout_def
    by (auto intro!: prompt_and_then prompt_send prompt_close)
  show "prompt (ready_event s) (run_loop_read alloc py3 cb io s)"
    unfolding run_loop_read_def
    by (auto intro!: prompt_and_then prompt_close prompt_data [OF assms] split: recv_result.split list.split)
  have "prompt (ready_event s) (run_loop_send alloc py3 prev wio s)"
    using prompt_close [of "s\<lparr>stream := _\<rparr>"]
    by (auto simp: run_loop_send_def Let_def intro!: prompt_and_then split: option.split send_result.split)
  then show "prompt (ready_event s) (run_loop_write alloc py3 prev wio s)"
    unfolding run_loop_write_def by (auto intro!: prompt_and_then split: option.split)
qed

lemma prompt_act:
  assumes "callbacks_prompt cb"
  shows "prompt (ready_event s) (act alloc py3 cb a s)"
proof -
  show ?thesis
    by (cases a)
      (auto simp: ignoring_def close_timeout_def terminate_def set_push_handler_def run_loop_end_def run_loop_wait_def Let_def
        split: prod.split intro!: prompt_and_then prompt_send prompt_send_response prompt_close prompt_loops [OF assms])
qed

section \<open>Suspended calls\<close>

definition suspended_prompt :: "'d suspended \<Rightarrow> bool" where
  "suspended_prompt x \<longleftrightarrow> fst x = ready_event \<and> (\<forall>t. prompt (ready_event t) (snd x t))"

definition all_prompt :: "'d suspended list \<Rightarrow> bool" where
  "all_prompt ks \<longleftrightarrow> (\<forall>x \<in> set ks. suspended_prompt x)"

lemma ends_prompt: "ends p s new \<Longrightarrow> prompt b p \<Longrightarrow> all_prompt new"
  by (induction rule: ends.induct) (auto simp: all_prompt_def suspended_prompt_def)

lemma sys_step_prompt:
  "sys_step py3 cb c c' \<Longrightarrow> callbacks_prompt cb \<Longrightarrow> all_prompt (snd c) \<Longrightarrow> all_prompt (snd c')"
proof (induction rule: sys_step.induct)
  case (call alloc a s s' new ks)
  then show ?case using ends_prompt [OF call(3) prompt_act] by (auto simp: all_prompt_def)
next
  case (resume c s k s' new ks ks')
  then have "\<forall>t. prompt (ready_event t) (k t)" by (simp add: all_prompt_def suspended_prompt_def)
  then have "prompt (ready_event s) (k s)" by (rule spec)
  from ends_prompt [OF resume(2) this] show ?case using resume by (auto simp: all_prompt_def)
qed

lemma reachable_prompt:
  assumes "sys_reachable py3 cb c" and "callbacks_prompt cb"
  shows "all_prompt (snd c)"
  using assms by (induction rule: sys_reachable.induct) (auto simp: all_prompt_def [of "[]"] intro: sys_step_prompt)

lemma resumed_ends:
  assumes "config_inv cl (s, ks)" and "all_prompt ks" and "ready_event s" and "x \<in> set ks"
  obtains s' r where "fst x s" and "snd x s = Ret s' r" and "session_inv cl s'" and "ready_event s'"
proof -
  have x: "fst x = ready_event" "prompt (ready_event s) (snd x s)"
    using assms(2,4) by (simp_all only: all_prompt_def suspended_prompt_def)
  then have "keeps (session_inv cl) (snd x s)" using assms by (auto simp: config_inv_def suspended_ok_def)
  then show ?thesis using that assms(3) x by (cases "snd x s") auto
qed

lemma all_resumed:
  assumes "config_inv cl (s, ks)" and "all_prompt ks" and "ready_event s"
  shows "\<exists>s'. (sys_step py3 cb ^^ length ks) (s, ks) (s', [])"
  using assms
proof (induction ks arbitrary: s)
  case (Cons x ks)
  obtain s1 r where x: "fst x s" "snd x s = Ret s1 r" "session_inv cl s1" "ready_event s1"
    by (rule resumed_ends [OF Cons.prems, of x]) simp
  have "config_inv cl (s1, ks)" "all_prompt ks"
    using Cons.prems x(3) by (auto simp: config_inv_def all_prompt_def)
  then obtain s2 where "(sys_step py3 cb ^^ length ks) (s1, ks) (s2, [])"
    using Cons.IH x(4) by blast
  moreover have "sys_step py3 cb (s, x # ks) (s1, ks)"
    using sys_step.resume [of "fst x" s "snd x" s1 "[]" py3 cb "[]" ks] x(1,2) by (simp add: ends.finished)
  ultimately show ?case by (metis length_Cons relpowp_Suc_I2)
qed (auto intro: exI [of _ s])

section \<open>Properties\<close>



end
