(* ===== verification/Loqui_Closing.thy ===== *)
theory Loqui_Closing
  imports Loqui_Exchange Loqui_Liveness
begin

text \<open>
  How a session ends, and what its in-flight requests then get: answers, clean-up, closing by
  either side, and the ways in which a peer can stop the run loop without closing anything.
\<close>

section \<open>Answers\<close>

text \<open>The number and the answer that an event from the server carries.\<close>

fun answered :: "(pybytes \<Rightarrow> 'd py) \<Rightarrow> event \<Rightarrow> (u32 \<times> 'd answer) option" where
  "answered loads (Response fl q d) = Some (q, case loads d of Inl e \<Rightarrow> Failed e | Inr x \<Rightarrow> Data x)"
| "answered loads (Pong fl q) = Some (q, PongAnswer (Pong fl q))"
| "answered loads (Error fl code q d) = Some (q, Failed (LoquiErrorReceived code d))"
| "answered loads _ = None"

lemma delete_absent: "map_of d q = None \<Longrightarrow> AList.delete q d = d"
  by (induction d) (auto split: if_split_asm)

lemma waiting_member: "map_of d q = Some (Waiting i) \<Longrightarrow> i \<in> set (waiting d)"
  by (induction d rule: waiting.induct) (auto split: if_split_asm)

lemma waiting_deleted:
  "distinct (waiting d) \<Longrightarrow> distinct (List.map fst d) \<Longrightarrow> map_of d q = Some (Waiting i) \<Longrightarrow>
     i \<notin> set (waiting (AList.delete q d))"
proof (induction d rule: waiting.induct)
  case (2 k j d)
  then show ?case
    using delete_absent [of d q] waiting_member [of d q i] by (auto simp: map_of_eq_None_iff split: if_split_asm)
qed (auto split: if_split_asm)

lemma client_entry: "session_inv True s \<Longrightarrow> map_of (inflight_requests s) q = Some r \<Longrightarrow> \<exists>i. r = Waiting i"
  by (auto simp: session_inv_defs dest: map_of_SomeD)

section \<open>Properties\<close>

text \<open>
  C17: Answers reach exactly their request. On a ready client, a response, pong or error whose number is
  in flight puts its answer (what the codec makes of the data, or its exception; the pong; the
  error with its code) into the result that was returned for that number, forgets the number, and
  changes nothing else: that result is not waited for under any other number. With a number that
  is not in flight, nothing changes.
\<close>

theorem answers_reach_their_request:
  assumes "session_inv True s" and "is_ready s" and "encoder_loads s = Some loads" and "answered loads ev = Some (q, a)"
  shows "handle_client_event alloc cb ev s =
      Ret (case map_of (inflight_requests s) q of
             Some (Waiting i) \<Rightarrow> s\<lparr>inflight_requests := AList.delete q (inflight_requests s),
               results := (results s)[i := Some a]\<rparr>
           | _ \<Rightarrow> s) (Inr ()) \<and>
    (\<forall>i. map_of (inflight_requests s) q = Some (Waiting i) \<longrightarrow>
       i < length (results s) \<and> i \<notin> set (waiting (AList.delete q (inflight_requests s))))"
proof
  have same: "s\<lparr>inflight_requests := inflight_requests s\<rparr> = s" by simp
  show "handle_client_event alloc cb ev s =
      Ret (case map_of (inflight_requests s) q of
             Some (Waiting i) \<Rightarrow> s\<lparr>inflight_requests := AList.delete q (inflight_requests s),
               results := (results s)[i := Some a]\<rparr>
           | _ \<Rightarrow> s) (Inr ())"
  proof (cases "map_of (inflight_requests s) q")
    case None
    then show ?thesis
      using assms(4) same delete_absent [OF None]
      by (cases ev) (auto simp: handle_client_event_def handle_response_def handle_pong_def handle_error_def
          pop_inflight_def)
  next
    case (Some r)
    then obtain i where "r = Waiting i" using client_entry [OF assms(1)] by blast
    then show ?thesis
      using Some assms(2-4)
      by (cases ev) (auto simp: handle_client_event_def handle_response_def handle_pong_def handle_error_def
          pop_inflight_def decode_data_def await_ready_def set_result_def split: sum.split)
  qed
  show "\<forall>i. map_of (inflight_requests s) q = Some (Waiting i) \<longrightarrow>
      i < length (results s) \<and> i \<notin> set (waiting (AList.delete q (inflight_requests s)))"
    using assms(1) waiting_deleted [of "inflight_requests s" q] waiting_member [of "inflight_requests s" q]
    by (auto simp: session_inv_defs)
qed

definition asking_session :: "byte list session" where
  "asking_session = (ready_session True)\<lparr>results := [None], inflight_requests := [(1, Waiting 0)]\<rparr>"

lemma asking_session_ok:
  "session_inv True asking_session" "is_ready asking_session" "inflight_requests asking_session = [(1, Waiting 0)]"
  "encoder_loads asking_session = Some (codec_loads plain_codec)" "results asking_session = [None]"
  using ready_session_ok(2) [of True]
  by (simp_all add: asking_session_def session_inv_defs) (simp_all add: ready_session_def)

lemma answers_reach_their_request_witness:
  "\<exists>s. handle_client_event big_allocator reversing (Error 0 3 1 (Some [9])) asking_session = Ret s (Inr ()) \<and>
    results s = [Some (Failed (LoquiErrorReceived 3 (Some [9])))] \<and> inflight_requests s = []"
  using answers_reach_their_request [OF asking_session_ok(1,2,4), of "Error 0 3 1 (Some [9])"]
  by (simp add: asking_session_ok)

text \<open>
  C18: A client's in-flight table is well typed. In every reachable state of a client its entries
  are \<open>AsyncResult\<close>s that exist (never requests), one number and one result each, so that no
  response, pong or error makes the session call \<open>set\<close> on a request object, which would raise
  \<open>AttributeError\<close>.
\<close>

theorem client_entries_typed:
  assumes "callbacks_keep cb" and "sys_reachable py3 cb (s, ks)" and "is_client s"
  shows "(\<forall>(q, r) \<in> set (inflight_requests s). \<exists>i < length (results s). r = Waiting i) \<and>
    distinct (List.map fst (inflight_requests s)) \<and> distinct (List.map snd (inflight_requests s)) \<and>
    (\<forall>t v. handle_pong fl q s = Ret t v \<or> handle_error code q d s = Ret t v \<longrightarrow> v = Inr ())"
proof -
  obtain cl where inv: "session_inv cl s" using reachable_config_inv [OF assms(2,1)] by (auto simp: config_inv_def)
  then have s: "session_inv True s" using assms(3) by (simp add: session_inv_def role_ok_def)
  have map: "List.map snd d = List.map Waiting (waiting d)" if "\<forall>(k, r) \<in> set d. \<exists>i. r = Waiting i" for d :: "(u32 \<times> inflight) list"
    using that by (induction d rule: waiting.induct) auto
  have "distinct (List.map snd (inflight_requests s))"
    using s map [of "inflight_requests s"] by (simp add: session_inv_defs distinct_map inj_on_def)
  moreover have "\<exists>i < length (results s). r = Waiting i" if qr: "(k, r) \<in> set (inflight_requests s)" for k r
  proof -
    have d: "distinct (List.map fst (inflight_requests s))" using s by (simp add: session_inv_defs)
    then have "map_of (inflight_requests s) k = Some r" using qr by simp
    then show ?thesis
      using client_entry [OF s, of k r] waiting_member [of "inflight_requests s" k] s by (auto simp: session_inv_defs)
  qed
  moreover have "v = Inr ()" if "handle_pong fl q s = Ret t v \<or> handle_error code q d s = Ret t v" for t v
    using that client_entry [OF s, of q]
    by (auto simp: handle_pong_def handle_error_def pop_inflight_def split: option.splits inflight.splits)
  ultimately show ?thesis using s by (auto simp: session_inv_defs)
qed

text \<open>A client that has opened and pinged.\<close>

lemma client_entries_typed_witness:
  "\<exists>s. sys_reachable True idle_callbacks (s, []) \<and> is_client s \<and> length (inflight_requests s) = 1 \<and>
    (\<forall>(q, r) \<in> set (inflight_requests s). \<exists>i < length (results s). r = Waiting i)"
proof -
  have cb: "callbacks_keep idle_callbacks" by (simp add: callbacks_keep_def idle_callbacks_def)
  define encs :: "(byte list \<times> nat codec) list" where
    "encs = [([106], \<lparr>codec_dumps = (\<lambda>d. Inr (Some [])), codec_loads = (\<lambda>b. Inr 0)\<rparr>)]"
  have v: "valid_command (hello_of (List.map fst encs))"
    by (simp add: encs_def valid_command_def hello_of_def plain_name_def COMMA_def PIPE_def max_payload_def)
  obtain c :: "nat session" where c: "session_cinit big_allocator 3 encs True True True = Ret c (Inr ())"
      "quiet (stream c)" "write_used (stream c) \<le> frame_room" "is_client c" "has_sock c" "\<not> shutting_down c"
      "inflight_requests c = []" "sh_seq (stream c) = 0"
    by (rule client_opens [OF ample_exists v, of 3 True True]) auto
  have b: "bump 0 = 1" by (simp add: bump_def SEQ_MAX_def word_le_nat_alt)
  obtain s where s: "session_send_ping big_allocator c = Ret s (Inr (length (results c)))" "is_client s"
      "inflight_requests s = [(1, Waiting (length (results c)))]"
    by (rule send_ping_open [OF ample_exists c(2)])
      (use c b in \<open>auto simp: defunct_def frame_room_def put_inflight_def\<close>)
  have "sys_reachable True idle_callbacks (c, [])" by (rule open_session [OF big_allocator_sane c(1)])
  moreover have "sys_step True idle_callbacks (c, []) (s, [])"
    using sys_step.call [OF big_allocator_sane, of SendPing c True idle_callbacks s "[]" "[]"] s(1)
    by (simp add: ignoring_def ends.finished)
  ultimately have r: "sys_reachable True idle_callbacks (s, [])" by (rule sys_reachable.step)
  show ?thesis using r s(2,3) conjunct1 [OF client_entries_typed [OF cb r s(2)]] by (intro exI [of _ s]) simp
qed

section \<open>Clean-up\<close>



section \<open>Closing\<close>

lemma close_again: "shutting_down s \<Longrightarrow> session_close alloc code reason remote s = Ret s (Inr ())"
  by (simp add: session_close_def)





section \<open>Ends of the run loop that close nothing\<close>

lemma run_loop_reads:
  assumes "has_sock s" and "sock_read_ready (watcher s)"
  shows "run_loop_read alloc py3 cb (RecvData (wire f)) s =
    and_then (handle_data_received py3 alloc cb (wire f) s) (\<lambda>s _. Ret s (Inr GoOn))"
  using assms by (simp add: run_loop_read_def wire_def)

text \<open>
  A GOAWAY whose code does not fit a byte ends the run loop of either side with
  \<open>OverflowError\<close>: \<open>close\<close> takes a \<open>uint8_t\<close> although the wire carries 16 bits. The session stays
  as it was, not even shutting down, with its socket and its requests in flight.
\<close>

theorem goaway_code_overflow:
  assumes "ample alloc" and "quiet (stream s)" and "write_used (stream s) < 2 ^ 59" and "has_sock s"
    and "sock_read_ready (watcher s)" and "length reason \<le> max_payload" and "256 \<le> code"
  shows "\<exists>h. run_loop_read alloc py3 cb (RecvData (wire (FGoAway fl code reason))) s =
    Ret (s\<lparr>stream := h\<rparr>) (Inl OverflowError)"
proof -
  have o: "PyInt_As_uint8_t (uint code) = Inl OverflowError"
    using assms(7) by (simp add: PyInt_As_uint8_t_def word_le_def)
  show ?thesis
    by (rule session_receives [OF assms(1-3), of "FGoAway fl code reason" "GoAway fl code (opt_payload reason)" py3 cb])
      (use assms(6) o in \<open>auto simp: run_loop_reads [OF assms(4,5)] legal_def handle_client_event_def
        handle_server_event_def handle_go_away_def\<close>)
qed

lemma goaway_code_overflow_witness:
  "\<exists>h. run_loop_read big_allocator True reversing (RecvData [8, 0, 1, 0, 0, 0, 0, 0])
      ((ready_session True)\<lparr>watcher := mark_ready 3 True (SocketWatcher_cinit 3)\<rparr>) =
    Ret ((ready_session True)\<lparr>watcher := mark_ready 3 True (SocketWatcher_cinit 3), stream := h\<rparr>) (Inl OverflowError)"
proof -
  let ?s = "(ready_session True)\<lparr>watcher := mark_ready 3 True (SocketWatcher_cinit 3)\<rparr>"
  have w: "wire (FGoAway 0 256 []) = [8, 0, 1, 0, 0, 0, 0, 0]"
    by (simp add: wire_def be16_bytes_def size_field_def be32_bytes_def)
  have s: "has_sock ?s" "sock_read_ready (watcher ?s)" "quiet (stream ?s)" "write_used (stream ?s) < 2 ^ 59"
    using ready_session_ok(1,4) [of True] by (simp_all add: established_def watcher_defs)
  from goaway_code_overflow [OF ample_exists s(3,4,1,2), of "[]" 256 True reversing 0] show ?thesis
    by (simp add: w)
qed

text \<open>
  C39: A server without a common encoding does not tell its client. A HELLO that offers only
  encodings the server does not have ends its run loop with \<open>TypeError\<close>, because the error path calls
  \<open>close\<close> with an integer for the reason: no GOAWAY is queued, the session is not shutting down, and its
  socket stays open.
\<close>

theorem no_common_encoding_raises:
  assumes "ample alloc" and "quiet (stream s)" and "write_used (stream s) < 2 ^ 59" and "has_sock s"
    and "sock_read_ready (watcher s)" and "\<not> is_client s" and "valid_command (CmdHello fl encs cmps)"
    and "\<forall>e \<in> set encs. map_of (available_encoders s) e = None"
  shows "\<exists>h. run_loop_read alloc py3 cb (RecvData (wire (command_frame q (CmdHello fl encs cmps)))) s =
      Ret (s\<lparr>stream := h\<rparr>) (Inl TypeError) \<and> unsent h = unsent (stream s)"
proof -
  let ?f = "command_frame q (CmdHello fl encs cmps)"
  have none: "pick_best_encoding (available_encoders s) es = None"
    if "\<forall>e \<in> set es. map_of (available_encoders s) e = None" for es
    using that by (induction es) auto
  have reply: "frame_reply ?f = []" by (simp add: command_frame_def)
  show ?thesis
    by (rule session_receives [where ?py3.0 = py3 and cb = cb, OF assms(1-3) command_frame_payload [OF assms(7), of q] command_legal [OF assms(7), of q]])
      (use assms(6,8) none reply in \<open>auto simp: run_loop_reads [OF assms(4,5)] handle_server_event_def handle_hello_def\<close>)
qed

lemma no_common_encoding_raises_witness:
  "\<exists>h. run_loop_read big_allocator True reversing (RecvData (wire (command_frame 1 (CmdHello 0 [[120]] [[]]))))
      ((ready_session False)\<lparr>watcher := mark_ready 3 True (SocketWatcher_cinit 3)\<rparr>) =
    Ret ((ready_session False)\<lparr>watcher := mark_ready 3 True (SocketWatcher_cinit 3), stream := h\<rparr>) (Inl TypeError)"
proof -
  let ?s = "(ready_session False)\<lparr>watcher := mark_ready 3 True (SocketWatcher_cinit 3)\<rparr>"
  have s: "has_sock ?s" "sock_read_ready (watcher ?s)" "\<not> is_client ?s" "available_encoders ?s = [([106], plain_codec)]"
      "quiet (stream ?s)" "write_used (stream ?s) < 2 ^ 59"
    using ready_session_ok(1,4) [of False] by (simp_all add: established_def watcher_defs) (simp_all add: ready_session_def)
  have "valid_command (CmdHello 0 [[120]] [[]])"
    by (simp add: valid_command_def plain_name_def COMMA_def PIPE_def max_payload_def)
  then show ?thesis
    using no_common_encoding_raises [OF ample_exists s(5,6,1-3), of 0 "[[120]]" "[[]]" True reversing 1] s(4) by auto
qed

section \<open>Turns that start over\<close>

text \<open>
  When \<open>recv\<close> or \<open>send\<close> must be tried again the loop goes back to its wait without resetting
  the watcher. With a stored wakeup the wait returns at once and nothing has changed, so as long as
  \<open>recv\<close> has nothing the loop spins without giving way to the hub.
\<close>

lemma empty_read_spins:
  assumes "has_sock s" and "sock_read_ready (watcher s)" and "waiter_stored (watcher s)"
  shows "run_loop_read alloc py3 cb RecvAgain s = Ret s (Inr StartOver)" and "run_loop_wait s = (s, True)"
  using assms by (simp_all add: run_loop_read_def run_loop_wait_def watcher_wait_def)



end
