(* ===== verification/Loqui_Python3.thy ===== *)
theory Loqui_Python3
  imports Loqui_Closing
begin

text \<open>
  The handshake on Python 3. \<open>send_hello_ack\<close> formats the \<open>str\<close> literal \<open>''\<close> into bytes when
  there is no compressor; a session never has one. Python 2 takes it for bytes, Python 3 raises
  \<open>TypeError\<close>. The consequences for a server: its answer to a HELLO and the states it can reach.
\<close>

section \<open>A predicate on every state of a call\<close>

text \<open>Like \<open>keeps\<close>, but it says nothing about a call with undefined behaviour.\<close>

primrec everywhere :: "('s \<Rightarrow> bool) \<Rightarrow> ('s, 'a) proc \<Rightarrow> bool" where
  "everywhere I Undefined = True"
| "everywhere I (Ret s r) = I s"
| "everywhere I (Wait c s k) = (I s \<and> (\<forall>t. I t \<and> c t \<longrightarrow> everywhere I (k t)))"

named_theorems everywhere_intros

lemma everywhere_and_then [everywhere_intros]:
  "everywhere I p \<Longrightarrow> (\<And>s x. I s \<Longrightarrow> everywhere I (f s x)) \<Longrightarrow> everywhere I (and_then p f)"
  by (induction p) (auto split: sum.split)

lemma everywhere_catching [everywhere_intros]:
  "everywhere I p \<Longrightarrow> (\<And>s e. I s \<Longrightarrow> everywhere I (f s e)) \<Longrightarrow> everywhere I (catching p f)"
  by (induction p) (auto split: sum.split)

lemma everywhere_ignoring [everywhere_intros]: "everywhere I p \<Longrightarrow> everywhere I (ignoring p)"
  unfolding ignoring_def by (rule everywhere_and_then) simp_all

lemma everywhere_await [everywhere_intros]:
  "I s \<Longrightarrow> (\<And>t. I t \<Longrightarrow> everywhere I (k t)) \<Longrightarrow> everywhere I (await_ready s k)"
  by (simp add: await_ready_def)

text \<open>The role of a session never changes, and a server is not ready.\<close>

definition unready :: "bool \<Rightarrow> 'd session \<Rightarrow> bool" where
  "unready cl s \<longleftrightarrow> is_client s = cl \<and> (cl \<or> \<not> is_ready s)"

lemma unready_updates [simp]:
  "unready cl (s\<lparr>stream := h\<rparr>) = unready cl s" "unready cl (s\<lparr>has_sock := b\<rparr>) = unready cl s"
  "unready cl (s\<lparr>watcher := w\<rparr>) = unready cl s" "unready cl (s\<lparr>inflight_requests := d\<rparr>) = unready cl s"
  "unready cl (s\<lparr>shutting_down := b\<rparr>) = unready cl s" "unready cl (s\<lparr>shutdown_event := b\<rparr>) = unready cl s"
  "unready cl (s\<lparr>close_event := b\<rparr>) = unready cl s" "unready cl (s\<lparr>ready_event := b\<rparr>) = unready cl s"
  "unready cl (s\<lparr>session_ping_interval := n\<rparr>) = unready cl s" "unready cl (s\<lparr>encoder_dumps := x\<rparr>) = unready cl s"
  "unready cl (s\<lparr>encoder_loads := y\<rparr>) = unready cl s" "unready cl (s\<lparr>session_encoding := e\<rparr>) = unready cl s"
  "unready cl (s\<lparr>has_on_push := b\<rparr>) = unready cl s" "unready cl (s\<lparr>results := rs\<rparr>) = unready cl s"
  "unready cl (s\<lparr>close_timers := m\<rparr>) = unready cl s" "unready True (s\<lparr>is_ready := b\<rparr>) = unready True s"
  by (simp_all add: unready_def)

lemma unready_steps [simp]:
  "unready cl (snd (new_result s)) = unready cl s" "unready cl (set_result i v s) = unready cl s"
  "unready cl (put_inflight q r s) = unready cl s" "unready cl (snd (pop_inflight q s)) = unready cl s"
  "unready cl (resume_sending s) = unready cl s" "unready cl (set_push_handler s) = unready cl s"
  by (simp_all add: new_result_def set_result_def put_inflight_def pop_inflight_def resume_sending_def set_push_handler_def)

lemma unready_pop [simp]: "pop_inflight q s = (r, t) \<Longrightarrow> unready cl t = unready cl s"
  using unready_steps(4) [of cl q s] by simp

lemma unready_new [simp]: "new_result s = (i, t) \<Longrightarrow> unready cl t = unready cl s"
  using unready_steps(1) [of cl s] by simp

lemma unready_fold: "unready cl (fold (\<lambda>r s. case r of Waiting i \<Rightarrow> set_result i v s | Serving q \<Rightarrow> s) rs s) = unready cl s"
  by (induction rs arbitrary: s) (simp_all split: inflight.split)

lemma unready_cleanup [simp]: "unready cl (cleanup_socket py3 s) = unready cl s"
  by (simp add: cleanup_socket_def cleanup_inflight_requests_def Let_def unready_fold)

lemma everywhere_on_stream [everywhere_intros]: "unready cl s \<Longrightarrow> everywhere (unready cl) (on_stream s r)"
  by (simp add: on_stream_def split: option.split)

section \<open>Every operation\<close>

lemma everywhere_codec [everywhere_intros]:
  "unready cl s \<Longrightarrow> everywhere (unready cl) (encode_data d s)"
  "unready cl s \<Longrightarrow> everywhere (unready cl) (decode_data fl b s)"
  unfolding encode_data_def decode_data_def by (auto intro!: everywhere_intros split: option.split)

lemma everywhere_sends [everywhere_intros]:
  assumes "unready cl s"
  shows "everywhere (unready cl) (session_send_request alloc d s)" "everywhere (unready cl) (session_send_push alloc d s)"
    "everywhere (unready cl) (session_send_response alloc q d s)" "everywhere (unready cl) (session_send_ping alloc s)"
    "everywhere (unready cl) (session_send_hello_ack py3 alloc enc cmp s)" "everywhere (unready cl) (session_send_hello alloc s)"
  unfolding session_send_request_def session_send_push_def session_send_response_def session_send_ping_def
    session_send_hello_ack_def session_send_hello_def
  using assms by (auto intro!: everywhere_intros split: prod.split option.split)

lemma everywhere_close [everywhere_intros]:
  "unready cl s \<Longrightarrow> everywhere (unready cl) (session_close alloc code reason via s)"
  unfolding session_close_def by (auto simp: Let_def intro!: everywhere_intros)

text \<open>The answer to a HELLO raises before \<open>is_ready\<close> is set.\<close>

lemma everywhere_hello [everywhere_intros]:
  assumes "unready cl s"
  shows "everywhere (unready cl) (handle_hello True alloc encs s)"
  using assms
  by (auto simp: handle_hello_def Let_def session_send_hello_ack_def send_hello_ack_python3 on_stream_def except0_def
      split: option.split)

lemma everywhere_hello_ack [everywhere_intros]:
  "unready True s \<Longrightarrow> everywhere (unready True) (handle_hello_ack alloc pint enc s)"
  unfolding handle_hello_ack_def by (auto intro!: everywhere_intros split: option.split)

definition callbacks_unready :: "'d callbacks \<Rightarrow> bool" where
  "callbacks_unready cb \<longleftrightarrow>
     (\<forall>seq d s. unready False s \<longrightarrow> everywhere (unready False) (on_request cb seq d s)) \<and>
     (\<forall>cl d s. unready cl s \<longrightarrow> everywhere (unready cl) (on_push cb d s))"

lemma everywhere_callbacks:
  "callbacks_unready cb \<Longrightarrow> unready False s \<Longrightarrow> everywhere (unready False) (on_request cb q d s)"
  "callbacks_unready cb \<Longrightarrow> unready cl s \<Longrightarrow> everywhere (unready cl) (on_push cb d s)"
  by (simp_all add: callbacks_unready_def)

lemma everywhere_messages [everywhere_intros]:
  assumes "unready cl s"
  shows "everywhere (unready cl) (handle_response fl q b s)" "everywhere (unready cl) (handle_pong fl q s)"
    "everywhere (unready cl) (handle_error code q b s)" "everywhere (unready cl) (handle_go_away alloc c2 reason s)"
    "everywhere (unready cl) (handle_ping s)"
  unfolding handle_response_def handle_pong_def handle_error_def handle_go_away_def handle_ping_def
  using assms by (auto intro!: everywhere_intros split: prod.split option.split inflight.split sum.split)

lemma everywhere_calls [everywhere_intros]:
  assumes "callbacks_unready cb"
  shows "unready False s \<Longrightarrow> everywhere (unready False) (handle_request alloc cb fl q b s)"
    and "unready cl s \<Longrightarrow> everywhere (unready cl) (handle_push cb fl b s)"
  unfolding handle_request_def handle_push_def
  by (auto intro!: everywhere_intros everywhere_callbacks [OF assms] split: option.split)

lemma everywhere_each:
  "(\<And>ev s. I s \<Longrightarrow> everywhere I (f ev s)) \<Longrightarrow> I s \<Longrightarrow> everywhere I (each_event f evs s)"
  by (induction evs arbitrary: s) (auto intro!: everywhere_and_then)

lemma everywhere_events:
  assumes "callbacks_unready cb"
  shows "unready True s \<Longrightarrow> everywhere (unready True) (handle_client_events alloc cb evs s)"
    and "unready False s \<Longrightarrow> everywhere (unready False) (handle_server_events True alloc cb evs s)"
  unfolding handle_client_events_def handle_server_events_def
  by (auto intro!: everywhere_each everywhere_intros assms
      simp: handle_client_event_def handle_server_event_def split: event.split)

lemma everywhere_data [everywhere_intros]:
  assumes "callbacks_unready cb" and "unready cl s"
  shows "everywhere (unready cl) (handle_data_received True alloc cb d s)"
proof -
  have "everywhere (unready cl) (if is_client s then handle_client_events alloc cb evs (s\<lparr>stream := h\<rparr>)
      else handle_server_events True alloc cb evs (s\<lparr>stream := h\<rparr>))" for evs h
  proof (cases cl)
    case True
    then show ?thesis using everywhere_events(1) [OF assms(1), of "s\<lparr>stream := h\<rparr>"] assms(2) by (simp add: unready_def)
  next
    case False
    then show ?thesis using everywhere_events(2) [OF assms(1), of "s\<lparr>stream := h\<rparr>"] assms(2) by (simp add: unready_def)
  qed
  then show ?thesis
    using assms(2) unfolding handle_data_received_def
    by (auto simp: Let_def intro!: everywhere_and_then everywhere_close split: option.split sum.split py_error.split)
qed

lemma everywhere_loops [everywhere_intros]:
  assumes "unready cl s"
  shows "everywhere (unready cl) (ping_loop_send alloc s)" "everywhere (unready cl) (ping_loop_check alloc i s)"
    "everywhere (unready cl) (run_loop_send alloc py3 prev out s)" "everywhere (unready cl) (run_loop_write alloc py3 prev out s)"
    "callbacks_unready cb \<Longrightarrow> everywhere (unready cl) (run_loop_read alloc True cb io s)"
  using assms
  by (auto simp: ping_loop_send_def ping_loop_check_def handle_ping_timeout_def run_loop_send_def run_loop_write_def
      run_loop_read_def Let_def
      intro!: everywhere_intros split: option.split send_result.split recv_result.split list.split)

lemma everywhere_act:
  assumes "callbacks_unready cb" and "unready cl s"
  shows "everywhere (unready cl) (act alloc True cb a s)"
  using assms
  by (cases a)
    (auto simp: close_timeout_def terminate_def run_loop_wait_def run_loop_end_def Let_def split: prod.split
      intro!: everywhere_intros)

section \<open>Every reachable state\<close>

definition unready_config :: "bool \<Rightarrow> 'd session \<times> 'd suspended list \<Rightarrow> bool" where
  "unready_config cl c \<longleftrightarrow> unready cl (fst c) \<and>
     (\<forall>x \<in> set (snd c). \<forall>t. unready cl t \<and> fst x t \<longrightarrow> everywhere (unready cl) (snd x t))"

lemma everywhere_ends:
  "ends p s new \<Longrightarrow> everywhere (unready cl) p \<Longrightarrow> unready_config cl (s, new)"
  by (induction rule: ends.induct) (auto simp: unready_config_def)

lemma sys_step_unready:
  assumes "sys_step True cb c c'" and "unready_config cl c" and "callbacks_unready cb"
  shows "unready_config cl c'"
  using assms
proof (induction rule: sys_step.induct)
  case (call alloc a s s' new ks)
  then show ?case
    using everywhere_ends [OF call(3) everywhere_act [OF call(5), of cl s alloc a]] by (auto simp: unready_config_def)
next
  case (resume P s k s' new ks ks')
  then have "everywhere (unready cl) (k s)" by (simp add: unready_config_def)
  from everywhere_ends [OF resume(2) this] show ?case using resume by (auto simp: unready_config_def)
qed

lemma reachable_unready:
  assumes "sys_reachable True cb c" and "callbacks_unready cb"
  shows "\<exists>cl. unready_config cl c"
  using assms
proof (induction rule: sys_reachable.induct)
  case (open_session alloc fileno encs client on_req on_psh s)
  have "everywhere (unready client) (session_cinit alloc fileno encs client on_req on_psh)"
    unfolding session_cinit_def Let_def by (auto intro!: everywhere_intros simp: unready_def)
  then show ?case using open_session by (intro exI [of _ client]) (simp add: unready_config_def)
qed (auto intro: sys_step_unready)

section \<open>Properties\<close>

text \<open>
  On Python 3 a server never becomes ready, in no state that interleaved greenlets reach: the
  only assignment of \<open>_is_ready\<close> on a server comes after the answer to a HELLO, which always raises there.
  (The application's handlers must not set the flag themselves.)
\<close>

theorem python3_server_never_ready:
  assumes "callbacks_unready cb" and "sys_reachable True cb (s, ks)" and "\<not> is_client s"
  shows "\<not> is_ready s"
  using reachable_unready [OF assms(2,1)] assms(3) by (auto simp: unready_config_def unready_def)

lemma python3_server_never_ready_witness:
  "\<exists>s k. sys_reachable True idle_callbacks (s, [(ready_event, k)]) \<and> \<not> is_client s \<and> \<not> is_ready s"
proof -
  have cb: "callbacks_unready idle_callbacks" by (simp add: callbacks_unready_def idle_callbacks_def)
  obtain s k where r: "sys_reachable True idle_callbacks (s, [(ready_event, k)])" "\<not> is_client s"
    by (rule suspended_push)
  show ?thesis using r python3_server_never_ready [OF cb r] by auto
qed

text \<open>
  C38: The handshake of a server on Python 3 fails. It takes a HELLO that offers an encoding it
  knows, picks the first such encoding and sets its codec, then raises \<open>TypeError\<close>, which ends its run
  loop: no answer is queued, nobody who waits for the ready event is woken, and the client waits on. (The
  \<open>py3 = False\<close> case of the same call is the successful handshake.)
\<close>

theorem python3_handshake_fails:
  assumes "ample alloc" and "quiet (stream s)" and "write_used (stream s) < 2 ^ 57" and "has_sock s"
    and "sock_read_ready (watcher s)" and "\<not> is_client s" and "\<not> shutting_down s" and "valid_command (hello_of (xs @ e # ys))"
    and "\<forall>x \<in> set xs. map_of (available_encoders s) x = None" and "map_of (available_encoders s) e = Some c" and "e \<noteq> []"
  shows "\<exists>h. run_loop_read alloc True cb (RecvData (wire (command_frame 1 (hello_of (xs @ e # ys))))) s =
      Ret (s\<lparr>encoder_dumps := Some (codec_dumps c), encoder_loads := Some (codec_loads c),
             session_encoding := Some e, stream := h\<rparr>) (Inl TypeError) \<and>
    unsent h = unsent (stream s)"
proof -
  let ?f = "command_frame 1 (hello_of (xs @ e # ys))"
  have payload: "length (frame_payload ?f) \<le> max_payload" by (rule command_frame_payload [OF assms(8)])
  have legal: "legal ?f (Hello 0 LOQUI_VERSION (xs @ e # ys) [[]])"
    using command_legal [OF assms(8), of 1] by (simp add: hello_of_def)
  have reply: "frame_reply ?f = []" by (simp add: hello_of_def command_frame_def)
  show ?thesis
    by (rule session_receives [where ?py3.0 = True and cb = cb, OF assms(1,2) _ payload legal])
      (use assms(3-7,9-11) reply in \<open>auto simp: run_loop_reads [OF assms(4,5)] handle_server_event_def handle_hello_def
        pick_first session_send_hello_ack_def defunct_def on_stream_def except0_def send_hello_ack_python3\<close>)
qed

lemma python3_handshake_fails_witness:
  "\<exists>s h. session_cinit big_allocator 4 [([109], plain_codec)] False True True = Ret s (Inr ()) \<and>
    run_loop_read big_allocator True reversing (RecvData (wire (command_frame 1 (hello_of [[106], [109]]))))
      (s\<lparr>watcher := mark_ready 4 True (watcher s)\<rparr>) =
    Ret (s\<lparr>watcher := mark_ready 4 True (watcher s), encoder_dumps := Some (codec_dumps plain_codec),
      encoder_loads := Some (codec_loads plain_codec), session_encoding := Some [109], stream := h\<rparr>) (Inl TypeError) \<and>
    unsent h = []"
proof -
  obtain s :: "byte list session" where s: "session_cinit big_allocator 4 [([109], plain_codec)] False True True = Ret s (Inr ())"
      "stream s = LoquiStreamHandler_cinit big_allocator" "\<not> is_client s" "available_encoders s = [([109], plain_codec)]"
      "has_sock s" "\<not> shutting_down s" "watcher s = SocketWatcher_cinit 4"
    by (auto simp: session_cinit_def)
  let ?s = "s\<lparr>watcher := mark_ready 4 True (watcher s)\<rparr>"
  have q: "sock_read_ready (watcher ?s)" "quiet (stream ?s)" "write_used (stream ?s) < 2 ^ 57" "unsent (stream ?s) = []"
    using s(2,7) by (simp_all add: cinit_quiet watcher_defs)
  have v: "valid_command (hello_of ([[106]] @ [109] # []))"
    by (simp add: valid_command_def hello_of_def plain_name_def COMMA_def PIPE_def max_payload_def)
  have "\<forall>x \<in> set [[106]]. map_of (available_encoders ?s) x = None" "map_of (available_encoders ?s) [109] = Some plain_codec"
    using s(4) by simp_all
  from python3_handshake_fails [OF ample_exists q(2,3) _ q(1) _ _ v this] s(1,3,5,6) q(4) show ?thesis by simp
qed

end
