(* ===== verification/Loqui_Numbers.thy ===== *)
theory Loqui_Numbers
  imports Loqui_Opcodes
begin

text \<open>
  Python integers as CPython stores them, and the conversions to C integers that every one of the C files
  contains (\<open>__Pyx_PyInt_As_uint8_t\<close> and its copies for the other types). They read the digits of the
  integer themselves where the value is sure to fit a machine word and ask the interpreter otherwise. The
  functions on mathematical integers of \<open>Loqui_Opcodes\<close> are what they are to compute.

  An LP64 platform is assumed: digits have 30 bits, \<open>long\<close> 64.
\<close>

section \<open>Representation\<close>

text \<open>A sign and the digits, the least significant first. \<open>Py_SIZE\<close> is their number, negated for negative ones.\<close>

type_synonym digit = u32

datatype pylong = PyLong (is_negative: bool) (long_digits: "digit list")

definition PyLong_SHIFT :: nat where "PyLong_SHIFT = 30"

definition LONG_BITS :: nat where "LONG_BITS = 64"

fun digits_value :: "digit list \<Rightarrow> int" where
  "digits_value [] = 0"
| "digits_value (d # ds) = uint d + 2 ^ PyLong_SHIFT * digits_value ds"

fun long_value :: "pylong \<Rightarrow> int" where
  "long_value (PyLong neg ds) = (if neg then - digits_value ds else digits_value ds)"

text \<open>The interpreter keeps digits in range and without leading zeros.\<close>

fun canonical :: "pylong \<Rightarrow> bool" where
  "canonical (PyLong neg ds) \<longleftrightarrow>
     list_all (\<lambda>d. uint d < 2 ^ PyLong_SHIFT) ds \<and> (ds \<noteq> [] \<longrightarrow> last ds \<noteq> 0) \<and> (neg \<longrightarrow> ds \<noteq> [])"

text \<open>The interpreter's own conversions to \<open>unsigned long\<close> and \<open>long\<close>.\<close>

definition PyLong_AsUnsignedLong :: "pylong \<Rightarrow> 64 word py" where
  "PyLong_AsUnsignedLong x =
     (if 0 \<le> long_value x \<and> long_value x < 2 ^ LONG_BITS then Inr (word_of_int (long_value x)) else Inl OverflowError)"

definition PyLong_AsLong :: "pylong \<Rightarrow> 64 word py" where
  "PyLong_AsLong x =
     (if - (2 ^ (LONG_BITS - 1)) \<le> long_value x \<and> long_value x < 2 ^ (LONG_BITS - 1)
      then Inr (word_of_int (long_value x)) else Inl OverflowError)"

section \<open>The conversions\<close>

text \<open>
  \<open>__PYX_VERIFY_RETURN_INT\<close> and \<open>__PYX_VERIFY_RETURN_INT_EXC\<close>: cast to the target type; where that is
  narrower, casting back must give the same value. With an exception pending the result is -1,
  which every caller takes for the exception.
\<close>

definition verify_unsigned :: "'f::len word \<Rightarrow> 'a::len word py" where
  "verify_unsigned v =
     (if LENGTH('a) < LENGTH('f) then
        if v \<noteq> ucast (ucast v :: 'a word) then Inl OverflowError else Inr (ucast v)
      else Inr (ucast v))"

definition verify_unsigned_exc :: "'f::len word py \<Rightarrow> 'a::len word py" where
  "verify_unsigned_exc r = (case r of Inl e \<Rightarrow> Inl e | Inr v \<Rightarrow> verify_unsigned v)"

text \<open>To a signed type: from a signed one, where widening extends the sign, and from an unsigned one.\<close>

definition verify_signed :: "'f::len word \<Rightarrow> 'a::len word py" where
  "verify_signed v =
     (if LENGTH('a) < LENGTH('f) then
        if v \<noteq> scast (ucast v :: 'a word) then Inl OverflowError else Inr (ucast v)
      else Inr (scast v))"

definition verify_to_signed :: "'f::len word \<Rightarrow> 'a::len word py" where
  "verify_to_signed v =
     (if LENGTH('a) < LENGTH('f) then
        if v \<noteq> scast (ucast v :: 'a word) then Inl OverflowError else Inr (ucast v)
      else Inr (ucast v))"

definition verify_signed_exc :: "'f::len word py \<Rightarrow> 'a::len word py" where
  "verify_signed_exc r = (case r of Inl e \<Rightarrow> Inl e | Inr v \<Rightarrow> verify_signed v)"

text \<open>\<open>((digits[2] << PyLong_SHIFT | digits[1]) << PyLong_SHIFT | digits[0])\<close>, in the type it is computed in.\<close>

fun join_digits :: "digit list \<Rightarrow> 'u::len word" where
  "join_digits [] = 0"
| "join_digits [d] = ucast d"
| "join_digits (d # ds) = push_bit PyLong_SHIFT (join_digits ds) OR ucast d"

text \<open>The cases 2 to 4 of the switch on the number of digits; \<open>slow\<close> is the code behind the switch.\<close>

definition unsigned_case :: "digit list \<Rightarrow> 'a::len word py \<Rightarrow> 'a word py" where
  "unsigned_case ds slow =
     (if LENGTH('a) > (length ds - 1) * PyLong_SHIFT then
        if LONG_BITS > length ds * PyLong_SHIFT then verify_unsigned (join_digits ds :: 64 word)
        else if LENGTH('a) \<ge> length ds * PyLong_SHIFT then Inr (join_digits ds)
        else slow
      else slow)"

definition unsigned_from_long :: "pylong \<Rightarrow> 'a::len word py" where
  "unsigned_from_long x =
     (let slow = (if is_negative x then Inl OverflowError else verify_unsigned_exc (PyLong_AsUnsignedLong x)) in
      case (is_negative x, long_digits x) of
        (_, []) \<Rightarrow> Inr 0
      | (False, [d0]) \<Rightarrow> verify_unsigned d0
      | (False, [d0, d1]) \<Rightarrow> unsigned_case [d0, d1] slow
      | (False, [d0, d1, d2]) \<Rightarrow> unsigned_case [d0, d1, d2] slow
      | (False, [d0, d1, d2, d3]) \<Rightarrow> unsigned_case [d0, d1, d2, d3] slow
      | _ \<Rightarrow> slow)"

definition long_as_uint8_t :: "pylong \<Rightarrow> byte py" where
  "long_as_uint8_t x = unsigned_from_long x"

definition long_as_uint16_t :: "pylong \<Rightarrow> u16 py" where
  "long_as_uint16_t x = unsigned_from_long x"

definition long_as_uint32_t :: "pylong \<Rightarrow> u32 py" where
  "long_as_uint32_t x = unsigned_from_long x"

definition long_as_size_t :: "pylong \<Rightarrow> size_t py" where
  "long_as_size_t x = unsigned_from_long x"

text \<open>The signed conversions; a C \<open>int\<close> has 32 bits.\<close>

definition signed_case :: "bool \<Rightarrow> digit list \<Rightarrow> 'a::len word py \<Rightarrow> 'a word py" where
  "signed_case neg ds slow =
     (if (if neg then LENGTH('a) - 1 else LENGTH('a)) > (length ds - 1) * PyLong_SHIFT then
        if LONG_BITS > length ds * PyLong_SHIFT
        then if neg then verify_signed (- join_digits ds :: 64 word) else verify_to_signed (join_digits ds :: 64 word)
        else if LENGTH('a) - 1 > length ds * PyLong_SHIFT then Inr (if neg then - 1 * join_digits ds else join_digits ds)
        else slow
      else slow)"

definition signed_from_long :: "pylong \<Rightarrow> 'a::len word py" where
  "signed_from_long x =
     (let slow = verify_signed_exc (PyLong_AsLong x) in
      case (is_negative x, long_digits x) of
        (_, []) \<Rightarrow> Inr 0
      | (True, [d0]) \<Rightarrow> verify_signed (- d0)
      | (False, [d0]) \<Rightarrow> verify_to_signed d0
      | (neg, [d0, d1]) \<Rightarrow> signed_case neg [d0, d1] slow
      | (neg, [d0, d1, d2]) \<Rightarrow> signed_case neg [d0, d1, d2] slow
      | (neg, [d0, d1, d2, d3]) \<Rightarrow> signed_case neg [d0, d1, d2, d3] slow
      | _ \<Rightarrow> slow)"

definition long_as_int :: "pylong \<Rightarrow> u32 py" where
  "long_as_int x = signed_from_long x"

definition long_as_long :: "pylong \<Rightarrow> 64 word py" where
  "long_as_long x = signed_from_long x"

section \<open>The way back\<close>

text \<open>
  \<open>__Pyx_PyInt_From_uint8_t\<close> and its copies. The interpreter makes the digits; integers of Python 2, which are not
  stored as digits when they are small, are taken for long ones.
\<close>

function digits_of :: "nat \<Rightarrow> digit list" where
  "digits_of n = (if n = 0 then [] else of_nat (n mod 2 ^ PyLong_SHIFT) # digits_of (n div 2 ^ PyLong_SHIFT))"
  by auto
termination by (relation "measure id") (simp_all add: PyLong_SHIFT_def div_less_dividend)

declare digits_of.simps [simp del]

definition PyLong_FromLong :: "64 word \<Rightarrow> pylong" where
  "PyLong_FromLong v = PyLong (sint v < 0) (digits_of (nat \<bar>sint v\<bar>))"

definition PyLong_FromUnsignedLong :: "64 word \<Rightarrow> pylong" where
  "PyLong_FromUnsignedLong v = PyLong False (digits_of (unat v))"

definition long_of_unsigned :: "'a::len word \<Rightarrow> pylong" where
  "long_of_unsigned v = (if LENGTH('a) < LONG_BITS then PyLong_FromLong (ucast v) else PyLong_FromUnsignedLong (ucast v))"

definition long_of_signed :: "'a::len word \<Rightarrow> pylong" where
  "long_of_signed v = PyLong_FromLong (scast v)"

definition long_of_uint8_t :: "byte \<Rightarrow> pylong" where
  "long_of_uint8_t v = long_of_unsigned v"

definition long_of_uint16_t :: "u16 \<Rightarrow> pylong" where
  "long_of_uint16_t v = long_of_unsigned v"

definition long_of_uint32_t :: "u32 \<Rightarrow> pylong" where
  "long_of_uint32_t v = long_of_unsigned v"

definition long_of_int :: "u32 \<Rightarrow> pylong" where
  "long_of_int v = long_of_signed v"

definition long_of_long :: "64 word \<Rightarrow> pylong" where
  "long_of_long v = long_of_signed v"

section \<open>What they compute\<close>

lemma digits_value_nonneg: "0 \<le> digits_value ds"
  by (induction ds) simp_all

lemma digits_value_pos: "ds \<noteq> [] \<Longrightarrow> last ds \<noteq> 0 \<Longrightarrow> 0 < digits_value ds"
proof (induction ds)
  case (Cons d ds)
  show ?case
  proof (cases "ds = []")
    case True
    then show ?thesis using Cons.prems by (simp add: word_neq_0_conv word_less_def)
  next
    case False
    then have "0 < digits_value ds" using Cons by simp
    then have "0 < 2 ^ PyLong_SHIFT * digits_value ds" by simp
    then show ?thesis by (simp add: add_nonneg_pos)
  qed
qed simp

lemma two_digits:
  assumes "uint d0 < 2 ^ PyLong_SHIFT" and "uint d1 < 2 ^ PyLong_SHIFT"
  shows "uint (join_digits [d0, d1] :: 64 word) = digits_value [d0, d1]"
proof -
  have d0: "take_bit 30 (uint d0) = uint d0" using assms(1) by (simp add: PyLong_SHIFT_def take_bit_int_eq_self_iff)
  have "push_bit 30 (uint d1) + uint d0 = push_bit 30 (uint d1) OR uint d0"
    by (rule disjunctive_add) (metis bit_push_bit_iff bit_take_bit_iff d0 not_le)
  moreover have "uint (join_digits [d0, d1] :: 64 word) = take_bit 64 (push_bit 30 (uint d1)) OR uint d0"
    using uint_lt2p [of d0] uint_lt2p [of d1]
    by (simp add: PyLong_SHIFT_def uint_or unsigned_push_bit_eq unsigned_ucast_eq take_bit_int_eq_self)
  moreover have "push_bit 30 (uint d1) < 2 ^ 64"
    using assms(2) by (simp add: push_bit_eq_mult PyLong_SHIFT_def)
  then have "take_bit 64 (push_bit 30 (uint d1)) = push_bit 30 (uint d1)"
    by (intro take_bit_int_eq_self) (simp_all add: push_bit_eq_mult)
  ultimately show ?thesis by (simp add: PyLong_SHIFT_def push_bit_eq_mult mult.commute)
qed

lemma verify_unsigned_value:
  fixes v :: "'f::len word"
  shows "(verify_unsigned v :: 'a::len word py) = (if uint v < 2 ^ LENGTH('a) then Inr (word_of_int (uint v)) else Inl OverflowError)"
proof -
  have round: "v = ucast (ucast v :: 'a word) \<longleftrightarrow> uint v < 2 ^ LENGTH('a)" if "LENGTH('a) < LENGTH('f)"
  proof -
    have "uint (ucast (ucast v :: 'a word) :: 'f word) = take_bit LENGTH('a) (uint v)"
      using that by (simp add: unsigned_ucast_eq unsigned_take_bit_eq min_def)
    moreover have "take_bit LENGTH('a) (uint v) = uint v \<longleftrightarrow> uint v < 2 ^ LENGTH('a)"
      by (simp add: take_bit_int_eq_self_iff)
    ultimately show ?thesis by (metis word_uint_eq_iff)
  qed
  have wide: "uint v < 2 ^ LENGTH('a)" if "\<not> LENGTH('a) < LENGTH('f)"
    using uint_lt2p [of v] that by (meson leI less_le_trans one_le_numeral power_increasing)
  show ?thesis
  proof (cases "LENGTH('a) < LENGTH('f)")
    case True
    then show ?thesis unfolding verify_unsigned_def by (simp only: True round if_True) (cases "uint v < 2 ^ LENGTH('a)"; simp only: ucast_eq if_True if_False not_True_eq_False not_False_eq_True)
  next
    case False
    with wide [OF False] show ?thesis by (simp only: verify_unsigned_def if_False ucast_eq if_True)
  qed
qed

lemma slow_unsigned:
  assumes "LENGTH('a::len) \<le> LONG_BITS"
  shows "(verify_unsigned_exc (PyLong_AsUnsignedLong x) :: 'a word py) =
    (if 0 \<le> long_value x \<and> long_value x < 2 ^ LENGTH('a) then Inr (word_of_int (long_value x)) else Inl OverflowError)"
proof -
  have "(2 :: int) ^ LENGTH('a) \<le> 2 ^ LONG_BITS" using assms by (intro power_increasing) simp_all
  then show ?thesis
    by (auto simp: verify_unsigned_exc_def PyLong_AsUnsignedLong_def verify_unsigned_value LONG_BITS_def
        uint_word_of_int)
qed

definition to_unsigned :: "int \<Rightarrow> 'a::len word py" where
  "to_unsigned n = (if 0 \<le> n \<and> n < 2 ^ LENGTH('a) then Inr (word_of_int n) else Inl OverflowError)"

lemma unsigned_from_long_value:
  assumes "canonical x" and "LENGTH('a::len) \<le> LONG_BITS"
  shows "(unsigned_from_long x :: 'a word py) = to_unsigned (long_value x)"
proof -
  obtain neg ds where x: "x = PyLong neg ds" by (cases x)
  have slow: "(if neg then Inl OverflowError else verify_unsigned_exc (PyLong_AsUnsignedLong x) :: 'a word py) = to_unsigned (long_value x)"
    if "ds \<noteq> []"
    using assms(1) that digits_value_pos [of ds] slow_unsigned [OF assms(2), of x] by (auto simp: x to_unsigned_def)
  have no_case: "(unsigned_case ds s :: 'a word py) = s" if "length ds \<in> {3, 4}" for s
    using that assms(2) by (auto simp: unsigned_case_def PyLong_SHIFT_def LONG_BITS_def)
  have two: "(unsigned_case [d0, d1] s :: 'a word py) = s \<or> (unsigned_case [d0, d1] s :: 'a word py) = to_unsigned (long_value x)"
    if "ds = [d0, d1]" "\<not> neg" for d0 d1 s
    using assms(1) that two_digits [of d0 d1] digits_value_nonneg [of ds]
    by (auto simp: unsigned_case_def LONG_BITS_def PyLong_SHIFT_def x verify_unsigned_value to_unsigned_def)
  show ?thesis
  proof (cases neg)
    case True
    then show ?thesis using slow assms(1) by (auto simp: x unsigned_from_long_def split: list.split)
  next
    case False
    have l: "unsigned_from_long x = (let slow = verify_unsigned_exc (PyLong_AsUnsignedLong x) :: 'a word py in
        case ds of [] \<Rightarrow> Inr 0 | [d0] \<Rightarrow> verify_unsigned d0 | [d0, d1] \<Rightarrow> unsigned_case [d0, d1] slow
        | [d0, d1, d2] \<Rightarrow> unsigned_case [d0, d1, d2] slow | [d0, d1, d2, d3] \<Rightarrow> unsigned_case [d0, d1, d2, d3] slow
        | _ \<Rightarrow> slow)"
      using False by (simp add: x unsigned_from_long_def)
    have slow': "(verify_unsigned_exc (PyLong_AsUnsignedLong x) :: 'a word py) = to_unsigned (long_value x)" if "ds \<noteq> []"
      using slow [OF that] False by simp
    note c = l [unfolded Let_def]
    show ?thesis
    proof (cases "length ds \<le> 2")
      case True
      then consider "ds = []" | d0 where "ds = [d0]" | d0 d1 where "ds = [d0, d1]"
        by (cases ds; cases "tl ds"; cases "tl (tl ds)") auto
      then show ?thesis
      proof cases
        case 1
        then show ?thesis using False by (simp add: c) (simp add: x to_unsigned_def)
      next
        case (2 d0)
        then show ?thesis using False by (simp add: c verify_unsigned_value) (simp add: x to_unsigned_def)
      next
        case (3 d0 d1)
        then show ?thesis
          using two [OF 3 False, of "verify_unsigned_exc (PyLong_AsUnsignedLong x)"] slow' by (auto simp: c)
      qed
    next
      case long: False
      then obtain d0 d1 d2 ds' where ds: "ds = d0 # d1 # d2 # ds'"
        by (cases ds; cases "tl ds"; cases "tl (tl ds)") auto
      show ?thesis
      proof (cases ds')
        case Nil
        then show ?thesis using no_case [of "verify_unsigned_exc (PyLong_AsUnsignedLong x)"] slow' by (simp add: c ds)
      next
        case (Cons d3 ds'')
        then show ?thesis
          using no_case [of "verify_unsigned_exc (PyLong_AsUnsignedLong x)"] slow' by (cases ds'') (simp_all add: c ds)
      qed
    qed
  qed
qed

definition to_signed :: "int \<Rightarrow> 'a::len word py" where
  "to_signed n =
     (if - (2 ^ (LENGTH('a) - 1)) \<le> n \<and> n < 2 ^ (LENGTH('a) - 1) then Inr (word_of_int n) else Inl OverflowError)"

lemma sint_64: "- (2 ^ 63) \<le> n \<Longrightarrow> n < 2 ^ 63 \<Longrightarrow> sint (word_of_int n :: 64 word) = n"
  by (simp add: signed_of_int signed_take_bit_int_eq_self)

lemma verify_signed_value:
  assumes "- (2 ^ 63) \<le> n" and "n < 2 ^ 63" and "LENGTH('a::len) \<le> 64"
  shows "(verify_signed (word_of_int n :: 64 word) :: 'a word py) = to_signed n"
    and "(verify_to_signed (word_of_int n :: 64 word) :: 'a word py) = to_signed n"
proof -
  let ?v = "word_of_int n :: 64 word"
  have cast: "(ucast ?v :: 'a word) = word_of_int n" using assms(3) by transfer (simp add: min_def)
  have "(scast ?v :: 'a word) = word_of_int n" using sint_64 [OF assms(1,2)] by (simp add: scast_eq)
  note casts = cast this
  have narrow: "?v = scast (word_of_int n :: 'a word) \<longleftrightarrow> - (2 ^ (LENGTH('a) - 1)) \<le> n \<and> n < 2 ^ (LENGTH('a) - 1)"
    if "LENGTH('a) < 64"
  proof -
    have "sint (scast (word_of_int n :: 'a word) :: 64 word) = signed_take_bit (LENGTH('a) - 1) n"
      using that by (simp add: signed_scast_eq signed_of_int min_def)
    then have "?v = scast (word_of_int n :: 'a word) \<longleftrightarrow> signed_take_bit (LENGTH('a) - 1) n = n"
      using sint_64 [OF assms(1,2)] by (metis signed_word_eqI)
    also have "\<dots> \<longleftrightarrow> - (2 ^ (LENGTH('a) - 1)) \<le> n \<and> n < 2 ^ (LENGTH('a) - 1)"
      by (rule signed_take_bit_int_eq_self_iff)
    finally show ?thesis .
  qed
  have wide: "LENGTH('a) - 1 = 63" if "\<not> LENGTH('a) < 64" using that assms(3) by simp
  show "(verify_signed ?v :: 'a word py) = to_signed n" "(verify_to_signed ?v :: 'a word py) = to_signed n"
    unfolding verify_signed_def verify_to_signed_def to_signed_def casts
    using narrow wide assms(1,2) by (cases "LENGTH('a) < 64", simp_all)
qed

lemma slow_signed:
  assumes "LENGTH('a::len) \<le> 64"
  shows "(verify_signed_exc (PyLong_AsLong x) :: 'a word py) = to_signed (long_value x)"
proof -
  have "(2 :: int) ^ (LENGTH('a) - 1) \<le> 2 ^ 63" using assms by (intro power_increasing) simp_all
  then show ?thesis
    using verify_signed_value(1) [of "long_value x", where 'a = 'a] assms
    by (auto simp: verify_signed_exc_def PyLong_AsLong_def LONG_BITS_def to_signed_def)
qed

lemma one_digit:
  assumes "uint (d :: digit) < 2 ^ 30" and "32 \<le> LENGTH('a::len)"
  shows "(verify_signed (- d) :: 'a word py) = to_signed (- uint d)" and "(verify_to_signed d :: 'a word py) = to_signed (uint d)"
proof -
  have "(2 :: int) ^ 30 \<le> 2 ^ (LENGTH('a) - 1)" using assms(2) by (intro power_increasing) simp_all
  then have r: "uint d < 2 ^ (LENGTH('a) - 1)" "0 \<le> uint d" using assms(1) by simp_all
  have "- p \<le> - n \<and> - n < p \<and> - p \<le> n" if "n < p" "0 \<le> n" for n p :: int using that by auto
  note m = this [OF r, THEN conjunct1] this [OF r, THEN conjunct2, THEN conjunct1] this [OF r, THEN conjunct2, THEN conjunct2]
  have d: "word_of_int (- uint d) = - d" by simp
  have "sint (word_of_int (- uint d) :: digit) = signed_take_bit 31 (- uint d)" unfolding signed_of_int by simp
  also have "\<dots> = - uint d"
  proof (rule signed_take_bit_int_eq_self)
    have "uint d < 1073741824" using assms(1) by simp
    then show "- (2 ^ 31) \<le> - uint d" by simp
    show "- uint d < 2 ^ 31" by (rule le_less_trans [of _ 0]) simp_all
  qed
  finally have s: "sint (- d) = - uint d" unfolding d .
  have narrow: "(LENGTH('a) < LENGTH(32)) = False" using assms(2) by simp
  show "(verify_signed (- d) :: 'a word py) = to_signed (- uint d)"
    by (simp only: verify_signed_def to_signed_def scast_eq s narrow m if_False if_True simp_thms)
  show "(verify_to_signed d :: 'a word py) = to_signed (uint d)"
    by (simp only: verify_to_signed_def to_signed_def ucast_eq narrow m r if_False if_True simp_thms)
qed

lemma signed_from_long_value:
  assumes "canonical x" and "32 \<le> LENGTH('a::len)" and "LENGTH('a) \<le> 64"
  shows "(signed_from_long x :: 'a word py) = to_signed (long_value x)"
proof -
  obtain neg ds where x: "x = PyLong neg ds" by (cases x)
  have no_case: "(signed_case b ds s :: 'a word py) = s" if "length ds \<in> {3, 4}" for b s
    using that assms(3) by (auto simp: signed_case_def PyLong_SHIFT_def LONG_BITS_def)
  note slow = slow_signed [OF assms(3), of x]
  show ?thesis
  proof (cases "length ds \<le> 2")
    case True
    then consider "ds = []" | d0 where "ds = [d0]" | d0 d1 where "ds = [d0, d1]"
      by (cases ds; cases "tl ds"; cases "tl (tl ds)") auto
    then show ?thesis
    proof cases
      case 1
      then show ?thesis using assms(1) by (simp add: x signed_from_long_def to_signed_def)
    next
      case (2 d0)
      then have "uint d0 < 2 ^ 30" using assms(1) by (simp add: x PyLong_SHIFT_def)
      from one_digit [OF this assms(2)] show ?thesis using 2 by (cases neg) (simp_all add: x signed_from_long_def)
    next
      case (3 d0 d1)
      define n where "n = digits_value [d0, d1]"
      have d: "uint d0 < 2 ^ PyLong_SHIFT" "uint d1 < 2 ^ PyLong_SHIFT" using assms(1) 3 by (simp_all add: x)
      have j: "(join_digits [d0, d1] :: 64 word) = word_of_int n" by (metis two_digits [OF d] word_of_int_uint n_def)
      have n: "0 \<le> n" "n < 2 ^ 60" using d digits_value_nonneg [of "[d0, d1]"] by (simp_all add: PyLong_SHIFT_def n_def)
      have "(verify_signed (- join_digits [d0, d1] :: 64 word) :: 'a word py) = to_signed (- n)"
        unfolding j of_int_minus [symmetric] by (rule verify_signed_value(1)) (use n assms(3) in simp_all)
      moreover have "(verify_to_signed (join_digits [d0, d1] :: 64 word) :: 'a word py) = to_signed n"
        unfolding j by (rule verify_signed_value(2)) (use n assms(3) in simp_all)
      moreover have "30 < LENGTH('a) - 1" "30 < LENGTH('a)" using assms(2) by simp_all
      ultimately show ?thesis
        using 3 unfolding n_def
        by (cases neg) (simp_all add: x signed_from_long_def signed_case_def PyLong_SHIFT_def LONG_BITS_def del: join_digits.simps digits_value.simps)
    qed
  next
    case long: False
    then obtain d0 d1 d2 ds' where ds: "ds = d0 # d1 # d2 # ds'"
      by (cases ds; cases "tl ds"; cases "tl (tl ds)") auto
    show ?thesis
    proof (cases ds')
      case Nil
      then show ?thesis using no_case slow by (cases neg) (simp_all add: x signed_from_long_def ds)
    next
      case (Cons d3 ds'')
      then show ?thesis
        using no_case slow by (cases neg; cases ds'') (simp_all add: x signed_from_long_def ds)
    qed
  qed
qed

section \<open>What the way back computes\<close>

lemma digits_of_value: "digits_value (digits_of n) = int n"
proof (induction n rule: digits_of.induct)
  case (1 n)
  have u: "uint (of_nat (n mod 2 ^ PyLong_SHIFT) :: digit) = int (n mod 2 ^ PyLong_SHIFT)"
    by (simp add: unsigned_of_nat PyLong_SHIFT_def take_bit_nat_eq_self)
  show ?case
  proof (cases "n = 0")
    case False
    have "int n = int (n mod 2 ^ PyLong_SHIFT) + 2 ^ PyLong_SHIFT * int (n div 2 ^ PyLong_SHIFT)"
      using mod_mult_div_eq [of n "2 ^ PyLong_SHIFT"] by (metis of_nat_add of_nat_mult of_nat_power of_nat_numeral)
    then show ?thesis using 1 [OF False] False u by (simp add: digits_of.simps [of n])
  qed (simp add: digits_of.simps)
qed

lemma digits_of_canonical: "canonical (PyLong neg (digits_of n)) \<longleftrightarrow> \<not> neg \<or> n \<noteq> 0"
proof -
  have in_range: "list_all (\<lambda>d. uint d < 2 ^ PyLong_SHIFT) (digits_of n)"
  proof (induction n rule: digits_of.induct)
    case (1 n)
    have "uint (of_nat (n mod 2 ^ PyLong_SHIFT) :: digit) = int (n mod 2 ^ PyLong_SHIFT)"
      by (simp add: unsigned_of_nat PyLong_SHIFT_def take_bit_nat_eq_self)
    then have "uint (of_nat (n mod 2 ^ PyLong_SHIFT) :: digit) < 2 ^ PyLong_SHIFT" by (simp add: PyLong_SHIFT_def)
    then show ?case using 1 by (subst digits_of.simps) simp
  qed
  have empty: "digits_of n = [] \<longleftrightarrow> n = 0" for n by (subst digits_of.simps) simp
  have "digits_of n \<noteq> [] \<longrightarrow> last (digits_of n) \<noteq> 0"
  proof (induction n rule: digits_of.induct)
    case (1 n)
    show ?case
    proof (cases "n = 0 \<or> n div 2 ^ PyLong_SHIFT \<noteq> 0")
      case True
      then show ?thesis
        using 1 empty [of "n div 2 ^ PyLong_SHIFT"] by (cases "n = 0") (simp_all add: digits_of.simps [of n] digits_of.simps [of 0])
    next
      case False
      then have "n mod 2 ^ PyLong_SHIFT = n" "n < 2 ^ 30" by (simp_all add: PyLong_SHIFT_def div_eq_0_iff)
      then have "unat (of_nat n :: digit) = n" by (simp add: unsigned_of_nat take_bit_nat_eq_self)
      then have "(of_nat n :: digit) \<noteq> 0" using False by (metis unsigned_0)
      then show ?thesis
        using False \<open>n mod 2 ^ PyLong_SHIFT = n\<close> by (simp add: digits_of.simps [of n] digits_of.simps [of 0])
    qed
  qed
  then show ?thesis using in_range empty [of n] by auto
qed

lemma from_unsigned_long_value:
  "canonical (PyLong_FromUnsignedLong v)" "long_value (PyLong_FromUnsignedLong v) = uint v"
  by (simp_all only: PyLong_FromUnsignedLong_def digits_of_canonical long_value.simps digits_of_value) simp_all

lemma from_long_value:
  "canonical (PyLong_FromLong v)" "long_value (PyLong_FromLong v) = sint v"
  by (simp_all only: PyLong_FromLong_def digits_of_canonical long_value.simps digits_of_value) (auto)

lemma long_of_unsigned_value:
  assumes "LENGTH('a::len) \<le> LONG_BITS"
  shows "canonical (long_of_unsigned (v :: 'a word))" and "long_value (long_of_unsigned v) = uint v"
proof -
  have "uint (ucast v :: 64 word) = uint v"
  proof -
    have "(2 :: int) ^ LENGTH('a) \<le> 2 ^ 64" using assms by (intro power_increasing) (simp_all add: LONG_BITS_def)
    then have "uint v < 2 ^ 64" using uint_lt2p [of v] by linarith
    then show ?thesis by (simp add: unsigned_ucast_eq take_bit_int_eq_self_iff)
  qed
  moreover have "sint (ucast v :: 64 word) = uint v" if "LENGTH('a) < LONG_BITS"
  proof -
    have "(2 :: int) ^ LENGTH('a) \<le> 2 ^ 63" using that by (intro power_increasing) (simp_all add: LONG_BITS_def)
    then have "uint v < 2 ^ 63" using uint_lt2p [of v] by linarith
    moreover have "- (2 ^ 63) \<le> uint v" by (rule order_trans [of _ 0]) simp_all
    ultimately show ?thesis by (simp add: signed_ucast_eq signed_take_bit_int_eq_self)
  qed
  ultimately show "canonical (long_of_unsigned v)" "long_value (long_of_unsigned v) = uint v"
    using from_long_value from_unsigned_long_value by (simp_all add: long_of_unsigned_def)
qed

lemma long_of_signed_value:
  assumes "LENGTH('a::len) \<le> LONG_BITS"
  shows "canonical (long_of_signed (v :: 'a word))" and "long_value (long_of_signed v) = sint v"
proof -
  have "(signed_take_bit 63 (sint v)) = sint v"
  proof (rule signed_take_bit_int_eq_self)
    have "(2 :: int) ^ (LENGTH('a) - 1) \<le> 2 ^ 63" using assms by (intro power_increasing) (simp_all add: LONG_BITS_def)
    then show "- (2 ^ 63) \<le> sint v" "sint v < 2 ^ 63" using sint_ge [of v] sint_lt [of v] by linarith+
  qed
  then have "sint (scast v :: 64 word) = sint v" by (simp add: signed_scast_eq)
  then show "canonical (long_of_signed v)" "long_value (long_of_signed v) = sint v"
    using from_long_value [of "scast v"] by (simp_all only: long_of_signed_def)
qed

section \<open>Properties\<close>

text \<open>
  C30: The conversions of Python integers are exact. For every Python integer, however many digits it
  has and whatever its sign, each conversion returns the integer as a C value when the C type
  has it and raises \<open>OverflowError\<close> otherwise: it computes the function on mathematical integers
  that the rest of the development uses.
\<close>

theorem conversions_exact:
  assumes "canonical x"
  shows "long_as_uint8_t x = PyInt_As_uint8_t (long_value x) \<and> long_as_uint16_t x = PyInt_As_uint16_t (long_value x) \<and>
    long_as_uint32_t x = PyInt_As_uint32_t (long_value x) \<and>
    long_as_size_t x = (if 0 \<le> long_value x \<and> long_value x < 2 ^ 64 then Inr (word_of_int (long_value x)) else Inl OverflowError) \<and>
    long_as_int x =
      (if - (2 ^ 31) \<le> long_value x \<and> long_value x < 2 ^ 31 then Inr (word_of_int (long_value x)) else Inl OverflowError) \<and>
    long_as_long x =
      (if - (2 ^ 63) \<le> long_value x \<and> long_value x < 2 ^ 63 then Inr (word_of_int (long_value x)) else Inl OverflowError)"
  using unsigned_from_long_value [OF assms, where 'a = 8] unsigned_from_long_value [OF assms, where 'a = 16]
    unsigned_from_long_value [OF assms, where 'a = 32] unsigned_from_long_value [OF assms, where 'a = 64]
    signed_from_long_value [OF assms, where 'a = 32] signed_from_long_value [OF assms, where 'a = 64]
  by (simp add: LONG_BITS_def to_unsigned_def to_signed_def PyInt_As_uint8_t_def PyInt_As_uint16_t_def PyInt_As_uint32_t_def
      long_as_uint8_t_def long_as_uint16_t_def long_as_uint32_t_def long_as_size_t_def long_as_int_def long_as_long_def)

text \<open>Three times \<open>2 ^ 30\<close>, plus 5; and its negation.\<close>

lemma conversions_exact_witness:
  "long_as_uint32_t (PyLong False [5, 3]) = Inr 3221225477 \<and> long_as_uint16_t (PyLong False [5, 3]) = Inl OverflowError \<and>
    long_as_int (PyLong True [5, 1]) = Inr (- 1073741829) \<and> long_as_size_t (PyLong True [5, 3]) = Inl OverflowError \<and>
    long_as_long (PyLong True [5, 3]) = Inr (- 3221225477)"
  using conversions_exact [of "PyLong False [5, 3]"] conversions_exact [of "PyLong True [5, 1]"]
    conversions_exact [of "PyLong True [5, 3]"]
  by (simp add: PyLong_SHIFT_def PyInt_As_uint32_t_def PyInt_As_uint16_t_def)

text \<open>
  C values survive the way through Python. Every C value that is handed to Python as an integer (flags,
  sequence numbers, codes, file descriptors) becomes a well-formed integer with that value and converts back to
  the same C value, without an exception; a signed value keeps its sign.
\<close>

theorem c_values_survive_python:
  "long_as_uint8_t (long_of_uint8_t b) = Inr b \<and> long_as_uint16_t (long_of_uint16_t h) = Inr h \<and>
    long_as_uint32_t (long_of_uint32_t w) = Inr w \<and> long_as_int (long_of_int i) = Inr i \<and>
    long_as_long (long_of_long l) = Inr l \<and>
    canonical (long_of_uint32_t w) \<and> long_value (long_of_uint32_t w) = uint w \<and>
    canonical (long_of_int i) \<and> long_value (long_of_int i) = sint i"
proof -
  have u: "unsigned_from_long (long_of_unsigned v) = Inr v" if "LENGTH('a) \<le> LONG_BITS" for v :: "'a::len word"
    using unsigned_from_long_value [OF long_of_unsigned_value(1) [OF that] that, of v] long_of_unsigned_value(2) [OF that, of v]
    by (simp add: to_unsigned_def)
  have s: "signed_from_long (long_of_signed v) = Inr v" if "LENGTH('a) \<le> LONG_BITS" "32 \<le> LENGTH('a)" for v :: "'a::len word"
    using signed_from_long_value [OF long_of_signed_value(1) [OF that(1)] that(2), of v] that(1)
      long_of_signed_value(2) [OF that(1), of v] sint_ge [of v] sint_lt [of v]
    by (simp add: to_signed_def LONG_BITS_def)
  show ?thesis
    using u [of b] u [of h] u [of w] s [of i] s [of l] long_of_unsigned_value [of w] long_of_signed_value [of i]
    by (simp add: LONG_BITS_def long_as_uint8_t_def long_as_uint16_t_def long_as_uint32_t_def long_as_int_def long_as_long_def
        long_of_uint8_t_def long_of_uint16_t_def long_of_uint32_t_def long_of_int_def long_of_long_def)
qed

end
