(* ===== verification/Loqui_Arguments.thy ===== *)
theory Loqui_Arguments
  imports Loqui_Numbers Complex_Main
begin

text \<open>
  How a method gets its arguments from Python: the objects it is given, the binding of positional
  and keyword arguments to parameters, and the conversions to the parameters' C types. Cython generates this code for every
  method; it is modelled once, with the parameters' names as arguments, and used by \<open>Loqui_Calls\<close>.
\<close>

section \<open>Objects\<close>

text \<open>
  \<open>PyOther\<close> is an object of any other type, known by a number. What the interpreter makes of it is a
  parameter: its \<open>__int__\<close> (which may be missing: \<open>TypeError\<close>), its truth value, and its \<open>bytes\<close>.
  Keyword names are text; names of Python 2, which are byte strings, are taken for text, too.
\<close>

datatype pyobj =
    PyNone
  | PyBool bool
  | PyInt int
  | PyFloat real
  | PyBytes "byte list"
  | PyText string
  | PyList "pyobj list"
  | PyTuple "pyobj list"
  | PyDict "(string \<times> pyobj) list"
  | PyOther nat

record python =
  nb_int :: "nat \<Rightarrow> int py"
  nb_bool :: "nat \<Rightarrow> bool py"
  nb_float :: "nat \<Rightarrow> real py"
  bytes_call :: "pyobj \<Rightarrow> byte list py"

text \<open>\<open>__Pyx_PyNumber_IntOrLong\<close>: integers as they are, other numbers by \<open>__int__\<close>; a float is cut off.\<close>

definition truncate :: "real \<Rightarrow> int" where
  "truncate r = (if r < 0 then \<lceil>r\<rceil> else \<lfloor>r\<rfloor>)"

fun number_int :: "python \<Rightarrow> pyobj \<Rightarrow> int py" where
  "number_int P (PyInt n) = Inr n"
| "number_int P (PyBool b) = Inr (of_bool b)"
| "number_int P (PyFloat r) = Inr (truncate r)"
| "number_int P (PyOther k) = nb_int P k"
| "number_int P _ = Inl TypeError"

text \<open>\<open>__Pyx_PyObject_IsTrue\<close>\<close>

fun is_true :: "python \<Rightarrow> pyobj \<Rightarrow> bool py" where
  "is_true P PyNone = Inr False"
| "is_true P (PyBool b) = Inr b"
| "is_true P (PyInt n) = Inr (n \<noteq> 0)"
| "is_true P (PyFloat r) = Inr (r \<noteq> 0)"
| "is_true P (PyBytes b) = Inr (b \<noteq> [])"
| "is_true P (PyText t) = Inr (t \<noteq> [])"
| "is_true P (PyList xs) = Inr (xs \<noteq> [])"
| "is_true P (PyTuple xs) = Inr (xs \<noteq> [])"
| "is_true P (PyDict d) = Inr (d \<noteq> [])"
| "is_true P (PyOther k) = nb_bool P k"

section \<open>Conversions\<close>

text \<open>An integer type's conversion, on any object.\<close>

definition PyInt_As_size_t :: "int \<Rightarrow> size_t py" where
  "PyInt_As_size_t n = (if 0 \<le> n \<and> n < 2 ^ 64 then Inr (word_of_int n) else Inl OverflowError)"

definition convert :: "python \<Rightarrow> (int \<Rightarrow> 'a py) \<Rightarrow> pyobj \<Rightarrow> 'a py" where
  "convert P as x = (case number_int P x of Inl e \<Rightarrow> Inl e | Inr n \<Rightarrow> as n)"

text \<open>\<open>__Pyx_ArgTypeTest\<close> for \<open>bytes\<close> and \<open>list\<close>: exactly that type, or \<open>None\<close>.\<close>

fun bytes_argument :: "pyobj \<Rightarrow> pybytes py" where
  "bytes_argument PyNone = Inr None"
| "bytes_argument (PyBytes b) = Inr (Some b)"
| "bytes_argument _ = Inl TypeError"

fun list_argument :: "pyobj \<Rightarrow> pyobj list option py" where
  "list_argument PyNone = Inr None"
| "list_argument (PyList xs) = Inr (Some xs)"
| "list_argument _ = Inl TypeError"

text \<open>Back: the object that a field of type \<open>bytes\<close> or \<open>list\<close> holds.\<close>

definition bytes_object :: "pybytes \<Rightarrow> pyobj" where
  "bytes_object d = (case d of None \<Rightarrow> PyNone | Some b \<Rightarrow> PyBytes b)"

definition list_object :: "pyobj list option \<Rightarrow> pyobj" where
  "list_object l = (case l of None \<Rightarrow> PyNone | Some xs \<Rightarrow> PyList xs)"

lemma bytes_argument_iff: "bytes_argument x = Inr d \<longleftrightarrow> x = bytes_object d"
  by (cases x; cases d) (simp_all add: bytes_object_def)

lemma list_argument_iff: "list_argument x = Inr l \<longleftrightarrow> x = list_object l"
  by (cases x; cases l) (simp_all add: list_object_def)

lemma bytes_object_argument [simp]: "bytes_argument (bytes_object d) = Inr d"
  by (simp add: bytes_argument_iff)

section \<open>Binding\<close>

text \<open>
  The switch on the number of positional arguments: from the first parameter without one on, each is
  looked up among the keywords; \<open>required\<close> of them must be found. \<open>left\<close> counts the keywords that are
  not used yet; the lookup of an optional parameter is skipped when there are none.
\<close>

type_synonym kwargs = "(string \<times> pyobj) list"

fun take_keywords :: "kwargs \<Rightarrow> nat \<Rightarrow> string list \<Rightarrow> nat \<Rightarrow> (pyobj option list \<times> nat) py" where
  "take_keywords kw required [] left = Inr ([], left)"
| "take_keywords kw required (p # ps) left =
     (if required > 0 then
        (case map_of kw p of
           None \<Rightarrow> Inl TypeError
         | Some v \<Rightarrow> map_sum id (apfst (Cons (Some v))) (take_keywords kw (required - 1) ps (left - 1)))
      else
        (case if left > 0 then map_of kw p else None of
           None \<Rightarrow> map_sum id (apfst (Cons None)) (take_keywords kw 0 ps left)
         | Some v \<Rightarrow> map_sum id (apfst (Cons (Some v))) (take_keywords kw 0 ps (left - 1))))"

text \<open>
  \<open>__Pyx_ParseOptionalKeywords\<close>: every keyword must name a parameter without a positional argument. A keyword for a
  parameter that has one was passed twice; any other is unexpected. Both are a \<open>TypeError\<close>.
\<close>

fun find_name :: "string list \<Rightarrow> string \<Rightarrow> nat option" where
  "find_name [] k = None"
| "find_name (p # ps) k = (if p = k then Some 0 else map_option Suc (find_name ps k))"

fun ParseOptionalKeywords ::
    "kwargs \<Rightarrow> string list \<Rightarrow> nat \<Rightarrow> pyobj option list \<Rightarrow> pyobj option list py" where
  "ParseOptionalKeywords [] names num_pos values = Inr values"
| "ParseOptionalKeywords ((k, v) # kw) names num_pos values =
     (case find_name (drop num_pos names) k of
        Some i \<Rightarrow> ParseOptionalKeywords kw names num_pos (values[num_pos + i := Some v])
      | None \<Rightarrow> if k \<in> set (take num_pos names) then Inl TypeError else Inl TypeError)"

text \<open>
  The whole: \<open>names\<close> are the parameters, the first \<open>required\<close> of which have no default. Without keyword
  arguments the dict is NULL. A parameter that is not given is \<open>None\<close> here.
\<close>

definition bind_arguments ::
    "string list \<Rightarrow> nat \<Rightarrow> pyobj list \<Rightarrow> kwargs option \<Rightarrow> pyobj option list py" where
  "bind_arguments names required args kwds =
     (case kwds of
        Some kw \<Rightarrow>
          if length args > length names then Inl TypeError
          else
            (case take_keywords kw (required - length args) (drop (length args) names) (length kw) of
               Inl e \<Rightarrow> Inl e
             | Inr (vs, left) \<Rightarrow>
                 let values = List.map Some args @ vs in
                 if left > 0 then ParseOptionalKeywords kw names (length args) values else Inr values)
      | None \<Rightarrow>
          if required \<le> length args \<and> length args \<le> length names
          then Inr (List.map Some args @ replicate (length names - length args) None)
          else Inl TypeError)"

section \<open>Python's rules\<close>

text \<open>
  The language's rule for a call: no more positional arguments than parameters, each keyword names a
  parameter without a positional argument, and every required parameter is given.
\<close>

definition python_binding ::
    "string list \<Rightarrow> nat \<Rightarrow> pyobj list \<Rightarrow> kwargs \<Rightarrow> pyobj option list py" where
  "python_binding names required args kw =
     (let rest = drop (length args) names in
      if length args \<le> length names \<and> set (List.map fst kw) \<subseteq> set rest \<and>
         set (take (required - length args) rest) \<subseteq> set (List.map fst kw)
      then Inr (List.map Some args @ List.map (map_of kw) rest)
      else Inl TypeError)"

lemma take_keywords_spec:
  assumes "distinct ps" and "seen \<inter> set ps = {}" and "left = card (fst ` set kw - seen)"
  shows "take_keywords kw required ps left =
    (if set (take required ps) \<subseteq> fst ` set kw
     then Inr (List.map (map_of kw) ps, card (fst ` set kw - seen - set ps)) else Inl TypeError)"
  using assms
proof (induction ps arbitrary: required left seen)
  case (Cons p ps)
  let ?K = "fst ` set kw"
  have given: "map_of kw p \<noteq> None \<longleftrightarrow> p \<in> ?K" by (metis map_of_eq_None_iff)
  have step: "take_keywords kw r ps (card (?K - insert p seen)) =
    (if set (take r ps) \<subseteq> ?K then Inr (List.map (map_of kw) ps, card (?K - insert p seen - set ps)) else Inl TypeError)" for r
    by (rule Cons.IH) (use Cons.prems in auto)
  have eq: "?K - insert p seen - set ps = ?K - seen - set (p # ps)" by auto
  have used: "left - 1 = card (?K - insert p seen)" "0 < left" if "p \<in> ?K"
  proof -
    have p: "p \<in> ?K - seen" using that Cons.prems(2) by simp
    have "card (?K - seen - {p}) = card (?K - seen) - 1" by (rule card_Diff_singleton [OF p])
    then show "left - 1 = card (?K - insert p seen)" unfolding Diff_insert [of ?K p seen] Cons.prems(3) by simp
    show "0 < left" unfolding Cons.prems(3) card_gt_0_iff using p by blast
  qed
  have unused: "left = card (?K - insert p seen)" if "p \<notin> ?K"
    using that Cons.prems(3) by simp
  show ?case
  proof (cases "p \<in> ?K")
    case True
    then obtain v where v: "map_of kw p = Some v" using given by auto
    show ?thesis
      using used [OF True] step [of "required - 1"] step [of 0] v True
      by (cases required) (simp_all add: eq)
  next
    case False
    then have "map_of kw p = None" using given by auto
    then show ?thesis using unused [OF False] step [of 0] False by (cases required) (simp_all add: eq)
  qed
qed simp

lemma find_name_None: "find_name ps k = None \<longleftrightarrow> k \<notin> set ps"
  by (induction ps) auto

lemma find_name_Some: "find_name ps k = Some i \<Longrightarrow> k \<in> set ps"
  by (metis find_name_None option.distinct(1))

lemma parse_unexpected:
  "k \<in> fst ` set kw \<Longrightarrow> k \<notin> set (drop n names) \<Longrightarrow> ParseOptionalKeywords kw names n vs = Inl TypeError"
  by (induction kw names n vs rule: ParseOptionalKeywords.induct)
    (auto dest: find_name_Some split: option.split)

lemma bind_keywords:
  assumes "distinct names" and "distinct (List.map fst kw)"
  shows "bind_arguments names required args (Some kw) = python_binding names required args kw"
proof (cases "length args \<le> length names")
  case True
  let ?rest = "drop (length args) names" and ?K = "fst ` set kw"
  have len: "length kw = card (?K - {})" using assms(2) by (metis Diff_empty distinct_card length_map set_map)
  have spec: "take_keywords kw (required - length args) ?rest (length kw) =
      (if set (take (required - length args) ?rest) \<subseteq> ?K
       then Inr (List.map (map_of kw) ?rest, card (?K - set ?rest)) else Inl TypeError)"
    using take_keywords_spec [of ?rest "{}" "length kw" kw "required - length args"] assms(1) len by simp
  show ?thesis
  proof (cases "?K \<subseteq> set ?rest")
    case True
    then have c: "card (?K - set ?rest) = 0" by (metis Diff_eq_empty_iff card.empty)
    then show ?thesis
      using \<open>length args \<le> length names\<close> True spec unfolding c by (simp add: bind_arguments_def python_binding_def Let_def)
  next
    case False
    then obtain k where k: "k \<in> ?K" "k \<notin> set ?rest" by auto
    then have "card (?K - set ?rest) > 0" by (auto simp: card_gt_0_iff)
    then show ?thesis
      using \<open>length args \<le> length names\<close> False spec parse_unexpected [OF k]
      by (simp add: bind_arguments_def python_binding_def Let_def)
  qed
qed (simp add: bind_arguments_def python_binding_def)

lemma bind_positional:
  assumes "required \<le> length names"
  shows "bind_arguments names required args None = python_binding names required args []"
  using assms by (auto simp: bind_arguments_def python_binding_def Let_def map_replicate_const comp_def)

text \<open>The keywords of a call; NULL is like an empty dict.\<close>

definition given_keywords :: "kwargs option \<Rightarrow> kwargs" where
  "given_keywords kwds = (case kwds of None \<Rightarrow> [] | Some kw \<Rightarrow> kw)"

lemma bind_as_python:
  assumes "distinct names" and "distinct (List.map fst (given_keywords kwds))" and "required \<le> length names"
  shows "bind_arguments names required args kwds = python_binding names required args (given_keywords kwds)"
  using bind_keywords [OF assms(1)] bind_positional [OF assms(3)] assms(2)
  by (cases kwds) (simp_all add: given_keywords_def)

section \<open>Property\<close>

text \<open>
  C24: The generated argument parser binds arguments by Python's rules. With its count-down of the unused keywords, its
  shortcuts for calls without keywords and its search for surplus ones it gives every
  parameter the object that the language's rule gives it, and raises \<open>TypeError\<close> for exactly the calls that
  the rule rejects: too many positional arguments, a keyword that is unknown or repeats a positional
  argument, a required parameter that is missing.
\<close>

theorem arguments_bound_as_python:
  assumes "distinct names" and "distinct (List.map fst (given_keywords kwds))" and "required \<le> length names"
  shows "bind_arguments names required args kwds = python_binding names required args (given_keywords kwds)"
  by (rule bind_as_python [OF assms])

text \<open>A default left out, a keyword repeated, and one in place of the other.\<close>

lemma arguments_bound_as_python_witness:
  "bind_arguments [''length'', ''consume''] 1 [] (Some [(''length'', PyInt 5)]) = Inr [Some (PyInt 5), None] \<and>
    bind_arguments [''length'', ''consume''] 1 [PyInt 5] (Some [(''length'', PyInt 5)]) = Inl TypeError \<and>
    bind_arguments [''length'', ''consume''] 1 [] (Some [(''consume'', PyBool False)]) = Inl TypeError"
  using arguments_bound_as_python [of "[''length'', ''consume'']" "Some [(''length'', PyInt 5)]" 1 "[]"]
    arguments_bound_as_python [of "[''length'', ''consume'']" "Some [(''length'', PyInt 5)]" 1 "[PyInt 5]"]
    arguments_bound_as_python [of "[''length'', ''consume'']" "Some [(''consume'', PyBool False)]" 1 "[]"]
  by (simp add: given_keywords_def python_binding_def)

end
