(* ===== verification/Loqui_Calls.thy ===== *)
theory Loqui_Calls
  imports Loqui_Arguments Loqui_Handler
begin

text \<open>
  The stream handler's methods as Python calls them (\<open>py/loqui/stream_handler.c\<close>, the wrappers that
  Cython generates): arguments are bound and converted, then the method runs. What is not accepted raises before the
  handler is touched.
\<close>

section \<open>Steps of a wrapper\<close>

definition py_bind :: "'a py \<Rightarrow> ('a \<Rightarrow> 'b py) \<Rightarrow> 'b py" where
  "py_bind r f = (case r of Inl e \<Rightarrow> Inl e | Inr a \<Rightarrow> f a)"

lemma py_bind_simps [simp]: "py_bind (Inl e) f = Inl e" "py_bind (Inr a) f = f a"
  by (simp_all add: py_bind_def)

lemma py_bind_Inr: "py_bind r f = Inr b \<longleftrightarrow> (\<exists>a. r = Inr a \<and> f a = Inr b)"
  by (cases r) simp_all

definition with_arguments ::
    "'h \<Rightarrow> 'a py \<Rightarrow> ('a \<Rightarrow> ('h \<times> 'b py) option) \<Rightarrow> ('h \<times> 'b py) option" where
  "with_arguments h r f = (case r of Inl e \<Rightarrow> Some (h, Inl e) | Inr a \<Rightarrow> f a)"

lemma with_arguments_simps [simp]: "with_arguments h (Inl e) f = Some (h, Inl e)" "with_arguments h (Inr a) f = f a"
  by (simp_all add: with_arguments_def)

text \<open>The C function's result as a Python integer; 0 is taken for an exception.\<close>

definition int_result :: "('h \<times> u32 py) option \<Rightarrow> ('h \<times> pyobj py) option" where
  "int_result r = map_option (apsnd (\<lambda>v. map_sum id (\<lambda>n. PyInt (uint n)) (except0 v))) r"

text \<open>A method with one parameter takes it by position only.\<close>

definition one_argument :: "pyobj list \<Rightarrow> kwargs option \<Rightarrow> pyobj py" where
  "one_argument args kwds =
     (case (args, kwds) of ([x], None) \<Rightarrow> Inr x | ([x], Some []) \<Rightarrow> Inr x | _ \<Rightarrow> Inl TypeError)"

text \<open>The values of parameters that all are required.\<close>

definition all_arguments :: "string list \<Rightarrow> pyobj list \<Rightarrow> kwargs option \<Rightarrow> pyobj list py" where
  "all_arguments names args kwds =
     map_sum id (List.map (\<lambda>v. case v of Some x \<Rightarrow> x | None \<Rightarrow> PyNone)) (bind_arguments names (length names) args kwds)"

section \<open>Sending\<close>

definition call_send_ping ::
    "python \<Rightarrow> allocator \<Rightarrow> pyobj list \<Rightarrow> kwargs option \<Rightarrow> LoquiStreamHandler \<Rightarrow> (LoquiStreamHandler \<times> pyobj py) option" where
  "call_send_ping P alloc args kwds h =
     with_arguments h (py_bind (one_argument args kwds) (convert P PyInt_As_uint8_t)) (\<lambda>flags.
       int_result (send_ping alloc h flags))"

definition call_send_pong ::
    "python \<Rightarrow> allocator \<Rightarrow> pyobj list \<Rightarrow> kwargs option \<Rightarrow> LoquiStreamHandler \<Rightarrow> (LoquiStreamHandler \<times> pyobj py) option" where
  "call_send_pong P alloc args kwds h =
     with_arguments h
       (py_bind (all_arguments [''flags'', ''seq''] args kwds) (\<lambda>vs.
          py_bind (convert P PyInt_As_uint8_t (vs ! 0)) (\<lambda>flags.
          py_bind (convert P PyInt_As_uint32_t (vs ! 1)) (\<lambda>seq. Inr (flags, seq)))))
       (\<lambda>(flags, seq). int_result (send_pong alloc h flags seq))"

definition call_send_request ::
    "python \<Rightarrow> allocator \<Rightarrow> pyobj list \<Rightarrow> kwargs option \<Rightarrow> LoquiStreamHandler \<Rightarrow> (LoquiStreamHandler \<times> pyobj py) option" where
  "call_send_request P alloc args kwds h =
     with_arguments h
       (py_bind (all_arguments [''flags'', ''data''] args kwds) (\<lambda>vs.
          py_bind (convert P PyInt_As_uint8_t (vs ! 0)) (\<lambda>flags.
          py_bind (bytes_argument (vs ! 1)) (\<lambda>data. Inr (flags, data)))))
       (\<lambda>(flags, data). int_result (send_request alloc h flags data))"

definition call_send_push ::
    "python \<Rightarrow> allocator \<Rightarrow> pyobj list \<Rightarrow> kwargs option \<Rightarrow> LoquiStreamHandler \<Rightarrow> (LoquiStreamHandler \<times> pyobj py) option" where
  "call_send_push P alloc args kwds h =
     with_arguments h
       (py_bind (all_arguments [''flags'', ''data''] args kwds) (\<lambda>vs.
          py_bind (convert P PyInt_As_uint8_t (vs ! 0)) (\<lambda>flags.
          py_bind (bytes_argument (vs ! 1)) (\<lambda>data. Inr (flags, data)))))
       (\<lambda>(flags, data). int_result (send_push alloc h flags data))"

text \<open>\<open>[bytes(b) for b in xs]\<close>: the list may be \<open>None\<close>, its elements any objects.\<close>

fun all_bytes :: "python \<Rightarrow> pyobj list \<Rightarrow> byte list list py" where
  "all_bytes P [] = Inr []"
| "all_bytes P (x # xs) =
     py_bind (case x of PyBytes b \<Rightarrow> Inr b | _ \<Rightarrow> bytes_call P x) (\<lambda>b.
       py_bind (all_bytes P xs) (\<lambda>bs. Inr (b # bs)))"

definition bytes_list :: "python \<Rightarrow> pyobj list option \<Rightarrow> byte list list py" where
  "bytes_list P xs = (case xs of None \<Rightarrow> Inl TypeError | Some xs \<Rightarrow> all_bytes P xs)"

definition call_send_hello ::
    "python \<Rightarrow> allocator \<Rightarrow> pyobj list \<Rightarrow> kwargs option \<Rightarrow> LoquiStreamHandler \<Rightarrow> (LoquiStreamHandler \<times> pyobj py) option" where
  "call_send_hello P alloc args kwds h =
     with_arguments h
       (py_bind (all_arguments [''flags'', ''supported_encodings'', ''supported_compressors''] args kwds) (\<lambda>vs.
          py_bind (convert P PyInt_As_uint8_t (vs ! 0)) (\<lambda>flags.
          py_bind (list_argument (vs ! 1)) (\<lambda>encs.
          py_bind (list_argument (vs ! 2)) (\<lambda>cmps.
          py_bind (bytes_list P encs) (\<lambda>encs.
          py_bind (bytes_list P cmps) (\<lambda>cmps. Inr (flags, encs, cmps))))))))
       (\<lambda>(flags, encs, cmps). int_result (send_hello alloc h flags encs cmps))"

text \<open>
  The encoding may be \<open>None\<close>: Python 2 formats it as the text \<open>None\<close>, Python 3 raises \<open>TypeError\<close>.
\<close>

definition NONE_TEXT :: "byte list" where "NONE_TEXT = [78, 111, 110, 101]"

definition call_send_hello_ack ::
    "python \<Rightarrow> bool \<Rightarrow> allocator \<Rightarrow> pyobj list \<Rightarrow> kwargs option \<Rightarrow> LoquiStreamHandler \<Rightarrow> (LoquiStreamHandler \<times> pyobj py) option" where
  "call_send_hello_ack P py3 alloc args kwds h =
     with_arguments h
       (py_bind (all_arguments [''flags'', ''ping_interval'', ''selected_encoding'', ''selected_compressor''] args kwds) (\<lambda>vs.
          py_bind (convert P PyInt_As_uint8_t (vs ! 0)) (\<lambda>flags.
          py_bind (convert P PyInt_As_uint32_t (vs ! 1)) (\<lambda>pint.
          py_bind (bytes_argument (vs ! 2)) (\<lambda>enc.
          py_bind (bytes_argument (vs ! 3)) (\<lambda>cmp.
          py_bind (case enc of Some e \<Rightarrow> Inr e | None \<Rightarrow> if py3 then Inl TypeError else Inr NONE_TEXT) (\<lambda>enc.
            Inr (flags, pint, enc, cmp))))))))
       (\<lambda>(flags, pint, enc, cmp). int_result (send_hello_ack py3 alloc h flags pint enc cmp))"

definition call_send_response ::
    "python \<Rightarrow> allocator \<Rightarrow> pyobj list \<Rightarrow> kwargs option \<Rightarrow> LoquiStreamHandler \<Rightarrow> (LoquiStreamHandler \<times> pyobj py) option" where
  "call_send_response P alloc args kwds h =
     with_arguments h
       (py_bind (all_arguments [''flags'', ''seq'', ''data''] args kwds) (\<lambda>vs.
          py_bind (convert P PyInt_As_uint8_t (vs ! 0)) (\<lambda>flags.
          py_bind (convert P PyInt_As_uint32_t (vs ! 1)) (\<lambda>seq.
          py_bind (bytes_argument (vs ! 2)) (\<lambda>data. Inr (flags, seq, data))))))
       (\<lambda>(flags, seq, data). int_result (send_response alloc h flags seq data))"

definition call_send_error ::
    "python \<Rightarrow> allocator \<Rightarrow> pyobj list \<Rightarrow> kwargs option \<Rightarrow> LoquiStreamHandler \<Rightarrow> (LoquiStreamHandler \<times> pyobj py) option" where
  "call_send_error P alloc args kwds h =
     with_arguments h
       (py_bind (all_arguments [''flags'', ''code'', ''seq'', ''data''] args kwds) (\<lambda>vs.
          py_bind (convert P PyInt_As_uint8_t (vs ! 0)) (\<lambda>flags.
          py_bind (convert P PyInt_As_uint16_t (vs ! 1)) (\<lambda>code.
          py_bind (convert P PyInt_As_uint32_t (vs ! 2)) (\<lambda>seq.
          py_bind (bytes_argument (vs ! 3)) (\<lambda>data. Inr (flags, code, seq, data)))))))
       (\<lambda>(flags, code, seq, data). int_result (send_error alloc h flags code seq data))"

definition call_send_goaway ::
    "python \<Rightarrow> allocator \<Rightarrow> pyobj list \<Rightarrow> kwargs option \<Rightarrow> LoquiStreamHandler \<Rightarrow> (LoquiStreamHandler \<times> pyobj py) option" where
  "call_send_goaway P alloc args kwds h =
     with_arguments h
       (py_bind (all_arguments [''flags'', ''code'', ''reason''] args kwds) (\<lambda>vs.
          py_bind (convert P PyInt_As_uint8_t (vs ! 0)) (\<lambda>flags.
          py_bind (convert P PyInt_As_uint16_t (vs ! 1)) (\<lambda>code.
          py_bind (bytes_argument (vs ! 2)) (\<lambda>reason. Inr (flags, code, reason))))))
       (\<lambda>(flags, code, reason). int_result (send_goaway alloc h flags code reason))"

section \<open>The write buffer and receiving\<close>

definition call_current_seq :: "pyobj list \<Rightarrow> kwargs option \<Rightarrow> LoquiStreamHandler \<Rightarrow> pyobj py" where
  "call_current_seq args kwds h =
     (if args = [] \<and> (kwds = None \<or> kwds = Some []) then Inr (PyInt (uint (current_seq h))) else Inl TypeError)"

definition call_write_buffer_len :: "pyobj list \<Rightarrow> kwargs option \<Rightarrow> LoquiStreamHandler \<Rightarrow> pyobj py" where
  "call_write_buffer_len args kwds h =
     (if args = [] \<and> (kwds = None \<or> kwds = Some []) then Inr (PyInt (uint (write_buffer_len h))) else Inl TypeError)"

text \<open>\<open>consume\<close> is true by default.\<close>

definition call_write_buffer_get_bytes ::
    "python \<Rightarrow> allocator \<Rightarrow> pyobj list \<Rightarrow> kwargs option \<Rightarrow> LoquiStreamHandler \<Rightarrow> (LoquiStreamHandler \<times> pyobj py) option" where
  "call_write_buffer_get_bytes P alloc args kwds h =
     with_arguments h
       (py_bind (bind_arguments [''length'', ''consume''] 1 args kwds) (\<lambda>vs.
          py_bind (case vs ! 0 of Some x \<Rightarrow> convert P PyInt_As_size_t x | None \<Rightarrow> Inl TypeError) (\<lambda>n.
          py_bind (case vs ! 1 of Some x \<Rightarrow> is_true P x | None \<Rightarrow> Inr True) (\<lambda>consume. Inr (n, consume)))))
       (\<lambda>(n, consume).
          map_option (apsnd (\<lambda>bs. Inr (case bs of None \<Rightarrow> PyNone | Some b \<Rightarrow> PyBytes b)))
            (write_buffer_get_bytes alloc h n consume))"

definition call_write_buffer_consume_bytes ::
    "python \<Rightarrow> allocator \<Rightarrow> pyobj list \<Rightarrow> kwargs option \<Rightarrow> LoquiStreamHandler \<Rightarrow> (LoquiStreamHandler \<times> pyobj py) option" where
  "call_write_buffer_consume_bytes P alloc args kwds h =
     with_arguments h (py_bind (one_argument args kwds) (convert P PyInt_As_size_t)) (\<lambda>n.
       map_option (apsnd (\<lambda>left. Inr (PyInt (uint left)))) (write_buffer_consume_bytes alloc h n))"

definition call_on_bytes_received ::
    "allocator \<Rightarrow> pyobj list \<Rightarrow> kwargs option \<Rightarrow> LoquiStreamHandler \<Rightarrow> (LoquiStreamHandler \<times> event list py) option" where
  "call_on_bytes_received alloc args kwds h =
     with_arguments h (py_bind (one_argument args kwds) bytes_argument) (on_bytes_received alloc h)"

section \<open>What a call of a send method queues\<close>

datatype send_method =
  SendPing | SendPong | SendRequest | SendPush | SendHello | SendHelloAck | SendResponse | SendError | SendGoAway

fun python_send ::
    "python \<Rightarrow> bool \<Rightarrow> allocator \<Rightarrow> send_method \<Rightarrow> pyobj list \<Rightarrow> kwargs option \<Rightarrow> LoquiStreamHandler \<Rightarrow>
      (LoquiStreamHandler \<times> pyobj py) option" where
  "python_send P py3 alloc SendPing = call_send_ping P alloc"
| "python_send P py3 alloc SendPong = call_send_pong P alloc"
| "python_send P py3 alloc SendRequest = call_send_request P alloc"
| "python_send P py3 alloc SendPush = call_send_push P alloc"
| "python_send P py3 alloc SendHello = call_send_hello P alloc"
| "python_send P py3 alloc SendHelloAck = call_send_hello_ack P py3 alloc"
| "python_send P py3 alloc SendResponse = call_send_response P alloc"
| "python_send P py3 alloc SendError = call_send_error P alloc"
| "python_send P py3 alloc SendGoAway = call_send_goaway P alloc"

text \<open>The parameters of a method, by Python's signature.\<close>

fun parameters :: "send_method \<Rightarrow> string list" where
  "parameters SendPing = [''flags'']"
| "parameters SendPong = [''flags'', ''seq'']"
| "parameters SendRequest = [''flags'', ''data'']"
| "parameters SendPush = [''flags'', ''data'']"
| "parameters SendHello = [''flags'', ''supported_encodings'', ''supported_compressors'']"
| "parameters SendHelloAck = [''flags'', ''ping_interval'', ''selected_encoding'', ''selected_compressor'']"
| "parameters SendResponse = [''flags'', ''seq'', ''data'']"
| "parameters SendError = [''flags'', ''code'', ''seq'', ''data'']"
| "parameters SendGoAway = [''flags'', ''code'', ''reason'']"

text \<open>The objects \<open>vs\<close> are those that the call passes for the parameters.\<close>

definition passes :: "send_method \<Rightarrow> pyobj list \<Rightarrow> kwargs option \<Rightarrow> pyobj list \<Rightarrow> bool" where
  "passes m args kwds vs \<longleftrightarrow>
     python_binding (parameters m) (length (parameters m)) args (given_keywords kwds) = Inr (List.map Some vs)"

text \<open>The command that the objects stand for: numbers with exactly these values, and these bytes.\<close>

definition number_is :: "python \<Rightarrow> pyobj \<Rightarrow> 'a::len word \<Rightarrow> bool" where
  "number_is P x w \<longleftrightarrow> number_int P x = Inr (uint w)"

definition bytes_are :: "pyobj \<Rightarrow> pybytes \<Rightarrow> bool" where
  "bytes_are x d \<longleftrightarrow> bytes_argument x = Inr d"

definition list_is :: "python \<Rightarrow> pyobj \<Rightarrow> byte list list \<Rightarrow> bool" where
  "list_is P x bs \<longleftrightarrow> py_bind (list_argument x) (bytes_list P) = Inr bs"

primrec method_of :: "command \<Rightarrow> send_method" where
  "method_of (CmdPing fl) = SendPing"
| "method_of (CmdPong fl seq) = SendPong"
| "method_of (CmdRequest fl d) = SendRequest"
| "method_of (CmdPush fl d) = SendPush"
| "method_of (CmdHello fl encs cmps) = SendHello"
| "method_of (CmdHelloAck fl pint enc cmp) = SendHelloAck"
| "method_of (CmdResponse fl seq d) = SendResponse"
| "method_of (CmdError fl code seq d) = SendError"
| "method_of (CmdGoAway fl code d) = SendGoAway"

primrec stands_for :: "python \<Rightarrow> pyobj list \<Rightarrow> command \<Rightarrow> bool" where
  "stands_for P vs (CmdPing fl) = number_is P (vs ! 0) fl"
| "stands_for P vs (CmdPong fl seq) = (number_is P (vs ! 0) fl \<and> number_is P (vs ! 1) seq)"
| "stands_for P vs (CmdRequest fl d) = (number_is P (vs ! 0) fl \<and> bytes_are (vs ! 1) (Some d))"
| "stands_for P vs (CmdPush fl d) = (number_is P (vs ! 0) fl \<and> bytes_are (vs ! 1) (Some d))"
| "stands_for P vs (CmdHello fl encs cmps) =
     (number_is P (vs ! 0) fl \<and> list_is P (vs ! 1) encs \<and> list_is P (vs ! 2) cmps)"
| "stands_for P vs (CmdHelloAck fl pint enc cmp) =
     (number_is P (vs ! 0) fl \<and> number_is P (vs ! 1) pint \<and>
      (bytes_are (vs ! 2) (Some enc) \<or> vs ! 2 = PyNone \<and> enc = NONE_TEXT) \<and> bytes_are (vs ! 3) cmp)"
| "stands_for P vs (CmdResponse fl seq d) =
     (number_is P (vs ! 0) fl \<and> number_is P (vs ! 1) seq \<and> bytes_are (vs ! 2) (Some d))"
| "stands_for P vs (CmdError fl code seq d) =
     (number_is P (vs ! 0) fl \<and> number_is P (vs ! 1) code \<and> number_is P (vs ! 2) seq \<and> bytes_are (vs ! 3) d)"
| "stands_for P vs (CmdGoAway fl code d) =
     (number_is P (vs ! 0) fl \<and> number_is P (vs ! 1) code \<and> bytes_are (vs ! 2) d)"

lemma convert_exact:
  "convert P PyInt_As_uint8_t x = Inr b \<Longrightarrow> number_is P x b"
  "convert P PyInt_As_uint16_t x = Inr h \<Longrightarrow> number_is P x h"
  "convert P PyInt_As_uint32_t x = Inr w \<Longrightarrow> number_is P x w"
  by (auto simp: convert_def number_is_def PyInt_As_uint8_t_def PyInt_As_uint16_t_def PyInt_As_uint32_t_def uint_word_of_int
      split: sum.splits if_splits)

lemma all_arguments_passed:
  assumes "all_arguments names args kwds = Inr vs" and "distinct names" and "distinct (List.map fst (given_keywords kwds))"
  shows "python_binding names (length names) args (given_keywords kwds) = Inr (List.map Some vs)"
proof -
  let ?kw = "given_keywords kwds" and ?rest = "drop (length args) names"
  have b: "bind_arguments names (length names) args kwds = python_binding names (length names) args ?kw"
    using bind_as_python [OF assms(2,3)] by simp
  then obtain xs where xs: "python_binding names (length names) args ?kw = Inr xs"
      "vs = List.map (\<lambda>v. case v of Some x \<Rightarrow> x | None \<Rightarrow> PyNone) xs"
    using assms(1) unfolding all_arguments_def b
    by (cases "python_binding names (length names) args ?kw") auto
  then have all: "set (take (length names - length args) ?rest) \<subseteq> fst ` set ?kw"
    and eq: "xs = List.map Some args @ List.map (map_of ?kw) ?rest"
    by (auto simp: python_binding_def Let_def split: if_splits)
  have "map_of ?kw p \<noteq> None" if "p \<in> set ?rest" for p using all that by (simp add: map_of_eq_None_iff subset_iff)
  then have "List.map Some vs = xs" unfolding xs(2) eq by (auto split: option.split)
  then show ?thesis using xs(1) by simp
qed

lemma one_argument_passed:
  "one_argument args kwds = Inr x \<Longrightarrow> python_binding [p] 1 args (given_keywords kwds) = Inr [Some x]"
  by (auto simp: one_argument_def python_binding_def given_keywords_def split: list.splits option.splits)

text \<open>Every wrapper refuses its arguments, or gives \<open>None\<close> for the bytes to the method, or performs a command.\<close>

definition send_result ::
    "python \<Rightarrow> allocator \<Rightarrow> send_method \<Rightarrow> pyobj list \<Rightarrow> kwargs option \<Rightarrow> LoquiStreamHandler \<Rightarrow>
      (LoquiStreamHandler \<times> pyobj py) option \<Rightarrow> bool" where
  "send_result P alloc m args kwds h r \<longleftrightarrow>
     (\<exists>e. r = Some (h, Inl e) \<or> r = Some (fst (next_seq h), Inl e)) \<or>
     (\<exists>vs c. passes m args kwds vs \<and> method_of c = m \<and> stands_for P vs c \<and> r = int_result (perform alloc h c))"

lemma refused: "send_result P alloc m args kwds h (Some (h, Inl e))"
  by (auto simp: send_result_def)

lemma performed:
  "passes (method_of c) args kwds vs \<Longrightarrow> stands_for P vs c \<Longrightarrow> send_result P alloc (method_of c) args kwds h (int_result (perform alloc h c))"
  by (auto simp: send_result_def)

lemma send_result_bind:
  "(\<And>a. r = Inr a \<Longrightarrow> send_result P alloc m args kwds h (with_arguments h (f a) g)) \<Longrightarrow>
     send_result P alloc m args kwds h (with_arguments h (py_bind r f) g)"
  by (cases r) (simp_all add: refused)

lemma call_performs:
  assumes "distinct (List.map fst (given_keywords kwds))" and "all_arguments (parameters (method_of c)) args kwds = Inr vs"
    and "stands_for P vs c"
  shows "send_result P alloc (method_of c) args kwds h (int_result (perform alloc h c))"
proof (rule performed [OF _ assms(3)])
  have "distinct (parameters (method_of c))" by (cases c) simp_all
  from all_arguments_passed [OF assms(2) this assms(1)] show "passes (method_of c) args kwds vs" by (simp add: passes_def)
qed

text \<open>A method that gets \<open>None\<close> for its bytes raises \<open>TypeError\<close>; a request has taken its number by then.\<close>

lemma no_bytes:
  "send_push alloc h fl None = Some (h, Inl TypeError)" "send_response alloc h fl q None = Some (h, Inl TypeError)"
  "send_request alloc h fl None = Some (fst (next_seq h), Inl TypeError)"
  by (simp_all add: send_push_def send_response_def send_request_def PyBytes_AsStringAndSize_def case_prod_beta)

lemma none_refused:
  "send_result P alloc m args kwds h (int_result (Some (h, Inl e)))"
  "send_result P alloc m args kwds h (int_result (Some (fst (next_seq h), Inl e)))"
  by (auto simp: send_result_def int_result_def except0_def)

lemma some_bytes:
  "(\<And>b. d = Some b \<Longrightarrow> send_result P alloc m args kwds h (int_result (send_request alloc h fl (Some b)))) \<Longrightarrow>
     send_result P alloc m args kwds h (int_result (send_request alloc h fl d))"
  "(\<And>b. d = Some b \<Longrightarrow> send_result P alloc m args kwds h (int_result (send_push alloc h fl (Some b)))) \<Longrightarrow>
     send_result P alloc m args kwds h (int_result (send_push alloc h fl d))"
  "(\<And>b. d = Some b \<Longrightarrow> send_result P alloc m args kwds h (int_result (send_response alloc h fl q (Some b)))) \<Longrightarrow>
     send_result P alloc m args kwds h (int_result (send_response alloc h fl q d))"
  by (cases d; simp add: no_bytes none_refused)+

lemma send_calls:
  assumes "distinct (List.map fst (given_keywords kwds))"
  shows "send_result P alloc m args kwds h (python_send P py3 alloc m args kwds h)"
proof -
  note steps = send_result_bind
  note go = call_performs [OF assms, of _ args _ P alloc h]
  note exact = convert_exact bytes_are_def
  have ping: "send_result P alloc SendPing args kwds h (call_send_ping P alloc args kwds h)"
  proof (unfold call_send_ping_def, rule steps)
    fix x assume x: "one_argument args kwds = Inr x"
    have "passes SendPing args kwds [x]" using one_argument_passed [OF x] by (simp add: passes_def)
    then show "send_result P alloc SendPing args kwds h
        (with_arguments h (convert P PyInt_As_uint8_t x) (\<lambda>flags. int_result (send_ping alloc h flags)))"
      using performed [of "CmdPing fl" args kwds "[x]" P alloc h for fl]
      by (cases "convert P PyInt_As_uint8_t x") (auto simp: exact refused)
  qed
  have pong: "send_result P alloc SendPong args kwds h (call_send_pong P alloc args kwds h)"
    unfolding call_send_pong_def using go [of "CmdPong _ _"] by (intro steps) (auto simp: exact)
  have request: "send_result P alloc SendRequest args kwds h (call_send_request P alloc args kwds h)"
    unfolding call_send_request_def
    by (intro steps) (simp only: with_arguments_simps prod.case, rule some_bytes(1),
      use go [of "CmdRequest _ _"] in \<open>simp add: exact\<close>)
  have push: "send_result P alloc SendPush args kwds h (call_send_push P alloc args kwds h)"
    unfolding call_send_push_def
    by (intro steps) (simp only: with_arguments_simps prod.case, rule some_bytes(2),
      use go [of "CmdPush _ _"] in \<open>simp add: exact\<close>)
  have hello: "send_result P alloc SendHello args kwds h (call_send_hello P alloc args kwds h)"
    unfolding call_send_hello_def using go [of "CmdHello _ _ _"]
    by (intro steps) (auto simp: exact list_is_def)
  have hello_ack: "send_result P alloc SendHelloAck args kwds h (call_send_hello_ack P py3 alloc args kwds h)"
  proof -
    have "send_result P alloc SendHelloAck args kwds h (int_result (send_hello_ack py3 alloc h fl pint e cmp))"
      if "send_result P alloc SendHelloAck args kwds h (int_result (send_hello_ack False alloc h fl pint e cmp))" for fl pint e cmp
      using that by (cases py3) (simp_all add: send_hello_ack_python3 none_refused)
    moreover have "bytes_argument x = Inr None \<Longrightarrow> x = PyNone" for x by (cases x) simp_all
    ultimately show ?thesis
      unfolding call_send_hello_ack_def using go [of "CmdHelloAck _ _ _ _"]
      by (intro steps) (auto simp: exact split: option.splits if_splits)
  qed
  have response: "send_result P alloc SendResponse args kwds h (call_send_response P alloc args kwds h)"
    unfolding call_send_response_def
    by (intro steps) (simp only: with_arguments_simps prod.case, rule some_bytes(3),
      use go [of "CmdResponse _ _ _"] in \<open>simp add: exact\<close>)
  have error: "send_result P alloc SendError args kwds h (call_send_error P alloc args kwds h)"
    unfolding call_send_error_def using go [of "CmdError _ _ _ _"] by (intro steps) (auto simp: exact)
  have goaway: "send_result P alloc SendGoAway args kwds h (call_send_goaway P alloc args kwds h)"
    unfolding call_send_goaway_def using go [of "CmdGoAway _ _ _"] by (intro steps) (auto simp: exact)
  show ?thesis
    using ping pong request push hello hello_ack response error goaway by (cases m) simp_all
qed

section \<open>Properties\<close>


text \<open>Objects of other types have no value here.\<close>

definition plain_python :: python where
  "plain_python = \<lparr>nb_int = (\<lambda>k. Inl TypeError), nb_bool = (\<lambda>k. Inr True), nb_float = (\<lambda>k. Inl TypeError),
     bytes_call = (\<lambda>x. Inl TypeError)\<rparr>"


text \<open>What Python can do to a handler: any call with any objects. (The length of an object is below \<open>2^63\<close>.)\<close>

inductive python_reachable :: "python \<Rightarrow> bool \<Rightarrow> LoquiStreamHandler \<Rightarrow> bool" for P :: python and py3 :: bool where
  new: "python_reachable P py3 (LoquiStreamHandler_cinit alloc)"
| send: "python_reachable P py3 h \<Longrightarrow> alloc_sane alloc \<Longrightarrow> distinct (List.map fst (given_keywords kwds)) \<Longrightarrow>
    python_send P py3 alloc m args kwds h = Some (h', r) \<Longrightarrow> python_reachable P py3 h'"
| get: "python_reachable P py3 h \<Longrightarrow> call_write_buffer_get_bytes P alloc args kwds h = Some (h', r) \<Longrightarrow> python_reachable P py3 h'"
| drop_bytes: "python_reachable P py3 h \<Longrightarrow> call_write_buffer_consume_bytes P alloc args kwds h = Some (h', r) \<Longrightarrow>
    python_reachable P py3 h'"
| receive: "python_reachable P py3 h \<Longrightarrow> alloc_sane alloc \<Longrightarrow> (\<forall>d. args = [PyBytes d] \<longrightarrow> length d < 2 ^ 63) \<Longrightarrow>
    call_on_bytes_received alloc args kwds h = Some (h', es) \<Longrightarrow> python_reachable P py3 h'"

lemma python_send_inv:
  assumes "handler_inv h" and "alloc_sane alloc" and "distinct (List.map fst (given_keywords kwds))"
  obtains h' r where "python_send P py3 alloc m args kwds h = Some (h', r)" and "handler_inv h'"
proof -
  have seq: "handler_inv (fst (next_seq h))"
    using assms(1) next_seq_value(3) next_seq_keeps by (auto simp: handler_inv_def)
  show ?thesis
    using send_calls [OF assms(3), of P alloc m args h py3] unfolding send_result_def
  proof (elim disjE exE conjE)
    fix vs c
    assume r: "python_send P py3 alloc m args kwds h = int_result (perform alloc h c)"
    obtain h' r' where "perform alloc h c = Some (h', r')" "handler_inv h'" by (rule perform_inv [OF assms(1,2)])
    then show ?thesis using that r by (simp add: int_result_def)
  qed (use assms(1) seq that in auto)
qed

lemma python_queue_inv:
  assumes "handler_inv h"
  shows "\<exists>h' r. call_write_buffer_get_bytes P alloc args kwds h = Some (h', r) \<and> handler_inv h'"
    and "\<exists>h' r. call_write_buffer_consume_bytes P alloc args kwds h = Some (h', r) \<and> handler_inv h'"
proof -
  have w: "write_ok h" using assms by (simp add: handler_inv_def)
  have "\<exists>h' bs. write_buffer_get_bytes alloc h n c = Some (h', bs) \<and> handler_inv h'" for n c
    by (rule get_bytes_front [OF w, of alloc n c]) (use assms in \<open>simp add: handler_inv_def seq_ok_def\<close>)
  then have get: "\<exists>h' r. map_option (apsnd g) (write_buffer_get_bytes alloc h n c) = Some (h', r) \<and> handler_inv h'"
    for n c and g :: "pybytes \<Rightarrow> pyobj py" by (metis apsnd_conv option.simps(9))
  have "\<exists>h' left. write_buffer_consume_bytes alloc h n = Some (h', left) \<and> handler_inv h'" for n
    by (rule consume_bytes_drops [OF w, of alloc n]) (use assms in \<open>simp add: handler_inv_def seq_ok_def\<close>)
  then have drop: "\<exists>h' r. map_option (apsnd g) (write_buffer_consume_bytes alloc h n) = Some (h', r) \<and> handler_inv h'"
    for n and g :: "size_t \<Rightarrow> pyobj py" by (metis apsnd_conv option.simps(9))
  show "\<exists>h' r. call_write_buffer_get_bytes P alloc args kwds h = Some (h', r) \<and> handler_inv h'"
    using assms get unfolding call_write_buffer_get_bytes_def with_arguments_def by (auto split: sum.split)
  show "\<exists>h' r. call_write_buffer_consume_bytes P alloc args kwds h = Some (h', r) \<and> handler_inv h'"
    using assms drop unfolding call_write_buffer_consume_bytes_def with_arguments_def by (auto split: sum.split)
qed

lemma one_argument_args: "one_argument args kwds = Inr x \<Longrightarrow> args = [x]"
  by (auto simp: one_argument_def split: list.splits option.splits)

lemma python_receive_inv:
  assumes "handler_inv h" and "alloc_sane alloc" and "\<forall>d. args = [PyBytes d] \<longrightarrow> length d < 2 ^ 63"
    and "call_on_bytes_received alloc args kwds h = Some (h', es)"
  shows "handler_inv h'"
proof -
  have "handler_inv h1" if on: "on_bytes_received alloc h d = Some (h1, es)"
      and arg: "py_bind (one_argument args kwds) bytes_argument = Inr d" for d h1
  proof (cases d)
    case None
    then show ?thesis using on assms(1) by (simp add: on_bytes_received_def PyBytes_AsStringAndSize_def)
  next
    case (Some b)
    obtain x where "one_argument args kwds = Inr x" "bytes_argument x = Inr (Some b)"
      using arg Some by (auto simp: py_bind_Inr)
    then have "args = [PyBytes b]" using one_argument_args by (cases x) auto
    then show ?thesis
      using on Some received_safe [OF assms(2,1), of b] assms(3) by (simp add: safe_result_def)
  qed
  then show ?thesis
    using assms(1,4) by (cases "py_bind (one_argument args kwds) bytes_argument") (auto simp: call_on_bytes_received_def)
qed

lemma python_reachable_inv: "python_reachable P py3 h \<Longrightarrow> handler_inv h"
proof (induction rule: python_reachable.induct)
  case (send h alloc kwds m args h' r)
  then show ?case by (metis python_send_inv option.inject prod.inject)
next
  case (get h alloc args kwds h' r)
  then show ?case using python_queue_inv(1) [OF get(3), of P alloc args kwds] by auto
next
  case (drop_bytes h alloc args kwds h' r)
  then show ?case using python_queue_inv(2) [OF drop_bytes(3), of P alloc args kwds] by auto
next
  case (receive h alloc args kwds h' es)
  then show ?case by (blast intro: python_receive_inv)
qed (rule cinit_inv)



end
