(* ===== verification/Loqui_EventObjects.thy ===== *)
theory Loqui_EventObjects
  imports Loqui_Calls
begin

text \<open>
  The event classes as Python sees them (\<open>py/loqui/opcodes.c\<close>): calling a class binds and converts the
  arguments, and the read-only attributes give them back. Objects made from Python may hold \<open>None\<close> where
  those that the stream handler makes hold bytes or lists, and lists of anything.
\<close>

section \<open>Objects\<close>

datatype event_object =
    ResponseObject byte u32 pybytes
  | RequestObject byte u32 pybytes
  | PushObject byte pybytes
  | PingObject byte u32
  | PongObject byte u32
  | HelloObject byte byte "pyobj list option" "pyobj list option"
  | HelloAckObject byte u32 pybytes pybytes
  | GoAwayObject byte u16 pybytes
  | ErrorObject byte u16 u32 pybytes

text \<open>The objects that \<open>on_bytes_received\<close> gives.\<close>

primrec as_object :: "event \<Rightarrow> event_object" where
  "as_object (Response fl seq d) = ResponseObject fl seq d"
| "as_object (Request fl seq d) = RequestObject fl seq d"
| "as_object (Push fl d) = PushObject fl d"
| "as_object (Ping fl seq) = PingObject fl seq"
| "as_object (Pong fl seq) = PongObject fl seq"
| "as_object (Hello fl ver encs cmps) =
     HelloObject fl ver (Some (List.map PyBytes encs)) (Some (List.map PyBytes cmps))"
| "as_object (HelloAck fl pint enc cmp) = HelloAckObject fl pint (Some enc) (Some cmp)"
| "as_object (GoAway fl code d) = GoAwayObject fl code d"
| "as_object (Error fl code seq d) = ErrorObject fl code seq d"

section \<open>Calling a class\<close>

text \<open>Numbers are converted in the wrapper; the type of an object is tested before \<open>__cinit__\<close> stores it.\<close>

definition new_Response :: "python \<Rightarrow> pyobj list \<Rightarrow> kwargs option \<Rightarrow> event_object py" where
  "new_Response P args kwds =
     py_bind (all_arguments [''flags'', ''seq'', ''data''] args kwds) (\<lambda>vs.
       py_bind (convert P PyInt_As_uint8_t (vs ! 0)) (\<lambda>flags.
       py_bind (convert P PyInt_As_uint32_t (vs ! 1)) (\<lambda>seq.
       py_bind (bytes_argument (vs ! 2)) (\<lambda>data. Inr (ResponseObject flags seq data)))))"

definition new_Request :: "python \<Rightarrow> pyobj list \<Rightarrow> kwargs option \<Rightarrow> event_object py" where
  "new_Request P args kwds =
     py_bind (all_arguments [''flags'', ''seq'', ''data''] args kwds) (\<lambda>vs.
       py_bind (convert P PyInt_As_uint8_t (vs ! 0)) (\<lambda>flags.
       py_bind (convert P PyInt_As_uint32_t (vs ! 1)) (\<lambda>seq.
       py_bind (bytes_argument (vs ! 2)) (\<lambda>data. Inr (RequestObject flags seq data)))))"

definition new_Push :: "python \<Rightarrow> pyobj list \<Rightarrow> kwargs option \<Rightarrow> event_object py" where
  "new_Push P args kwds =
     py_bind (all_arguments [''flags'', ''data''] args kwds) (\<lambda>vs.
       py_bind (convert P PyInt_As_uint8_t (vs ! 0)) (\<lambda>flags.
       py_bind (bytes_argument (vs ! 1)) (\<lambda>data. Inr (PushObject flags data))))"

definition new_Ping :: "python \<Rightarrow> pyobj list \<Rightarrow> kwargs option \<Rightarrow> event_object py" where
  "new_Ping P args kwds =
     py_bind (all_arguments [''flags'', ''seq''] args kwds) (\<lambda>vs.
       py_bind (convert P PyInt_As_uint8_t (vs ! 0)) (\<lambda>flags.
       py_bind (convert P PyInt_As_uint32_t (vs ! 1)) (\<lambda>seq. Inr (PingObject flags seq))))"

definition new_Pong :: "python \<Rightarrow> pyobj list \<Rightarrow> kwargs option \<Rightarrow> event_object py" where
  "new_Pong P args kwds =
     py_bind (all_arguments [''flags'', ''seq''] args kwds) (\<lambda>vs.
       py_bind (convert P PyInt_As_uint8_t (vs ! 0)) (\<lambda>flags.
       py_bind (convert P PyInt_As_uint32_t (vs ! 1)) (\<lambda>seq. Inr (PongObject flags seq))))"

definition new_Hello :: "python \<Rightarrow> pyobj list \<Rightarrow> kwargs option \<Rightarrow> event_object py" where
  "new_Hello P args kwds =
     py_bind (all_arguments [''flags'', ''version'', ''supported_encodings'', ''supported_compressions''] args kwds) (\<lambda>vs.
       py_bind (convert P PyInt_As_uint8_t (vs ! 0)) (\<lambda>flags.
       py_bind (convert P PyInt_As_uint8_t (vs ! 1)) (\<lambda>version.
       py_bind (list_argument (vs ! 2)) (\<lambda>encs.
       py_bind (list_argument (vs ! 3)) (\<lambda>cmps. Inr (HelloObject flags version encs cmps))))))"

definition new_HelloAck :: "python \<Rightarrow> pyobj list \<Rightarrow> kwargs option \<Rightarrow> event_object py" where
  "new_HelloAck P args kwds =
     py_bind (all_arguments [''flags'', ''ping_interval'', ''selected_encoding'', ''selected_compression''] args kwds) (\<lambda>vs.
       py_bind (convert P PyInt_As_uint8_t (vs ! 0)) (\<lambda>flags.
       py_bind (convert P PyInt_As_uint32_t (vs ! 1)) (\<lambda>pint.
       py_bind (bytes_argument (vs ! 2)) (\<lambda>enc.
       py_bind (bytes_argument (vs ! 3)) (\<lambda>cmp. Inr (HelloAckObject flags pint enc cmp))))))"

definition new_GoAway :: "python \<Rightarrow> pyobj list \<Rightarrow> kwargs option \<Rightarrow> event_object py" where
  "new_GoAway P args kwds =
     py_bind (all_arguments [''flags'', ''code'', ''reason''] args kwds) (\<lambda>vs.
       py_bind (convert P PyInt_As_uint8_t (vs ! 0)) (\<lambda>flags.
       py_bind (convert P PyInt_As_uint16_t (vs ! 1)) (\<lambda>code.
       py_bind (bytes_argument (vs ! 2)) (\<lambda>reason. Inr (GoAwayObject flags code reason)))))"

definition new_Error :: "python \<Rightarrow> pyobj list \<Rightarrow> kwargs option \<Rightarrow> event_object py" where
  "new_Error P args kwds =
     py_bind (all_arguments [''flags'', ''code'', ''seq'', ''data''] args kwds) (\<lambda>vs.
       py_bind (convert P PyInt_As_uint8_t (vs ! 0)) (\<lambda>flags.
       py_bind (convert P PyInt_As_uint16_t (vs ! 1)) (\<lambda>code.
       py_bind (convert P PyInt_As_uint32_t (vs ! 2)) (\<lambda>seq.
       py_bind (bytes_argument (vs ! 3)) (\<lambda>data. Inr (ErrorObject flags code seq data))))))"

section \<open>Attributes\<close>

text \<open>The getters of each class, by attribute name.\<close>

definition Response_getters :: "byte \<Rightarrow> u32 \<Rightarrow> pybytes \<Rightarrow> (string \<times> pyobj) list" where
  "Response_getters fl seq d = [(''flags'', PyInt (uint fl)), (''seq'', PyInt (uint seq)), (''data'', bytes_object d)]"

definition Request_getters :: "byte \<Rightarrow> u32 \<Rightarrow> pybytes \<Rightarrow> (string \<times> pyobj) list" where
  "Request_getters fl seq d = [(''flags'', PyInt (uint fl)), (''seq'', PyInt (uint seq)), (''data'', bytes_object d)]"

definition Push_getters :: "byte \<Rightarrow> pybytes \<Rightarrow> (string \<times> pyobj) list" where
  "Push_getters fl d = [(''flags'', PyInt (uint fl)), (''data'', bytes_object d)]"

definition Ping_getters :: "byte \<Rightarrow> u32 \<Rightarrow> (string \<times> pyobj) list" where
  "Ping_getters fl seq = [(''flags'', PyInt (uint fl)), (''seq'', PyInt (uint seq))]"

definition Pong_getters :: "byte \<Rightarrow> u32 \<Rightarrow> (string \<times> pyobj) list" where
  "Pong_getters fl seq = [(''flags'', PyInt (uint fl)), (''seq'', PyInt (uint seq))]"

definition Hello_getters ::
    "byte \<Rightarrow> byte \<Rightarrow> pyobj list option \<Rightarrow> pyobj list option \<Rightarrow> (string \<times> pyobj) list" where
  "Hello_getters fl ver encs cmps =
     [(''flags'', PyInt (uint fl)), (''version'', PyInt (uint ver)),
      (''supported_encodings'', list_object encs), (''supported_compressions'', list_object cmps)]"

definition HelloAck_getters :: "byte \<Rightarrow> u32 \<Rightarrow> pybytes \<Rightarrow> pybytes \<Rightarrow> (string \<times> pyobj) list" where
  "HelloAck_getters fl pint enc cmp =
     [(''flags'', PyInt (uint fl)), (''ping_interval'', PyInt (uint pint)),
      (''selected_encoding'', bytes_object enc), (''selected_compression'', bytes_object cmp)]"

definition GoAway_getters :: "byte \<Rightarrow> u16 \<Rightarrow> pybytes \<Rightarrow> (string \<times> pyobj) list" where
  "GoAway_getters fl code d = [(''flags'', PyInt (uint fl)), (''code'', PyInt (uint code)), (''reason'', bytes_object d)]"

definition Error_getters :: "byte \<Rightarrow> u16 \<Rightarrow> u32 \<Rightarrow> pybytes \<Rightarrow> (string \<times> pyobj) list" where
  "Error_getters fl code seq d =
     [(''flags'', PyInt (uint fl)), (''code'', PyInt (uint code)), (''seq'', PyInt (uint seq)), (''data'', bytes_object d)]"

primrec getters :: "event_object \<Rightarrow> (string \<times> pyobj) list" where
  "getters (ResponseObject fl seq d) = Response_getters fl seq d"
| "getters (RequestObject fl seq d) = Request_getters fl seq d"
| "getters (PushObject fl d) = Push_getters fl d"
| "getters (PingObject fl seq) = Ping_getters fl seq"
| "getters (PongObject fl seq) = Pong_getters fl seq"
| "getters (HelloObject fl ver encs cmps) = Hello_getters fl ver encs cmps"
| "getters (HelloAckObject fl pint enc cmp) = HelloAck_getters fl pint enc cmp"
| "getters (GoAwayObject fl code d) = GoAway_getters fl code d"
| "getters (ErrorObject fl code seq d) = Error_getters fl code seq d"

lemmas getters_defs = Response_getters_def Request_getters_def Push_getters_def Ping_getters_def Pong_getters_def
  Hello_getters_def HelloAck_getters_def GoAway_getters_def Error_getters_def

text \<open>\<open>getattr\<close> and \<open>setattr\<close>: the attributes are read-only, and an object has no others.\<close>

definition get_attribute :: "event_object \<Rightarrow> string \<Rightarrow> pyobj py" where
  "get_attribute e k = (case map_of (getters e) k of Some x \<Rightarrow> Inr x | None \<Rightarrow> Inl AttributeError)"

section \<open>What a call makes\<close>

datatype event_class =
  ResponseClass | RequestClass | PushClass | PingClass | PongClass | HelloClass | HelloAckClass | GoAwayClass | ErrorClass

primrec new_event :: "python \<Rightarrow> event_class \<Rightarrow> pyobj list \<Rightarrow> kwargs option \<Rightarrow> event_object py" where
  "new_event P ResponseClass = new_Response P"
| "new_event P RequestClass = new_Request P"
| "new_event P PushClass = new_Push P"
| "new_event P PingClass = new_Ping P"
| "new_event P PongClass = new_Pong P"
| "new_event P HelloClass = new_Hello P"
| "new_event P HelloAckClass = new_HelloAck P"
| "new_event P GoAwayClass = new_GoAway P"
| "new_event P ErrorClass = new_Error P"

primrec class_of :: "event_object \<Rightarrow> event_class" where
  "class_of (ResponseObject fl seq d) = ResponseClass"
| "class_of (RequestObject fl seq d) = RequestClass"
| "class_of (PushObject fl d) = PushClass"
| "class_of (PingObject fl seq) = PingClass"
| "class_of (PongObject fl seq) = PongClass"
| "class_of (HelloObject fl ver encs cmps) = HelloClass"
| "class_of (HelloAckObject fl pint enc cmp) = HelloAckClass"
| "class_of (GoAwayObject fl code d) = GoAwayClass"
| "class_of (ErrorObject fl code seq d) = ErrorClass"

text \<open>An attribute reads as the argument: the same number, or the same object.\<close>

definition reads_as :: "python \<Rightarrow> pyobj \<Rightarrow> pyobj \<Rightarrow> bool" where
  "reads_as P x y = (case y of PyInt n \<Rightarrow> number_int P x = Inr n | _ \<Rightarrow> x = y)"

lemma reads_as_simps [simp]:
  "reads_as P x (PyInt n) \<longleftrightarrow> number_int P x = Inr n"
  "reads_as P x (bytes_object d) \<longleftrightarrow> x = bytes_object d"
  "reads_as P x (list_object l) \<longleftrightarrow> x = list_object l"
  by (auto simp: reads_as_def bytes_object_def list_object_def split: option.split)

lemma convert_iff:
  "convert P PyInt_As_uint8_t x = Inr b \<longleftrightarrow> number_int P x = Inr (uint b)"
  "convert P PyInt_As_uint16_t x = Inr h \<longleftrightarrow> number_int P x = Inr (uint h)"
  "convert P PyInt_As_uint32_t x = Inr w \<longleftrightarrow> number_int P x = Inr (uint w)"
  by (rule iffI, erule convert_exact [unfolded number_is_def], simp add: convert_def)+

lemma all_arguments_iff:
  assumes "distinct names" and "distinct (List.map fst (given_keywords kwds))"
  shows "all_arguments names args kwds = Inr vs \<longleftrightarrow>
    python_binding names (length names) args (given_keywords kwds) = Inr (List.map Some vs)"
proof
  show "python_binding names (length names) args (given_keywords kwds) = Inr (List.map Some vs) \<Longrightarrow>
      all_arguments names args kwds = Inr vs"
    using bind_as_python [OF assms, of "length names" args] by (simp add: all_arguments_def comp_def)
qed (rule all_arguments_passed [OF _ assms])

lemma binding_length: "python_binding names req args kw = Inr vs \<Longrightarrow> length vs = length names"
  by (auto simp: python_binding_def Let_def split: if_splits)

lemma bound_iff:
  assumes "distinct names" and "distinct (List.map fst (given_keywords kwds))"
    and "\<And>vs. length vs = length names \<Longrightarrow> f vs = Inr e \<longleftrightarrow> Q vs"
  shows "py_bind (all_arguments names args kwds) f = Inr e \<longleftrightarrow>
    (\<exists>vs. python_binding names (length names) args (given_keywords kwds) = Inr (List.map Some vs) \<and> Q vs)"
proof -
  have "length vs = length names"
    if "python_binding names (length names) args (given_keywords kwds) = Inr (List.map Some vs)" for vs
    using binding_length [OF that] by simp
  then show ?thesis unfolding py_bind_Inr all_arguments_iff [OF assms(1,2)] using assms(3) by metis
qed

primrec fields_of :: "event_class \<Rightarrow> string list" where
  "fields_of ResponseClass = [''flags'', ''seq'', ''data'']"
| "fields_of RequestClass = [''flags'', ''seq'', ''data'']"
| "fields_of PushClass = [''flags'', ''data'']"
| "fields_of PingClass = [''flags'', ''seq'']"
| "fields_of PongClass = [''flags'', ''seq'']"
| "fields_of HelloClass = [''flags'', ''version'', ''supported_encodings'', ''supported_compressions'']"
| "fields_of HelloAckClass = [''flags'', ''ping_interval'', ''selected_encoding'', ''selected_compression'']"
| "fields_of GoAwayClass = [''flags'', ''code'', ''reason'']"
| "fields_of ErrorClass = [''flags'', ''code'', ''seq'', ''data'']"

lemma getters_names: "List.map fst (getters e) = fields_of (class_of e)"
  by (cases e) (simp_all add: getters_defs)

lemmas new_defs = new_Response_def new_Request_def new_Push_def new_Ping_def new_Pong_def new_Hello_def
  new_HelloAck_def new_GoAway_def new_Error_def

lemma new_event_iff:
  assumes kw: "distinct (List.map fst (given_keywords kwds))"
  shows "new_event P c args kwds = Inr e \<longleftrightarrow>
    (\<exists>vs. python_binding (fields_of c) (length (fields_of c)) args (given_keywords kwds) = Inr (List.map Some vs) \<and>
       class_of e = c \<and> list_all2 (reads_as P) vs (List.map snd (getters e)))"
proof (cases c)
  case ResponseClass
  show ?thesis unfolding ResponseClass new_event.simps fields_of.simps new_Response_def
    by (rule bound_iff [OF _ kw]; cases e; auto simp: length_Suc_conv py_bind_Inr convert_iff bytes_argument_iff getters_defs)
next
  case RequestClass
  show ?thesis unfolding RequestClass new_event.simps fields_of.simps new_Request_def
    by (rule bound_iff [OF _ kw]; cases e; auto simp: length_Suc_conv py_bind_Inr convert_iff bytes_argument_iff getters_defs)
next
  case PushClass
  show ?thesis unfolding PushClass new_event.simps fields_of.simps new_Push_def
    by (rule bound_iff [OF _ kw]; cases e; auto simp: length_Suc_conv py_bind_Inr convert_iff bytes_argument_iff getters_defs)
next
  case PingClass
  show ?thesis unfolding PingClass new_event.simps fields_of.simps new_Ping_def
    by (rule bound_iff [OF _ kw]; cases e; auto simp: length_Suc_conv py_bind_Inr convert_iff getters_defs)
next
  case PongClass
  show ?thesis unfolding PongClass new_event.simps fields_of.simps new_Pong_def
    by (rule bound_iff [OF _ kw]; cases e; auto simp: length_Suc_conv py_bind_Inr convert_iff getters_defs)
next
  case HelloClass
  show ?thesis unfolding HelloClass new_event.simps fields_of.simps new_Hello_def
    by (rule bound_iff [OF _ kw]; cases e; auto simp: length_Suc_conv py_bind_Inr convert_iff list_argument_iff getters_defs)
next
  case HelloAckClass
  show ?thesis unfolding HelloAckClass new_event.simps fields_of.simps new_HelloAck_def
    by (rule bound_iff [OF _ kw]; cases e; auto simp: length_Suc_conv py_bind_Inr convert_iff bytes_argument_iff getters_defs)
next
  case GoAwayClass
  show ?thesis unfolding GoAwayClass new_event.simps fields_of.simps new_GoAway_def
    by (rule bound_iff [OF _ kw]; cases e; auto simp: length_Suc_conv py_bind_Inr convert_iff bytes_argument_iff getters_defs)
next
  case ErrorClass
  show ?thesis unfolding ErrorClass new_event.simps fields_of.simps new_Error_def
    by (rule bound_iff [OF _ kw]; cases e; auto simp: length_Suc_conv py_bind_Inr convert_iff bytes_argument_iff getters_defs)
qed

section \<open>Properties\<close>



text \<open>The stream handler makes its events with such calls: passing an event's fields gives the event's object.\<close>

definition call_with :: "event \<Rightarrow> pyobj list" where
  "call_with ev = List.map snd (getters (as_object ev))"

lemma events_are_objects: "new_event P (class_of (as_object ev)) (call_with ev) None = Inr (as_object ev)"
proof -
  let ?e = "as_object ev"
  have len: "length (call_with ev) = length (fields_of (class_of ?e))"
    unfolding call_with_def getters_names [symmetric] by simp
  have "list_all2 (reads_as P) (call_with ev) (List.map snd (getters ?e))"
    unfolding call_with_def by (cases ?e) (simp_all add: getters_defs)
  then show ?thesis
    unfolding new_event_iff [of None, simplified given_keywords_def, simplified]
    by (intro exI [of _ "call_with ev"]) (simp add: python_binding_def len given_keywords_def)
qed

end
