(* ===== verification/Loqui_SessionCalls.thy ===== *)
theory Loqui_SessionCalls
  imports Loqui_Calls Loqui_Events
begin

text \<open>
  The session's methods as Python calls them (\<open>py/loqui/socket_session.c\<close>, the generated wrappers). The
  session itself calls its \<open>close\<close> this way where it passes keywords; \<open>Loqui_Events\<close> has the outcome of these
  calls in their place. The application's data are Python objects here.
\<close>

section \<open>The methods\<close>

text \<open>Conversions go before type tests: the code, then \<open>via_remote_goaway\<close>, then the reason.\<close>

definition close_parameters :: "string list" where
  "close_parameters =
     [''code'', ''reason'', ''block'', ''block_timeout'', ''close_timeout'', ''via_remote_goaway'']"

definition or_default :: "'a \<Rightarrow> (pyobj \<Rightarrow> 'a py) \<Rightarrow> pyobj option \<Rightarrow> 'a py" where
  "or_default d f v = (case v of None \<Rightarrow> Inr d | Some x \<Rightarrow> f x)"

definition close_arguments ::
    "python \<Rightarrow> pyobj list \<Rightarrow> kwargs option \<Rightarrow> (byte \<times> pybytes \<times> pyobj \<times> pyobj \<times> bool) py" where
  "close_arguments P args kwds =
     py_bind (bind_arguments close_parameters 0 args kwds) (\<lambda>vs.
       py_bind (or_default CLOSE_NORMAL (convert P PyInt_As_uint8_t) (vs ! 0)) (\<lambda>code.
       py_bind (or_default False (is_true P) (vs ! 5)) (\<lambda>via.
       py_bind (or_default None bytes_argument (vs ! 1)) (\<lambda>reason.
       py_bind (or_default (PyBool False) Inr (vs ! 2)) (\<lambda>block.
       py_bind (or_default PyNone Inr (vs ! 3)) (\<lambda>block_timeout.
         Inr (code, reason, block, block_timeout, via)))))))"

text \<open>\<open>block\<close> is any object; its truth is asked for after the rest is done.\<close>

definition call_close ::
    "python \<Rightarrow> allocator \<Rightarrow> pyobj list \<Rightarrow> kwargs option \<Rightarrow> 'd session \<Rightarrow> ('d, unit) op" where
  "call_close P alloc args kwds s =
     (case close_arguments P args kwds of
        Inl e \<Rightarrow> Ret s (Inl e)
      | Inr (code, reason, block, block_timeout, via) \<Rightarrow>
          and_then (session_close alloc code reason via s) (\<lambda>s _.
            case is_true P block of
              Inl e \<Rightarrow> Ret s (Inl e)
            | Inr b \<Rightarrow> if b then session_join (block_timeout \<noteq> PyNone) s else Ret s (Inr ())))"

definition call_join :: "pyobj list \<Rightarrow> kwargs option \<Rightarrow> 'd session \<Rightarrow> ('d, unit) op" where
  "call_join args kwds s =
     (case bind_arguments [''timeout''] 0 args kwds of
        Inl e \<Rightarrow> Ret s (Inl e)
      | Inr vs \<Rightarrow> session_join (vs ! 0 \<noteq> None \<and> vs ! 0 \<noteq> Some PyNone) s)"

definition call_session_send_response ::
    "python \<Rightarrow> allocator \<Rightarrow> pyobj list \<Rightarrow> kwargs option \<Rightarrow> pyobj session \<Rightarrow> (pyobj, unit) op" where
  "call_session_send_response P alloc args kwds s =
     (case all_arguments [''seq'', ''data''] args kwds of
        Inl e \<Rightarrow> Ret s (Inl e)
      | Inr vs \<Rightarrow>
          (case convert P PyInt_As_uint32_t (vs ! 0) of
             Inl e \<Rightarrow> Ret s (Inl e)
           | Inr seq \<Rightarrow> session_send_response alloc seq (vs ! 1) s))"

text \<open>As in \<open>call_send_hello_ack\<close>, an encoding \<open>None\<close> is text on Python 2 and a \<open>TypeError\<close> in the method on Python 3.\<close>

definition call_session_send_hello_ack ::
    "bool \<Rightarrow> allocator \<Rightarrow> pyobj list \<Rightarrow> kwargs option \<Rightarrow> 'd session \<Rightarrow> ('d, unit) op" where
  "call_session_send_hello_ack py3 alloc args kwds s =
     (case py_bind (all_arguments [''selected_encoding'', ''selected_compressor''] args kwds) (\<lambda>vs.
             py_bind (bytes_argument (vs ! 0)) (\<lambda>enc. py_bind (bytes_argument (vs ! 1)) (\<lambda>cmp. Inr (enc, cmp)))) of
        Inl e \<Rightarrow> Ret s (Inl e)
      | Inr (Some enc, cmp) \<Rightarrow> session_send_hello_ack py3 alloc enc cmp s
      | Inr (None, cmp) \<Rightarrow>
          if \<not> py3 then session_send_hello_ack py3 alloc NONE_TEXT cmp s
          else if is_client s then Ret s (Inl NotServerException)
          else if defunct s then Ret s (Inl StreamDefunct)
          else Ret s (Inl TypeError))"

section \<open>The session's own calls of \<open>close\<close>\<close>

text \<open>What \<open>CloseReasons\<close> holds.\<close>

definition NO_MUTUAL_ENCODERS :: pyobj where "NO_MUTUAL_ENCODERS = PyInt 3"

lemma and_then_ret: "and_then p (\<lambda>s _. Ret s (Inr ())) = p"
proof (induction p)
  case (Ret s r)
  then show ?case by (cases r) simp_all
qed simp_all

lemma call_close_simple:
  assumes "close_arguments P args kwds = Inr (code, reason, PyBool False, tm, via)"
  shows "call_close P alloc args kwds s = session_close alloc code reason via s"
  using assms by (simp add: call_close_def and_then_ret)

text \<open>
  What the handlers of \<open>Loqui_Events\<close> do when they close the session is what the calls of \<open>close\<close> with
  keywords do that the source makes there: after a time-out of a ping, on data that cannot be decoded, on an unknown encoding, on a GOAWAY
  (whose 16-bit code may not fit), and for a HELLO without a common encoding, where the reason is an
  integer and the call raises \<open>TypeError\<close> before it does anything.
\<close>

theorem handlers_close_through_python:
  "handle_ping_timeout alloc s = call_close P alloc [] (Some [(''code'', PyInt 1)]) s \<and>
    session_close alloc CLOSE_DECODER_ERROR None False s = call_close P alloc [] (Some [(''code'', PyInt 5)]) s \<and>
    session_close alloc CLOSE_UNKNOWN_ENCODER (Some (UNKNOWN_ENCODING_TEXT @ enc)) False s =
      call_close P alloc [] (Some [(''code'', PyInt 2), (''reason'', PyBytes (UNKNOWN_ENCODING_TEXT @ enc))]) s \<and>
    handle_go_away alloc code reason s = call_close P alloc []
      (Some [(''via_remote_goaway'', PyBool True), (''reason'', bytes_object reason), (''code'', PyInt (uint code))]) s \<and>
    call_close P alloc [] (Some [(''reason'', NO_MUTUAL_ENCODERS)]) s = Ret s (Inl TypeError)"
proof -
  let ?names = "{''code'', ''reason'', ''block'', ''block_timeout'', ''close_timeout'', ''via_remote_goaway''}"
  have bind: "bind_arguments close_parameters 0 [] (Some kw) = Inr [map_of kw ''code'', map_of kw ''reason'', map_of kw ''block'',
      map_of kw ''block_timeout'', map_of kw ''close_timeout'', map_of kw ''via_remote_goaway'']"
    if "distinct (List.map fst kw)" "set (List.map fst kw) \<subseteq> ?names" for kw
    using bind_keywords [of close_parameters kw 0 "[]"] that by (simp add: python_binding_def close_parameters_def)
  note args = close_arguments_def bind or_default_def
  have code: "close_arguments P [] (Some [(''code'', PyInt n)]) = Inr (word_of_int n, None, PyBool False, PyNone, False)"
    if "0 \<le> n" "n < 256" for n
    using that by (simp add: args convert_def PyInt_As_uint8_t_def)
  have unknown: "close_arguments P [] (Some [(''code'', PyInt 2), (''reason'', PyBytes r)]) =
      Inr (2, Some r, PyBool False, PyNone, False)" for r
    by (simp add: args convert_def PyInt_As_uint8_t_def)
  have goaway: "close_arguments P []
      (Some [(''via_remote_goaway'', PyBool True), (''reason'', bytes_object reason), (''code'', PyInt (uint code))]) =
      py_bind (PyInt_As_uint8_t (uint code)) (\<lambda>c. Inr (c, reason, PyBool False, PyNone, True))"
    by (cases "PyInt_As_uint8_t (uint code)") (simp_all add: args convert_def)
  have "handle_go_away alloc code reason s = call_close P alloc []
      (Some [(''via_remote_goaway'', PyBool True), (''reason'', bytes_object reason), (''code'', PyInt (uint code))]) s"
    using goaway call_close_simple [where ?P = P and via = True]
    by (cases "PyInt_As_uint8_t (uint code)") (simp_all add: handle_go_away_def call_close_def and_then_ret)
  moreover have "call_close P alloc [] (Some [(''reason'', NO_MUTUAL_ENCODERS)]) s = Ret s (Inl TypeError)"
    by (simp add: call_close_def args NO_MUTUAL_ENCODERS_def)
  ultimately show ?thesis
    using call_close_simple [OF code [of 1], of alloc s] call_close_simple [OF code [of 5], of alloc s] call_close_simple [OF unknown, of alloc _ s]
    by (simp add: handle_ping_timeout_def CLOSE_PING_TIMEOUT_def CLOSE_DECODER_ERROR_def CLOSE_UNKNOWN_ENCODER_def)
qed

end
