(* ===== verification/Loqui_Backoff.thy ===== *)
theory Loqui_Backoff
  imports Loqui_Prelude Complex_Main
begin

text \<open>
  \<open>py/loqui/exponential_backoff.c\<close>: the delay before the client's next attempt to connect.

  The values are C floats and, between them, Python floats (doubles). Their arithmetic is the
  platform's: \<open>rounding\<close> holds how the platform rounds an exact result to a float and to a double, and
  Python's \<open>round(x, 2)\<close>. What the code relies on, and IEEE 754 and Python document, is that these are
  monotone (\<open>sound_rounding\<close>). A number is \<open>steady\<close> when all three leave it alone, like the 0.25 and 2 that
  the client uses. The random factor is an argument.
\<close>

section \<open>Arithmetic\<close>

record rounding =
  to_float :: "real \<Rightarrow> real"
  to_double :: "real \<Rightarrow> real"
  round2 :: "real \<Rightarrow> real"

definition sound_rounding :: "rounding \<Rightarrow> bool" where
  "sound_rounding R \<longleftrightarrow> mono (to_float R) \<and> mono (to_double R) \<and> mono (round2 R)"

definition steady :: "rounding \<Rightarrow> real \<Rightarrow> bool" where
  "steady R x \<longleftrightarrow> to_float R x = x \<and> to_double R x = x \<and> round2 R x = x"

section \<open>State and operations\<close>

text \<open>\<open>_fails\<close> is a C int; it is kept at its width.\<close>

record Backoff =
  min_delay :: real
  max_delay :: real
  current_delay :: real
  fail_count :: u32
  use_jitter :: bool

definition Backoff_init :: "rounding \<Rightarrow> real \<Rightarrow> real option \<Rightarrow> bool \<Rightarrow> Backoff" where
  "Backoff_init R mn mx jitter =
     (let m = to_float R mn;
          mx = (case mx of None \<Rightarrow> to_double R (mn * 10) | Some x \<Rightarrow> x)
      in \<lparr>min_delay = m, max_delay = to_float R mx, current_delay = m, fail_count = 0, use_jitter = jitter\<rparr>)"

definition backoff_fails :: "Backoff \<Rightarrow> u32" where
  "backoff_fails b = fail_count b"

definition backoff_current :: "Backoff \<Rightarrow> real" where
  "backoff_current b = current_delay b"

definition backoff_succeed :: "Backoff \<Rightarrow> Backoff" where
  "backoff_succeed b = b\<lparr>fail_count := 0, current_delay := min_delay b\<rparr>"

definition backoff_fail :: "rounding \<Rightarrow> real \<Rightarrow> Backoff \<Rightarrow> Backoff \<times> real" where
  "backoff_fail R random b =
     (let b = b\<lparr>fail_count := fail_count b + 1\<rparr>;
          delay = to_double R (current_delay b * 2);
          delay = (if use_jitter b then to_double R (delay * random) else delay);
          cur = to_float R (to_double R (current_delay b + delay));
          cur = (if max_delay b \<noteq> 0 then (if max_delay b < cur then max_delay b else cur) else cur);
          cur = to_float R (round2 R cur)
      in (b\<lparr>current_delay := cur\<rparr>, cur))"

section \<open>Runs\<close>

text \<open>What happens to a backoff: \<open>None\<close> is a success, \<open>Some r\<close> a failure with that random factor.\<close>

fun backoff_run :: "rounding \<Rightarrow> Backoff \<Rightarrow> real option list \<Rightarrow> Backoff" where
  "backoff_run R b [] = b"
| "backoff_run R b (None # es) = backoff_run R (backoff_succeed b) es"
| "backoff_run R b (Some r # es) = backoff_run R (fst (backoff_fail R r b)) es"

text \<open>How many failures there were since the last success, or before that.\<close>

fun failures :: "nat \<Rightarrow> real option list \<Rightarrow> nat" where
  "failures n [] = n"
| "failures n (None # es) = failures 0 es"
| "failures n (Some r # es) = failures (Suc n) es"

definition backoff_ok :: "rounding \<Rightarrow> Backoff \<Rightarrow> bool" where
  "backoff_ok R b \<longleftrightarrow>
     steady R (min_delay b) \<and> steady R (max_delay b) \<and> 0 < min_delay b \<and>
     min_delay b \<le> current_delay b \<and> current_delay b \<le> max_delay b"

lemma succeed_ok: "backoff_ok R b \<Longrightarrow> backoff_ok R (backoff_succeed b)"
  by (simp add: backoff_ok_def backoff_succeed_def)

lemma steady_mono:
  assumes "sound_rounding R" and "steady R x"
  shows "x \<le> y \<Longrightarrow> x \<le> to_float R y" "x \<le> y \<Longrightarrow> x \<le> to_double R y" "x \<le> y \<Longrightarrow> x \<le> round2 R y"
    "y \<le> x \<Longrightarrow> to_float R y \<le> x" "y \<le> x \<Longrightarrow> round2 R y \<le> x"
  using assms by (metis monoD sound_rounding_def steady_def)+

lemma fail_ok:
  assumes "sound_rounding R" and "steady R 0" and "backoff_ok R b" and "0 \<le> r"
  shows "backoff_ok R (fst (backoff_fail R r b))"
proof -
  note s = steady_mono [OF assms(1)]
  have mn: "steady R (min_delay b)" "0 < min_delay b" and mx: "steady R (max_delay b)"
    and c: "min_delay b \<le> current_delay b" "current_delay b \<le> max_delay b"
    using assms(3) by (simp_all add: backoff_ok_def)
  define delay where "delay = (if use_jitter b then to_double R (to_double R (current_delay b * 2) * r)
      else to_double R (current_delay b * 2))"
  define cur where "cur = to_float R (to_double R (current_delay b + delay))"
  have "0 \<le> to_double R (current_delay b * 2)" using s(2) [OF assms(2)] c mn by simp
  then have "0 \<le> delay" using s(2) [OF assms(2)] assms(4) by (simp add: delay_def)
  then have "min_delay b \<le> cur" using s(1,2) [OF mn(1)] c by (simp add: cur_def)
  then have "min_delay b \<le> min (max_delay b) cur" "min (max_delay b) cur \<le> max_delay b" using c by auto
  then have r: "min_delay b \<le> to_float R (round2 R (min (max_delay b) cur))"
    "to_float R (round2 R (min (max_delay b) cur)) \<le> max_delay b"
    using s(1,3) [OF mn(1)] s(4,5) [OF mx] by auto
  have "(if max_delay b < cur then max_delay b else cur) = min (max_delay b) cur" by auto
  moreover have "max_delay b \<noteq> 0" using mn c by simp
  ultimately have "current_delay (fst (backoff_fail R r b)) = to_float R (round2 R (min (max_delay b) cur))"
    by (simp add: backoff_fail_def Let_def cur_def delay_def)
  then show ?thesis using r assms(3) by (simp add: backoff_ok_def backoff_fail_def Let_def)
qed

lemma backoff_run_ok:
  assumes "sound_rounding R" and "steady R 0"
    and "backoff_ok R b" and "fail_count b = of_nat n" and "\<forall>r. Some r \<in> set es \<longrightarrow> 0 \<le> r"
  shows "backoff_ok R (backoff_run R b es) \<and> min_delay (backoff_run R b es) = min_delay b \<and>
    max_delay (backoff_run R b es) = max_delay b \<and> fail_count (backoff_run R b es) = of_nat (failures n es)"
  using assms
proof (induction R b es arbitrary: n rule: backoff_run.induct)
  case (2 R b es)
  then show ?case using 2(1) [of 0] by (simp add: succeed_ok) (simp add: backoff_succeed_def)
next
  case (3 R b r es)
  let ?b = "fst (backoff_fail R r b)"
  have "min_delay ?b = min_delay b" "max_delay ?b = max_delay b" "fail_count ?b = of_nat (Suc n)"
    using 3(5) by (simp_all add: backoff_fail_def Let_def)
  moreover have "backoff_ok R ?b" using fail_ok [OF 3(2,3,4)] 3(6) by simp
  ultimately show ?case using 3(1) [of "Suc n"] 3(2,3,6) by simp
qed simp

section \<open>Property\<close>

text \<open>
  C29: The delay stays within its bounds. For a smallest and a largest delay that the
  arithmetic represents, whatever the sequence of failures and successes and whatever the random factors,
  the current delay is between the two (so rounding never pushes it over the largest or down to zero);
  and the number of failures is that of the failures since the last success, at C's width.
\<close>

theorem backoff_within_bounds:
  assumes "sound_rounding R" and "steady R 0" and "steady R lo" and "steady R hi" and "0 < lo" and "lo \<le> hi"
    and "\<forall>r. Some r \<in> set es \<longrightarrow> 0 \<le> r"
  shows "(let b = backoff_run R (Backoff_init R lo (Some hi) jitter) es in
    lo \<le> backoff_current b \<and> backoff_current b \<le> hi \<and> backoff_fails b = of_nat (failures 0 es))"
proof -
  let ?b = "Backoff_init R lo (Some hi) jitter"
  have b: "min_delay ?b = lo" "max_delay ?b = hi" "fail_count ?b = of_nat 0" "current_delay ?b = lo"
    using assms(3,4) by (simp_all add: Backoff_init_def steady_def)
  then have "backoff_ok R ?b" using assms(3-6) by (simp add: backoff_ok_def)
  from backoff_run_ok [OF assms(1,2) this b(3) assms(7)] b(1,2) show ?thesis
    by (simp add: Let_def backoff_ok_def backoff_current_def backoff_fails_def)
qed

text \<open>Exact arithmetic, with rounding to the nearest hundredth.\<close>

definition hundredths :: rounding where
  "hundredths = \<lparr>to_float = id, to_double = id, round2 = (\<lambda>x. of_int \<lfloor>x * 100 + 1 / 2\<rfloor> / 100)\<rparr>"

lemma hundredths_ok: "sound_rounding hundredths" "steady hundredths 0" "steady hundredths (1 / 4)" "steady hundredths 2"
proof -
  show "sound_rounding hundredths"
    by (auto simp: sound_rounding_def hundredths_def mono_def intro!: divide_right_mono floor_mono)
  show "steady hundredths 0" "steady hundredths (1 / 4)" "steady hundredths 2"
    by (simp_all add: steady_def hundredths_def)
qed

text \<open>The client's backoff.\<close>

lemma backoff_within_bounds_witness:
  "(let b = backoff_run hundredths (Backoff_init hundredths (1 / 4) (Some 2) True)
       [Some (1 / 2), None, Some (1 / 3), Some (9 / 10)] in
     1 / 4 \<le> backoff_current b \<and> backoff_current b \<le> 2 \<and> backoff_fails b = 2)"
  using backoff_within_bounds [OF hundredths_ok, of "[Some (1 / 2), None, Some (1 / 3), Some (9 / 10)]" True]
  by (auto simp: Let_def)

end
