(* ===== verification/Loqui_Pickle.thy ===== *)
theory Loqui_Pickle
  imports Loqui_Calls Loqui_Backoff "HOL-Library.AList"
begin

text \<open>
  Pickling: \<open>__reduce_cython__\<close>, \<open>__setstate_cython__\<close> and the module function that unpickles, which Cython
  generates for a class without a \<open>__cinit__\<close>: \<open>Backoff\<close> (\<open>py/loqui/exponential_backoff.c\<close>) and the two client classes
  (\<open>py/loqui/client.c\<close>). The code differs in the fields only, so it is written once over a class's fields. A class with a
  \<open>__cinit__\<close> has stubs that raise \<open>TypeError\<close>.

  Objects are those of \<open>Loqui_Arguments\<close>. \<open>instance_of\<close> says which objects are instances of a class and \<open>subclass_of\<close>, which
  are classes derived from it; both are the interpreter's. An object's \<open>__dict__\<close> is an association list, \<open>None\<close> where its class
  has none.
\<close>

section \<open>Fields\<close>

text \<open>A class's fields: C floats, ints and truth values, and objects, some of which must be of a type (or \<open>None\<close>).\<close>

datatype field_kind = FloatField | IntField | BoolField | ObjectField | TupleField | InstanceField nat

datatype slot = CFloat real | CInt u32 | CBool bool | CObject pyobj

record class_spec =
  class_id :: nat
  field_kinds :: "field_kind list"
  layout_checksum :: int
  unpickler :: nat

record classes =
  instance_of :: "nat \<Rightarrow> nat \<Rightarrow> bool"
  subclass_of :: "nat \<Rightarrow> nat \<Rightarrow> bool"

text \<open>A field as an object, and back, with the conversion or the type test of its kind.\<close>

fun field_object :: "slot \<Rightarrow> pyobj" where
  "field_object (CFloat r) = PyFloat r"
| "field_object (CInt n) = PyInt (sint n)"
| "field_object (CBool b) = PyBool b"
| "field_object (CObject x) = x"

fun as_double :: "rounding \<Rightarrow> python \<Rightarrow> pyobj \<Rightarrow> real py" where
  "as_double R P (PyFloat r) = Inr r"
| "as_double R P (PyInt n) = (if \<bar>n\<bar> < 2 ^ 1024 then Inr (to_double R (real_of_int n)) else Inl OverflowError)"
| "as_double R P (PyBool b) = Inr (of_bool b)"
| "as_double R P (PyOther k) = nb_float P k"
| "as_double R P _ = Inl TypeError"

definition PyInt_As_int :: "int \<Rightarrow> u32 py" where
  "PyInt_As_int n = (if - (2 ^ 31) \<le> n \<and> n < 2 ^ 31 then Inr (word_of_int n) else Inl OverflowError)"

definition PyInt_As_long :: "int \<Rightarrow> 64 word py" where
  "PyInt_As_long n = (if - (2 ^ 63) \<le> n \<and> n < 2 ^ 63 then Inr (word_of_int n) else Inl OverflowError)"

fun field_of :: "rounding \<Rightarrow> python \<Rightarrow> classes \<Rightarrow> field_kind \<Rightarrow> pyobj \<Rightarrow> slot py" where
  "field_of R P C FloatField x = py_bind (as_double R P x) (\<lambda>d. Inr (CFloat (to_float R d)))"
| "field_of R P C IntField x = py_bind (convert P PyInt_As_int x) (\<lambda>n. Inr (CInt n))"
| "field_of R P C BoolField x = py_bind (is_true P x) (\<lambda>b. Inr (CBool b))"
| "field_of R P C ObjectField x = Inr (CObject x)"
| "field_of R P C TupleField x = (case x of PyTuple xs \<Rightarrow> Inr (CObject x) | PyNone \<Rightarrow> Inr (CObject x) | _ \<Rightarrow> Inl TypeError)"
| "field_of R P C (InstanceField c) x =
     (case x of
        PyNone \<Rightarrow> Inr (CObject x)
      | PyOther k \<Rightarrow> if instance_of C k c then Inr (CObject x) else Inl TypeError
      | _ \<Rightarrow> Inl TypeError)"

text \<open>What \<open>__new__\<close> leaves in a field.\<close>

fun empty_field :: "field_kind \<Rightarrow> slot" where
  "empty_field FloatField = CFloat 0"
| "empty_field IntField = CInt 0"
| "empty_field BoolField = CBool False"
| "empty_field ObjectField = CObject PyNone"
| "empty_field TupleField = CObject PyNone"
| "empty_field (InstanceField c) = CObject PyNone"

type_synonym instance_state = "slot list \<times> (string \<times> pyobj) list option"

section \<open>Pickling\<close>

text \<open>
  The state is the tuple of the fields, with the \<open>__dict__\<close> behind it when there is one. It goes to \<open>__setstate__\<close> in that case, or when
  an object field holds something; otherwise to the unpickler itself.
\<close>

fun holds_object :: "slot \<Rightarrow> bool" where
  "holds_object (CObject x) = (x \<noteq> PyNone)"
| "holds_object _ = False"

definition reduce_state :: "slot list \<Rightarrow> (string \<times> pyobj) list option \<Rightarrow> pyobj" where
  "reduce_state fs attrs =
     PyTuple (List.map field_object fs @ (case attrs of None \<Rightarrow> [] | Some d \<Rightarrow> [PyDict d]))"

definition reduce_cython :: "class_spec \<Rightarrow> nat \<Rightarrow> instance_state \<Rightarrow> pyobj" where
  "reduce_cython spec ty self =
     (let (fs, attrs) = self;
          state = reduce_state fs attrs;
          use_setstate = (attrs \<noteq> None \<or> list_ex holds_object fs)
      in if use_setstate
         then PyTuple [PyOther (unpickler spec), PyTuple [PyOther ty, PyInt (layout_checksum spec), PyNone], state]
         else PyTuple [PyOther (unpickler spec), PyTuple [PyOther ty, PyInt (layout_checksum spec), state]])"

section \<open>Unpickling\<close>

text \<open>Element by element; an index behind the tuple's end raises \<open>IndexError\<close>.\<close>

fun set_fields :: "rounding \<Rightarrow> python \<Rightarrow> classes \<Rightarrow> field_kind list \<Rightarrow> pyobj list \<Rightarrow> slot list py" where
  "set_fields R P C [] xs = Inr []"
| "set_fields R P C (k # ks) [] = Inl IndexError"
| "set_fields R P C (k # ks) (x # xs) =
     py_bind (field_of R P C k x) (\<lambda>f. py_bind (set_fields R P C ks xs) (\<lambda>fs. Inr (f # fs)))"

text \<open>\<open>__dict__.update\<close>; a dict is expected there, which pickling gives.\<close>

definition dict_update :: "(string \<times> pyobj) list \<Rightarrow> pyobj \<Rightarrow> (string \<times> pyobj) list py" where
  "dict_update d x =
     (case x of PyDict e \<Rightarrow> Inr (fold (\<lambda>(k, v). AList.update k v) e d) | _ \<Rightarrow> Inl TypeError)"

definition set_state ::
    "rounding \<Rightarrow> python \<Rightarrow> classes \<Rightarrow> class_spec \<Rightarrow> instance_state \<Rightarrow> pyobj list \<Rightarrow> instance_state py" where
  "set_state R P C spec self xs =
     py_bind (set_fields R P C (field_kinds spec) xs) (\<lambda>fs.
       if length xs > length (field_kinds spec) then
         (case snd self of
            None \<Rightarrow> Inr (fs, None)
          | Some d \<Rightarrow> py_bind (dict_update d (xs ! length (field_kinds spec))) (\<lambda>d. Inr (fs, Some d)))
       else Inr (fs, snd self))"

text \<open>A state that is \<open>None\<close> passes the type test and is not subscriptable; other objects are no tuples.\<close>

definition setstate_cython ::
    "rounding \<Rightarrow> python \<Rightarrow> classes \<Rightarrow> class_spec \<Rightarrow> instance_state \<Rightarrow> pyobj \<Rightarrow> instance_state py" where
  "setstate_cython R P C spec self state =
     (case state of PyTuple xs \<Rightarrow> set_state R P C spec self xs | _ \<Rightarrow> Inl TypeError)"

text \<open>\<open>Class.__new__(type)\<close>; \<open>attrs\<close>: whether instances of the type have a \<open>__dict__\<close>, empty at first.\<close>

definition new_instance :: "classes \<Rightarrow> class_spec \<Rightarrow> bool \<Rightarrow> pyobj \<Rightarrow> instance_state py" where
  "new_instance C spec attrs ty =
     (case ty of
        PyOther k \<Rightarrow>
          if subclass_of C k (class_id spec)
          then Inr (List.map empty_field (field_kinds spec), if attrs then Some [] else None)
          else Inl TypeError
      | _ \<Rightarrow> Inl TypeError)"

definition unpickle_instance ::
    "rounding \<Rightarrow> python \<Rightarrow> classes \<Rightarrow> class_spec \<Rightarrow> bool \<Rightarrow> pyobj \<Rightarrow> 64 word \<Rightarrow> pyobj \<Rightarrow> instance_state py" where
  "unpickle_instance R P C spec attrs ty checksum state =
     (if sint checksum \<noteq> layout_checksum spec then Inl PickleError
      else py_bind (new_instance C spec attrs ty) (\<lambda>self.
        if state \<noteq> PyNone then setstate_cython R P C spec self state else Inr self))"

definition call_unpickle ::
    "rounding \<Rightarrow> python \<Rightarrow> classes \<Rightarrow> class_spec \<Rightarrow> bool \<Rightarrow> pyobj list \<Rightarrow> kwargs option \<Rightarrow> instance_state py" where
  "call_unpickle R P C spec attrs args kwds =
     py_bind (all_arguments [''__pyx_type'', ''__pyx_checksum'', ''__pyx_state''] args kwds) (\<lambda>vs.
       py_bind (convert P PyInt_As_long (vs ! 1)) (\<lambda>checksum.
         unpickle_instance R P C spec attrs (vs ! 0) checksum (vs ! 2)))"

text \<open>What \<open>pickle\<close> does with the tuple, by its documentation: call the function, then \<open>__setstate__\<close> with the state if there is one.\<close>

definition restore ::
    "rounding \<Rightarrow> python \<Rightarrow> classes \<Rightarrow> class_spec \<Rightarrow> bool \<Rightarrow> pyobj \<Rightarrow> instance_state py" where
  "restore R P C spec attrs reduced =
     (case reduced of
        PyTuple [f, PyTuple args] \<Rightarrow> call_unpickle R P C spec attrs args None
      | PyTuple [f, PyTuple args, state] \<Rightarrow>
          py_bind (call_unpickle R P C spec attrs args None) (\<lambda>self. setstate_cython R P C spec self state)
      | _ \<Rightarrow> Inl TypeError)"

section \<open>The classes\<close>

text \<open>Numbers for the classes and for the module functions.\<close>

definition BACKOFF :: nat where "BACKOFF = 1"
definition SESSION :: nat where "SESSION = 2"
definition CLIENT :: nat where "CLIENT = 3"
definition UPGRADE_CLIENT :: nat where "UPGRADE_CLIENT = 4"

definition Backoff_class :: class_spec where
  "Backoff_class = \<lparr>class_id = BACKOFF, field_kinds = [FloatField, IntField, BoolField, FloatField, FloatField],
     layout_checksum = 0x1ec4dba, unpickler = 11\<rparr>"

definition client_fields :: "field_kind list" where
  "client_fields = [TupleField, InstanceField BACKOFF, ObjectField, IntField, ObjectField, ObjectField, ObjectField,
     InstanceField SESSION, ObjectField]"

definition LoquiClient_class :: class_spec where
  "LoquiClient_class = \<lparr>class_id = CLIENT, field_kinds = client_fields, layout_checksum = 0xadb48c1, unpickler = 13\<rparr>"

definition LoquiHTTPUpgradeClient_class :: class_spec where
  "LoquiHTTPUpgradeClient_class =
     \<lparr>class_id = UPGRADE_CLIENT, field_kinds = client_fields, layout_checksum = 0xadb48c1, unpickler = 14\<rparr>"

text \<open>The struct of a backoff in the order of its state, and back.\<close>

definition Backoff_fields :: "Backoff \<Rightarrow> slot list" where
  "Backoff_fields b =
     [CFloat (current_delay b), CInt (fail_count b), CBool (use_jitter b), CFloat (max_delay b), CFloat (min_delay b)]"

definition Backoff_reduce :: "nat \<Rightarrow> Backoff \<Rightarrow> (string \<times> pyobj) list option \<Rightarrow> pyobj" where
  "Backoff_reduce ty b attrs = reduce_cython Backoff_class ty (Backoff_fields b, attrs)"

definition Backoff_unpickle ::
    "rounding \<Rightarrow> python \<Rightarrow> classes \<Rightarrow> bool \<Rightarrow> pyobj list \<Rightarrow> kwargs option \<Rightarrow> instance_state py" where
  "Backoff_unpickle R P C attrs args kwds = call_unpickle R P C Backoff_class attrs args kwds"

definition LoquiClient_reduce :: "nat \<Rightarrow> instance_state \<Rightarrow> pyobj" where
  "LoquiClient_reduce ty self = reduce_cython LoquiClient_class ty self"

definition LoquiClient_unpickle ::
    "rounding \<Rightarrow> python \<Rightarrow> classes \<Rightarrow> bool \<Rightarrow> pyobj list \<Rightarrow> kwargs option \<Rightarrow> instance_state py" where
  "LoquiClient_unpickle R P C attrs args kwds = call_unpickle R P C LoquiClient_class attrs args kwds"

definition LoquiHTTPUpgradeClient_reduce :: "nat \<Rightarrow> instance_state \<Rightarrow> pyobj" where
  "LoquiHTTPUpgradeClient_reduce ty self = reduce_cython LoquiHTTPUpgradeClient_class ty self"

definition LoquiHTTPUpgradeClient_unpickle ::
    "rounding \<Rightarrow> python \<Rightarrow> classes \<Rightarrow> bool \<Rightarrow> pyobj list \<Rightarrow> kwargs option \<Rightarrow> instance_state py" where
  "LoquiHTTPUpgradeClient_unpickle R P C attrs args kwds = call_unpickle R P C LoquiHTTPUpgradeClient_class attrs args kwds"

text \<open>The stubs of the sessions, handlers, watchers and events.\<close>

definition reduce_stub :: "pyobj py" where
  "reduce_stub = Inl TypeError"

definition setstate_stub :: "pyobj \<Rightarrow> pyobj py" where
  "setstate_stub state = Inl TypeError"

section \<open>Round trip\<close>

text \<open>A field holds a value of its kind; a C float is a double that is rounded to a float already.\<close>

fun fits :: "rounding \<Rightarrow> classes \<Rightarrow> field_kind \<Rightarrow> slot \<Rightarrow> bool" where
  "fits R C FloatField (CFloat r) = (to_float R r = r)"
| "fits R C IntField (CInt n) = True"
| "fits R C BoolField (CBool b) = True"
| "fits R C ObjectField (CObject x) = True"
| "fits R C TupleField (CObject x) = (x = PyNone \<or> (\<exists>xs. x = PyTuple xs))"
| "fits R C (InstanceField c) (CObject x) = (x = PyNone \<or> (\<exists>k. x = PyOther k \<and> instance_of C k c))"
| "fits R C k f = False"

lemma field_round_trip: "fits R C k f \<Longrightarrow> field_of R P C k (field_object f) = Inr f"
proof (induction R C k f rule: fits.induct)
  case (2 R C n)
  have "- (2 ^ 31) \<le> sint n" "sint n < 2 ^ 31" using sint_ge [of n] sint_lt [of n] by simp_all
  then show ?case by (simp add: convert_def PyInt_As_int_def)
qed auto

lemma set_fields_round_trip:
  "list_all2 (fits R C) ks fs \<Longrightarrow> set_fields R P C ks (List.map field_object fs @ ys) = Inr fs"
  by (induction rule: list_all2_induct) (simp_all add: field_round_trip)

lemma update_new: "k \<notin> fst ` set d \<Longrightarrow> AList.update k v d = d @ [(k, v)]"
  by (induction d) auto

lemma updates_new:
  "distinct (List.map fst (d @ e)) \<Longrightarrow> fold (\<lambda>(k, v). AList.update k v) e d = d @ e"
proof (induction e arbitrary: d)
  case (Cons x e)
  then show ?case using Cons.IH [of "d @ [x]"] by (cases x) (simp add: update_new)
qed simp

lemma restored:
  assumes "list_all2 (fits R C) (field_kinds spec) fs" and "subclass_of C ty (class_id spec)"
    and "\<And>d. attrs = Some d \<Longrightarrow> distinct (List.map fst d)"
    and "- (2 ^ 63) \<le> layout_checksum spec" and "layout_checksum spec < 2 ^ 63"
  shows "restore R P C spec (attrs \<noteq> None) (reduce_cython spec ty (fs, attrs)) = Inr (fs, attrs)"
proof -
  have n: "length (field_kinds spec) = length fs" by (rule list_all2_lengthD [OF assms(1)])
  have checksum: "sint (word_of_int (layout_checksum spec) :: 64 word) = layout_checksum spec"
    by (rule sint_64 [OF assms(4,5)])
  have call: "call_unpickle R P C spec a [PyOther ty, PyInt (layout_checksum spec), state] None =
      (let self = (List.map empty_field (field_kinds spec), if a then Some [] else None) in
       if state \<noteq> PyNone then setstate_cython R P C spec self state else Inr self)" for a state
    using assms(2,4,5) checksum
    by (simp add: call_unpickle_def all_arguments_def bind_arguments_def convert_def PyInt_As_long_def unpickle_instance_def
        new_instance_def Let_def)
  have set: "setstate_cython R P C spec (es, if attrs \<noteq> None then Some [] else None) (reduce_state fs attrs) = Inr (fs, attrs)" for es
  proof (cases attrs)
    case None
    then show ?thesis
      using set_fields_round_trip [OF assms(1), of P "[]"] n by (simp add: setstate_cython_def set_state_def reduce_state_def)
  next
    case (Some d)
    have "dict_update [] (PyDict d) = Inr d" using updates_new [of "[]" d] assms(3) [OF Some] by (simp add: dict_update_def)
    then show ?thesis
      using set_fields_round_trip [OF assms(1), of P "[PyDict d]"] n Some
      by (simp add: setstate_cython_def set_state_def reduce_state_def nth_append)
  qed
  have tuple: "reduce_state fs attrs \<noteq> PyNone" by (simp add: reduce_state_def)
  show ?thesis
    using set tuple by (auto simp: reduce_cython_def restore_def Let_def call)
qed

section \<open>Properties\<close>



text \<open>
  A pickle of another layout is refused: a checksum that is not that of the class raises \<open>PickleError\<close>
  before an object is made; a state that is too short raises \<open>IndexError\<close>, and none is not a state.
\<close>

lemma foreign_pickles_refused:
  "- (2 ^ 63) \<le> n \<Longrightarrow> n < 2 ^ 63 \<Longrightarrow> n \<noteq> 0x1ec4dba \<Longrightarrow>
     Backoff_unpickle R P C attrs [ty, PyInt n, state] None = Inl PickleError"
  "set_state R P C Backoff_class self [PyFloat r] = Inl IndexError"
  "setstate_cython R P C spec self PyNone = Inl TypeError"
  by (simp_all add: Backoff_unpickle_def call_unpickle_def all_arguments_def bind_arguments_def convert_def PyInt_As_long_def
      unpickle_instance_def sint_64 Backoff_class_def set_state_def setstate_cython_def)

end
