(* ===== verification/Loqui_Upgrade.thy ===== *)
theory Loqui_Upgrade
  imports Loqui_Prelude
begin

text \<open>
  \<open>LoquiHTTPUpgradeClient.handle_new_socket\<close> of \<open>py/loqui/client.c\<close>: the HTTP request by which
  a client turns a new connection into a Loqui connection, and the reading of the response. The module is Python 2
  code (it imports \<open>Queue\<close>): its strings are bytes.

  The other end is an argument, a \<open>peer\<close>: the bytes it sends, how many of them are there at each call of
  \<open>recv\<close>, and the errors of the socket. \<open>recv(n)\<close> returns at least one and at most \<open>n\<close> bytes of what is
  there, and none only at the end of the stream, as Python documents.
\<close>

section \<open>Messages\<close>

definition ascii :: "string \<Rightarrow> byte list" where
  "ascii s = List.map of_char s"

fun join_lines :: "byte list list \<Rightarrow> byte list" where
  "join_lines [] = []"
| "join_lines [l] = l"
| "join_lines (l # ls) = l @ [13, 10] @ join_lines ls"

definition lower :: "byte list \<Rightarrow> byte list" where
  "lower s = List.map (\<lambda>b. if 65 \<le> b \<and> b \<le> 90 then b + 32 else b) s"

definition upgrade_payload :: "byte list \<Rightarrow> byte list" where
  "upgrade_payload host = join_lines
     [ascii ''GET /_rpc HTTP/1.1'', ascii ''Host: '' @ host, ascii ''Upgrade: loqui'',
      ascii ''Connection: Upgrade'', [], []]"

definition expected_handshake_responses :: "byte list list" where
  "expected_handshake_responses =
     [lower (join_lines [ascii ''HTTP/1.1 101 Switching Protocols'', ascii ''Upgrade: loqui'',
        ascii ''Connection: Upgrade'', [], []]),
      lower (join_lines [ascii ''HTTP/1.1 101 Switching Protocols'', ascii ''Connection: Upgrade'',
        ascii ''Upgrade: loqui'', [], []])]"

section \<open>The other end\<close>

record peer =
  incoming :: "byte list"
  amount :: "nat \<Rightarrow> nat"
  recv_error :: "nat \<Rightarrow> py_error option"
  send_error :: "py_error option"

definition sock_recv :: "peer \<Rightarrow> nat \<Rightarrow> nat \<Rightarrow> byte list \<Rightarrow> byte list py" where
  "sock_recv p call n unread =
     (case recv_error p call of
        Some e \<Rightarrow> Inl e
      | None \<Rightarrow> Inr (take (min n (max 1 (amount p call))) unread))"

section \<open>Reading the response\<close>

function read_response :: "peer \<Rightarrow> nat \<Rightarrow> nat \<Rightarrow> byte list \<Rightarrow> byte list \<Rightarrow> byte list py \<times> byte list" where
  "read_response p call bytes_remaining unread acc =
     (if bytes_remaining = 0 then (Inr acc, unread)
      else (case sock_recv p call bytes_remaining unread of
          Inl e \<Rightarrow> (Inl e, unread)
        | Inr buf \<Rightarrow>
            if buf = [] then (Inl ConnectionError, unread)
            else read_response p (Suc call) (bytes_remaining - length buf) (drop (length buf) unread) (acc @ buf)))"
  by pat_completeness auto
termination
  by (relation "measure (\<lambda>(p, call, n, unread, acc). n)") auto

declare read_response.simps [simp del]

definition handshake_accepted :: "byte list \<Rightarrow> unit py" where
  "handshake_accepted handshake_response =
     (if lower handshake_response \<notin> set expected_handshake_responses then Inl ConnectionError else Inr ())"

text \<open>What is sent, what the call returns, and what of the input it leaves.\<close>

definition handle_new_socket :: "byte list \<Rightarrow> peer \<Rightarrow> byte list \<times> unit py \<times> byte list" where
  "handle_new_socket host p =
     (case send_error p of
        Some e \<Rightarrow> ([], Inl e, incoming p)
      | None \<Rightarrow>
          let (r, unread) = read_response p 0 (length (expected_handshake_responses ! 0)) (incoming p) []
          in (upgrade_payload host,
              case r of Inl e \<Rightarrow> Inl e | Inr response \<Rightarrow> handshake_accepted response,
              unread))"

section \<open>Properties\<close>

lemma read_response_takes:
  assumes "\<forall>call. recv_error p call = None"
  shows "read_response p call n unread acc =
    (if n \<le> length unread then (Inr (acc @ take n unread), drop n unread) else (Inl ConnectionError, []))"
  using assms
proof (induction p call n unread acc rule: read_response.induct)
  case (1 p call n unread acc)
  show ?case
  proof (cases "n = 0 \<or> unread = []")
    case True
    then show ?thesis
      using 1(2) by (subst read_response.simps, cases "n = 0") (simp_all add: sock_recv_def)
  next
    case False
    define k where "k = min n (max 1 (amount p call))"
    have k: "0 < k" "k \<le> n" using False by (simp_all add: k_def)
    have r: "sock_recv p call n unread = Inr (take k unread)" using 1(2) by (simp add: sock_recv_def k_def)
    have ne: "take k unread \<noteq> []" using k False by simp
    have "read_response p call n unread acc =
        read_response p (Suc call) (n - length (take k unread)) (drop (length (take k unread)) unread) (acc @ take k unread)"
      using False r ne by (subst read_response.simps) simp
    also have "\<dots> = (if n \<le> length unread then (Inr (acc @ take n unread), drop n unread) else (Inl ConnectionError, []))"
      using 1(1) [OF _ r ne 1(2)] False k
      by (cases "k \<le> length unread") (auto simp: le_diff_conv2 take_add [symmetric] min_def)
    finally show ?thesis .
  qed
qed

text \<open>
  C16: The upgrade handshake, on a connection that works. The client sends the request and
  nothing else; it accepts exactly when what the peer sends begins, up to letter case, with one of the two responses; and then
  it has read that response and not a byte more, so what follows is the Loqui stream. Otherwise, if the response is another or ends early,
  it raises \<open>ConnectionError\<close>. How the response is cut into chunks does not matter.
\<close>

theorem upgrade_handshake:
  assumes "send_error p = None" and "\<forall>call. recv_error p call = None"
  shows "(let n = length (expected_handshake_responses ! 0);
      ok = (n \<le> length (incoming p) \<and> lower (take n (incoming p)) \<in> set expected_handshake_responses)
    in handle_new_socket host p =
        (upgrade_payload host, if ok then Inr () else Inl ConnectionError, drop n (incoming p)) \<and>
      list_all (\<lambda>resp. length resp = n) expected_handshake_responses)"
proof -
  have "list_all (\<lambda>resp. length resp = length (expected_handshake_responses ! 0)) expected_handshake_responses"
    by (simp add: expected_handshake_responses_def lower_def ascii_def)
  then show ?thesis using assms by (simp add: handle_new_socket_def read_response_takes handshake_accepted_def Let_def)
qed

text \<open>A server that answers in lower case, three bytes at a time, and then sends a ping.\<close>

definition eager_server :: peer where
  "eager_server = \<lparr>incoming = ascii ''http/1.1 101 switching protocols'' @ [13, 10] @ ascii ''connection: upgrade'' @
     [13, 10] @ ascii ''upgrade: loqui'' @ [13, 10, 13, 10] @ [3, 0, 0, 0, 0, 7],
     amount = (\<lambda>_. 3), recv_error = Map.empty, send_error = None\<rparr>"

lemma upgrade_handshake_witness:
  "snd (handle_new_socket (ascii ''localhost'') eager_server) = (Inr (), [3, 0, 0, 0, 0, 7])"
proof -
  have "send_error eager_server = None" "\<forall>call. recv_error eager_server call = None"
    by (simp_all add: eager_server_def)
  moreover have "length (expected_handshake_responses ! 0) = length (incoming eager_server) - 6"
    "take (length (incoming eager_server) - 6) (incoming eager_server) = expected_handshake_responses ! 1"
    "lower (expected_handshake_responses ! 1) = expected_handshake_responses ! 1"
    by (simp_all add: eager_server_def expected_handshake_responses_def lower_def ascii_def)
  moreover have "expected_handshake_responses ! 1 \<in> set expected_handshake_responses"
    by (rule nth_mem) (simp add: expected_handshake_responses_def)
  moreover have "drop (length (incoming eager_server) - 6) (incoming eager_server) = [3, 0, 0, 0, 0, 7]"
    by (simp add: eager_server_def ascii_def)
  ultimately show ?thesis
    using upgrade_handshake [of eager_server "ascii ''localhost''"] by (simp add: Let_def)
qed

end
