(* ===== verification/Loqui_Client.thy ===== *)
theory Loqui_Client
  imports Loqui_Session Loqui_Backoff Loqui_Upgrade
begin

text \<open>
  \<open>py/loqui/client.c\<close>: \<open>LoquiClient\<close>, which keeps a connection open, reconnects, and sends
  requests and pushes over it. This theory translates its state and its operations.

  A call is a process (\<open>Loqui_Process\<close>) of a greenlet, which is named by a number. It waits for the lock, while it sleeps before
  an attempt to connect, while the socket connects, for the new session's ready event and for an answer; the session's
  own calls wait as in \<open>Loqui_Session\<close>.

  The session objects the client has made are a list; \<open>_session\<close> is an index into it, or \<open>None\<close>. A method call on
  \<open>None\<close> dereferences a null object in the generated code: it is \<open>Undefined\<close>. gevent's \<open>RLock\<close> is its owner and how often that has acquired it;
  \<open>gevent.spawn\<close> puts the call into a list of calls that will be started. The network and the
  random numbers that one attempt to connect meets are an argument, an \<open>attempt\<close>.
\<close>

section \<open>State\<close>

text \<open>Arguments of a spawned call.\<close>

datatype 'd pyobject = PyData 'd | PyAsyncResult nat

datatype 'd spawned =
    ConnectInGreenlet
  | ConnectAndSendRequestAsync "'d pyobject list" nat

record 'd client =
  sessions :: "'d session list"
  current_session :: "nat option"
  session_lock :: "(nat \<times> nat) option"
  push_handler :: bool
  connect_greenlet :: bool
  push_queue :: "'d list"
  max_push_queue_len :: "nat option"
  client_backoff :: Backoff
  client_encoders :: "(byte list \<times> 'd codec) list"
  address_host :: "byte list"
  http_upgrade :: bool
  async_results :: "'d answer option list"
  spawned :: "'d spawned list"

type_synonym ('d, 'a) client_op = "('d client, 'a) proc"

text \<open>
  What an attempt meets: the platform's arithmetic, the random factors of the two calls of
  \<open>Backoff.fail\<close> it may make, the allocator, what making and connecting the socket returns, the other end of the
  connection, what \<open>setblocking\<close> returns, and the descriptor.
\<close>

record attempt =
  arithmetic :: rounding
  clear_random :: real
  fail_random :: real
  att_alloc :: allocator
  connect_result :: "unit py"
  att_peer :: peer
  setblocking_result :: "unit py"
  att_fileno :: int

definition client_init ::
    "rounding \<Rightarrow> byte list \<Rightarrow> bool \<Rightarrow> nat option \<Rightarrow> (byte list \<times> 'd codec) list \<Rightarrow> bool \<Rightarrow> 'd client" where
  "client_init R host handler maxlen encoders upgrade =
     \<lparr>sessions = [], current_session = None, session_lock = None, push_handler = handler,
      connect_greenlet = False, push_queue = [], max_push_queue_len = maxlen,
      client_backoff = Backoff_init R (1 / 4) (Some 2) True, client_encoders = encoders,
      address_host = host, http_upgrade = upgrade, async_results = [], spawned = []\<rparr>"

section \<open>Sessions of the client\<close>

text \<open>A process of session \<open>i\<close> as a process of the client.\<close>

primrec at_session :: "nat \<Rightarrow> ('d session, 'a) proc \<Rightarrow> 'd client \<Rightarrow> ('d, 'a) client_op" where
  "at_session i Undefined c = Undefined"
| "at_session i (Ret s r) c = Ret (c\<lparr>sessions := (sessions c)[i := s]\<rparr>) r"
| "at_session i (Wait P s k) c =
     Wait (\<lambda>c. P (sessions c ! i)) (c\<lparr>sessions := (sessions c)[i := s]\<rparr>) (\<lambda>c. at_session i (k (sessions c ! i)) c)"

definition on_session :: "nat \<Rightarrow> ('d session \<Rightarrow> ('d session, 'a) proc) \<Rightarrow> 'd client \<Rightarrow> ('d, 'a) client_op" where
  "on_session i f c = (if i < length (sessions c) then at_session i (f (sessions c ! i)) c else Undefined)"

text \<open>Whether the current session, if there is one, has a property.\<close>

definition current_is :: "('d session \<Rightarrow> bool) \<Rightarrow> 'd client \<Rightarrow> bool" where
  "current_is P c = (case current_session c of None \<Rightarrow> False | Some i \<Rightarrow> P (sessions c ! i))"

definition is_socket_connected :: "'d client \<Rightarrow> bool" where
  "is_socket_connected c = current_is (\<lambda>s. \<not> defunct s) c"

section \<open>The lock\<close>

definition lock_acquire :: "nat \<Rightarrow> 'd client \<Rightarrow> ('d, unit) client_op" where
  "lock_acquire g c =
     (case session_lock c of
        None \<Rightarrow> Ret (c\<lparr>session_lock := Some (g, 1)\<rparr>) (Inr ())
      | Some (owner, n) \<Rightarrow>
          if owner = g then Ret (c\<lparr>session_lock := Some (g, n + 1)\<rparr>) (Inr ())
          else Wait (\<lambda>c. session_lock c = None) c (\<lambda>c. Ret (c\<lparr>session_lock := Some (g, 1)\<rparr>) (Inr ())))"

definition lock_release :: "nat \<Rightarrow> 'd client \<Rightarrow> 'd client py" where
  "lock_release g c =
     (case session_lock c of
        None \<Rightarrow> Inl RuntimeError
      | Some (owner, n) \<Rightarrow>
          if owner = g then Inr (c\<lparr>session_lock := (if n = 1 then None else Some (g, n - 1))\<rparr>)
          else Inl RuntimeError)"

text \<open>The end of a \<open>with\<close> block, reached with a value or an exception.\<close>

primrec releasing :: "nat \<Rightarrow> ('d, 'a) client_op \<Rightarrow> ('d, 'a) client_op" where
  "releasing g Undefined = Undefined"
| "releasing g (Ret c r) = (case lock_release g c of Inl e \<Rightarrow> Ret c (Inl e) | Inr c \<Rightarrow> Ret c r)"
| "releasing g (Wait P c k) = Wait P c (\<lambda>c. releasing g (k c))"

definition with_lock :: "nat \<Rightarrow> 'd client \<Rightarrow> ('d client \<Rightarrow> ('d, 'a) client_op) \<Rightarrow> ('d, 'a) client_op" where
  "with_lock g c body = and_then (lock_acquire g c) (\<lambda>c _. releasing g (body c))"

text \<open>A call of the library that may let other greenlets run before it returns.\<close>

definition blocking_call :: "'a py \<Rightarrow> 'd client \<Rightarrow> ('d, 'a) client_op" where
  "blocking_call r c = Wait (\<lambda>_. True) c (\<lambda>c. Ret c r)"

section \<open>Connecting\<close>

definition clear_current_session :: "attempt \<Rightarrow> nat \<Rightarrow> 'd client \<Rightarrow> ('d, unit) client_op" where
  "clear_current_session w g c =
     (let session = current_session c in
      with_lock g c (\<lambda>c.
        if session = current_session c
        then Ret (c\<lparr>client_backoff := fst (backoff_fail (arithmetic w) (clear_random w) (client_backoff c)),
                    current_session := None\<rparr>) (Inr ())
        else Ret c (Inr ())))"

text \<open>
  \<open>while self._push_queue: session.send_push(self._push_queue.popleft())\<close>. The number bounds the pushes; when it is used up
  with pushes left the model is \<open>Undefined\<close>, so that a proof that it is not shows that the bound is enough.
\<close>

primrec flush_pushes :: "allocator \<Rightarrow> nat \<Rightarrow> nat \<Rightarrow> 'd client \<Rightarrow> ('d, unit) client_op" where
  "flush_pushes alloc i 0 c = (if push_queue c = [] then Ret c (Inr ()) else Undefined)"
| "flush_pushes alloc i (Suc n) c =
     (case push_queue c of
        [] \<Rightarrow> Ret c (Inr ())
      | d # q \<Rightarrow> and_then (on_session i (session_send_push alloc d) (c\<lparr>push_queue := q\<rparr>)) (\<lambda>c _. flush_pushes alloc i n c))"

text \<open>
  \<open>session = LoquiSocketSession(...)\<close>. The constructor starts the session's greenlets before
  it may fail, so the session exists in any case.
\<close>

definition new_session :: "attempt \<Rightarrow> 'd client \<Rightarrow> ('d, nat) client_op" where
  "new_session w c =
     (case session_cinit (att_alloc w) (att_fileno w) (client_encoders c) True False (push_handler c) of
        Ret s r \<Rightarrow> Ret (c\<lparr>sessions := sessions c @ [s]\<rparr>) (map_sum id (\<lambda>_. length (sessions c)) r)
      | _ \<Rightarrow> Undefined)"

text \<open>The body of \<open>try\<close>, up to the new session, and then.\<close>

definition open_session_call :: "attempt \<Rightarrow> 'd client \<Rightarrow> ('d, nat) client_op" where
  "open_session_call w c =
     and_then (blocking_call (connect_result w) c) (\<lambda>c _.
     and_then (if http_upgrade c then blocking_call (fst (snd (handle_new_socket (address_host c) (att_peer w)))) c
               else Ret c (Inr ())) (\<lambda>c _.
     and_then (Ret c (setblocking_result w)) (\<lambda>c _.
     new_session w c)))"

definition use_session :: "attempt \<Rightarrow> nat \<Rightarrow> 'd client \<Rightarrow> ('d, unit) client_op" where
  "use_session w i c =
     and_then (on_session i session_await_ready c) (\<lambda>c _.
     and_then (if \<not> defunct (sessions c ! i) \<and> push_queue c \<noteq> []
               then flush_pushes (att_alloc w) i (length (push_queue c)) c
               else Ret c (Inr ())) (\<lambda>c _.
     Ret (c\<lparr>client_backoff := backoff_succeed (client_backoff c), current_session := Some i\<rparr>) (Inr ())))"

definition connect_attempt :: "attempt \<Rightarrow> 'd client \<Rightarrow> ('d, unit) client_op" where
  "connect_attempt w c =
     catching (and_then (open_session_call w c) (\<lambda>c i. use_session w i c)) (\<lambda>c e.
       if e = SocketError
       then Ret (c\<lparr>client_backoff := fst (backoff_fail (arithmetic w) (fail_random w) (client_backoff c))\<rparr>)
              (Inl ConnectionError)
       else Ret c (Inl e))"

definition connect_locked :: "attempt \<Rightarrow> nat \<Rightarrow> 'd client \<Rightarrow> ('d, unit) client_op" where
  "connect_locked w g c =
     with_lock g c (\<lambda>c.
       if current_session c \<noteq> None then Ret c (Inr ())
       else if backoff_fails (client_backoff c) \<noteq> 0
       then and_then (blocking_call (Inr ()) c) (\<lambda>c _. connect_attempt w c)
       else connect_attempt w c)"

definition client_connect :: "attempt \<Rightarrow> nat \<Rightarrow> 'd client \<Rightarrow> ('d, unit) client_op" where
  "client_connect w g c =
     (if current_session c \<noteq> None then
        if current_is defunct c
        then and_then (clear_current_session w g c) (\<lambda>c _. connect_locked w g c)
        else Ret c (Inr ())
      else connect_locked w g c)"

text \<open>A spawned greenlet.\<close>

definition connect_in_greenlet :: "attempt \<Rightarrow> nat \<Rightarrow> 'd client \<Rightarrow> ('d, unit) client_op" where
  "connect_in_greenlet w g c = finally_do (\<lambda>c. c\<lparr>connect_greenlet := False\<rparr>) (client_connect w g c)"

definition connect_async :: "'d client \<Rightarrow> bool \<times> 'd client" where
  "connect_async c =
     (if current_is (\<lambda>s. \<not> defunct s \<and> is_ready s) c then (True, c)
      else if current_is (\<lambda>s. \<not> defunct s \<and> \<not> is_ready s) c then (False, c)
      else if \<not> connect_greenlet c
      then (False, c\<lparr>spawned := spawned c @ [ConnectInGreenlet], connect_greenlet := True\<rparr>)
      else (False, c))"

section \<open>Requests\<close>

text \<open>A method call on \<open>self._session\<close>; the index of the session is passed on.\<close>

definition on_current :: "('d session \<Rightarrow> ('d session, 'a) proc) \<Rightarrow> 'd client \<Rightarrow> ('d, nat \<times> 'a) client_op" where
  "on_current f c =
     (case current_session c of
        None \<Rightarrow> Undefined
      | Some i \<Rightarrow> and_then (on_session i f c) (\<lambda>c x. Ret c (Inr (i, x))))"

text \<open>\<open>AsyncResult.get\<close>. A result that has not been set is empty.\<close>

definition result_of :: "nat \<Rightarrow> nat \<Rightarrow> 'd client \<Rightarrow> 'd answer option" where
  "result_of i j c = (let rs = results (sessions c ! i) in if j < length rs then rs ! j else None)"

fun answer_value :: "'d answer \<Rightarrow> 'd answer py" where
  "answer_value (Failed e) = Inl e"
| "answer_value a = Inr a"

definition get_result :: "bool \<Rightarrow> nat \<Rightarrow> nat \<Rightarrow> 'd client \<Rightarrow> ('d, 'd answer) client_op" where
  "get_result timeout i j c =
     (case result_of i j c of
        Some a \<Rightarrow> Ret c (answer_value a)
      | None \<Rightarrow>
          Wait (\<lambda>c. result_of i j c \<noteq> None \<or> timeout) c (\<lambda>c.
            case result_of i j c of Some a \<Rightarrow> Ret c (answer_value a) | None \<Rightarrow> Ret c (Inl GeventTimeout)))"

text \<open>The subclasses of \<open>loqui.exceptions.ConnectionError\<close>.\<close>

definition is_connection_error :: "py_error \<Rightarrow> bool" where
  "is_connection_error e \<longleftrightarrow> e = ConnectionError \<or> e = StreamDefunct \<or> e = ConnectionTerminated"

definition connect_and_request :: "attempt \<Rightarrow> nat \<Rightarrow> 'd \<Rightarrow> bool \<Rightarrow> 'd client \<Rightarrow> ('d, 'd answer) client_op" where
  "connect_and_request w g data timeout c =
     and_then (client_connect w g c) (\<lambda>c _.
     and_then (on_current (session_send_request (att_alloc w) data) c) (\<lambda>c (i, j).
     get_result timeout i j c))"

text \<open>\<open>retries\<close> counts down; each attempt meets its own network.\<close>

primrec client_send_request ::
    "(nat \<Rightarrow> attempt) \<Rightarrow> nat \<Rightarrow> 'd \<Rightarrow> bool \<Rightarrow> nat \<Rightarrow> 'd client \<Rightarrow> ('d, 'd answer) client_op" where
  "client_send_request ws g data timeout 0 c = connect_and_request (ws 0) g data timeout c"
| "client_send_request ws g data timeout (Suc retries) c =
     catching (connect_and_request (ws (Suc retries)) g data timeout c) (\<lambda>c e.
       if is_connection_error e then client_send_request ws g data timeout retries c else Ret c (Inl e))"

text \<open>The Python method \<open>_connect_and_send_request_async\<close> takes one argument; CPython refuses a call with another number.\<close>

definition connect_and_send_request_async ::
    "attempt \<Rightarrow> nat \<Rightarrow> 'd pyobject list \<Rightarrow> 'd client \<Rightarrow> ('d, 'd answer) client_op" where
  "connect_and_send_request_async w g args c =
     (case args of
        [PyData request_data] \<Rightarrow> connect_and_request w g request_data False c
      | _ \<Rightarrow> Ret c (Inl TypeError))"

text \<open>
  The greenlet of a request that was made without a connection: \<open>rawlink\<close> hands its value or exception to the
  \<open>AsyncResult\<close>.
\<close>

definition set_async_result :: "nat \<Rightarrow> 'd answer \<Rightarrow> 'd client \<Rightarrow> 'd client" where
  "set_async_result k a c = c\<lparr>async_results := (async_results c)[k := Some a]\<rparr>"

definition linked :: "nat \<Rightarrow> ('d, 'd answer) client_op \<Rightarrow> ('d, unit) client_op" where
  "linked k p = catching (and_then p (\<lambda>c a. Ret (set_async_result k a c) (Inr ())))
     (\<lambda>c e. Ret (set_async_result k (Failed e) c) (Inr ()))"

fun run_spawned :: "attempt \<Rightarrow> nat \<Rightarrow> 'd spawned \<Rightarrow> 'd client \<Rightarrow> ('d, unit) client_op" where
  "run_spawned w g ConnectInGreenlet c = connect_in_greenlet w g c"
| "run_spawned w g (ConnectAndSendRequestAsync args k) c = linked k (connect_and_send_request_async w g args c)"

text \<open>The result is one of the client's own or one of a session's.\<close>

datatype async_result = OwnResult nat | SessionResult nat nat

definition client_send_request_async :: "allocator \<Rightarrow> 'd \<Rightarrow> 'd client \<Rightarrow> ('d, async_result) client_op" where
  "client_send_request_async alloc request_data c =
     (if \<not> is_socket_connected c then
        let k = length (async_results c);
            args = [PyData request_data, PyAsyncResult k]
        in Ret (c\<lparr>async_results := async_results c @ [None],
                  spawned := spawned c @ [ConnectAndSendRequestAsync args k]\<rparr>) (Inr (OwnResult k))
      else and_then (on_current (session_send_request alloc request_data) c) (\<lambda>c (i, j).
        Ret c (Inr (SessionResult i j))))"

section \<open>Pushes\<close>

text \<open>\<open>deque(maxlen=n).append\<close> drops from the other end; without a \<open>maxlen\<close> the deque is not bounded.\<close>

definition newest :: "nat option \<Rightarrow> 'd list \<Rightarrow> 'd list" where
  "newest n ds = (case n of None \<Rightarrow> ds | Some n \<Rightarrow> drop (length ds - n) ds)"

definition deque_append :: "nat option \<Rightarrow> 'd \<Rightarrow> 'd list \<Rightarrow> 'd list" where
  "deque_append n x q = newest n (q @ [x])"

definition queue_fits :: "nat option \<Rightarrow> 'd list \<Rightarrow> bool" where
  "queue_fits n q \<longleftrightarrow> (case n of None \<Rightarrow> True | Some n \<Rightarrow> length q \<le> n)"

lemma queue_fits_newest [simp]: "queue_fits n (newest n ds)" "queue_fits n (deque_append n x q)" "queue_fits n []"
  by (auto simp: queue_fits_def deque_append_def newest_def split: option.split)

lemma newest_fits [simp]: "queue_fits n q \<Longrightarrow> newest n q = q"
  by (auto simp: queue_fits_def newest_def split: option.splits)

lemma queue_fits_shorter: "queue_fits n q \<Longrightarrow> length q' \<le> length q \<Longrightarrow> queue_fits n q'"
  by (auto simp: queue_fits_def split: option.splits)

definition client_send_push :: "allocator \<Rightarrow> 'd \<Rightarrow> 'd client \<Rightarrow> ('d, unit) client_op" where
  "client_send_push alloc push_data c =
     (let (connected, c) = connect_async c in
      if \<not> connected
      then Ret (c\<lparr>push_queue := deque_append (max_push_queue_len c) push_data (push_queue c)\<rparr>) (Inr ())
      else and_then (on_current (session_send_push alloc push_data) c) (\<lambda>c _. Ret c (Inr ())))"

definition client_set_push_handler :: "bool \<Rightarrow> 'd client \<Rightarrow> 'd client" where
  "client_set_push_handler handler c =
     (let c = c\<lparr>push_handler := handler\<rparr> in
      case current_session c of
        None \<Rightarrow> c
      | Some i \<Rightarrow> c\<lparr>sessions := (sessions c)[i := set_push_handler (sessions c ! i)]\<rparr>)"

end
