(* ===== verification/Loqui_Greenlets.thy ===== *)
theory Loqui_Greenlets
  imports Loqui_Client Loqui_Invariant
begin

text \<open>
  The client's greenlets. Each runs one call, from one wait to the next without interruption. The proof is by rely and
  guarantee: a greenlet relies on what the others leave alone while it waits (\<open>rely\<close>), and
  each of its stretches keeps that for the others (\<open>guar\<close>).
\<close>

section \<open>The invariant of the client\<close>

text \<open>How often a greenlet has acquired the lock.\<close>

definition held :: "nat \<Rightarrow> 'd client \<Rightarrow> nat" where
  "held g c = (case session_lock c of None \<Rightarrow> 0 | Some (owner, n) \<Rightarrow> if owner = g then n else 0)"

definition client_inv :: "'d client \<Rightarrow> bool" where
  "client_inv c \<longleftrightarrow>
     list_all (session_inv True) (sessions c) \<and>
     (\<forall>i. current_session c = Some i \<longrightarrow> i < length (sessions c)) \<and>
     (\<forall>g n. session_lock c = Some (g, n) \<longrightarrow> 0 < n) \<and>
     queue_fits (max_push_queue_len c) (push_queue c)"

lemma client_inv_session: "client_inv c \<Longrightarrow> i < length (sessions c) \<Longrightarrow> session_inv True (sessions c ! i)"
  by (simp add: client_inv_def list_all_length)

lemma client_inv_init [simp]: "client_inv (client_init R host h n encs up)"
  by (simp add: client_inv_def client_init_def)

lemma client_inv_put:
  "client_inv c \<Longrightarrow> session_inv True s \<Longrightarrow> client_inv (c\<lparr>sessions := (sessions c)[i := s]\<rparr>)"
  by (auto simp: client_inv_def list_all_iff dest!: set_update_subset_insert [THEN subsetD])

lemma held_lock: "0 < held g c \<Longrightarrow> session_lock c = Some (g, held g c)"
  by (auto simp: held_def split: option.splits if_splits)

lemma held_other: "0 < held g c \<Longrightarrow> h \<noteq> g \<Longrightarrow> held h c = 0"
  by (auto simp: held_def split: option.splits if_splits)

section \<open>Rely and guarantee\<close>

definition rely :: "nat \<Rightarrow> 'd client \<Rightarrow> 'd client \<Rightarrow> bool" where
  "rely g c t \<longleftrightarrow>
     held g t = held g c \<and> length (sessions c) \<le> length (sessions t) \<and>
     (0 < held g c \<longrightarrow> current_session t = current_session c)"

definition guar :: "nat \<Rightarrow> 'd client \<Rightarrow> 'd client \<Rightarrow> bool" where
  "guar g c t \<longleftrightarrow> client_inv t \<and> (\<forall>h. h \<noteq> g \<longrightarrow> rely h c t)"

lemma rely_refl [simp]: "rely g c c"
  by (simp add: rely_def)

lemma rely_trans: "rely g a b \<Longrightarrow> rely g b c \<Longrightarrow> rely g a c"
  by (auto simp: rely_def)

lemma guar_refl [simp]: "guar g c c \<longleftrightarrow> client_inv c"
  by (simp add: guar_def)

lemma guar_trans: "guar g a b \<Longrightarrow> guar g b c \<Longrightarrow> guar g a c"
  by (auto simp: guar_def intro: rely_trans)

lemma guar_inv: "guar g c t \<Longrightarrow> client_inv t"
  by (simp add: guar_def)

text \<open>Changes that concern neither the lock nor the current session, and that lose no session.\<close>

lemma guar_other_fields:
  "client_inv t \<Longrightarrow> session_lock t = session_lock c \<Longrightarrow> current_session t = current_session c \<Longrightarrow>
     length (sessions c) \<le> length (sessions t) \<Longrightarrow> guar g c t"
  by (simp add: guar_def rely_def held_def)

lemma held_cong: "session_lock t = session_lock c \<Longrightarrow> held g t = held g c"
  by (simp add: held_def)

text \<open>Changes of the owner of the lock.\<close>

lemma guar_owner:
  assumes "client_inv t" and "0 < held g c" and "session_lock t = session_lock c" and "length (sessions c) \<le> length (sessions t)"
  shows "guar g c t"
proof -
  have "held h c = 0" if "h \<noteq> g" for h using held_other [OF assms(2) that] .
  then show ?thesis using assms held_cong [OF assms(3)] by (simp add: guar_def rely_def)
qed

text \<open>
  A safe process of a greenlet is never undefined, each stretch of it keeps the guarantee, and
  it ends with its postcondition. While it holds the lock it waits for nothing but the library or a session's ready event.
\<close>

definition wait_ok :: "nat \<Rightarrow> ('d client \<Rightarrow> bool) \<Rightarrow> 'd client \<Rightarrow> bool" where
  "wait_ok g P s \<longleftrightarrow>
     (0 < held g s \<longrightarrow> (\<forall>t. P t) \<or> (\<exists>i < length (sessions s). P = (\<lambda>t. ready_event (sessions t ! i))))"

primrec safe :: "nat \<Rightarrow> ('d client \<Rightarrow> 'a py \<Rightarrow> bool) \<Rightarrow> ('d, 'a) client_op \<Rightarrow> 'd client \<Rightarrow> bool" where
  "safe g Q Undefined c = False"
| "safe g Q (Ret s r) c = (guar g c s \<and> Q s r)"
| "safe g Q (Wait P s k) c =
     (guar g c s \<and> wait_ok g P s \<and> (\<forall>t. client_inv t \<and> rely g s t \<and> P t \<longrightarrow> safe g Q (k t) t))"

lemma safe_from: "guar g c s \<Longrightarrow> safe g Q p s \<Longrightarrow> safe g Q p c"
  by (cases p) (auto intro: guar_trans)

lemma safe_mono: "safe g Q p c \<Longrightarrow> (\<And>s r. client_inv s \<Longrightarrow> Q s r \<Longrightarrow> Q' s r) \<Longrightarrow> safe g Q' p c"
  by (induction p arbitrary: c) (auto dest: guar_inv)

lemma safe_and_then:
  assumes "safe g Q p c" and "\<And>s x. client_inv s \<Longrightarrow> Q s (Inr x) \<Longrightarrow> safe g Q' (f s x) s"
    and "\<And>s e. client_inv s \<Longrightarrow> Q s (Inl e) \<Longrightarrow> Q' s (Inl e)"
  shows "safe g Q' (and_then p f) c"
  using assms(1)
proof (induction p arbitrary: c)
  case (Ret s r)
  then have "guar g c s" "client_inv s" "Q s r" by (auto dest: guar_inv)
  then show ?case using assms(2,3) by (cases r) (auto intro: safe_from)
qed auto

lemma safe_catching:
  assumes "safe g Q p c" and "\<And>s e. client_inv s \<Longrightarrow> Q s (Inl e) \<Longrightarrow> safe g Q' (f s e) s"
    and "\<And>s x. client_inv s \<Longrightarrow> Q s (Inr x) \<Longrightarrow> Q' s (Inr x)"
  shows "safe g Q' (catching p f) c"
  using assms(1)
proof (induction p arbitrary: c)
  case (Ret s r)
  then have "guar g c s" "client_inv s" "Q s r" by (auto dest: guar_inv)
  then show ?case using assms(2,3) by (cases r) (auto intro: safe_from)
qed auto

lemma safe_finally:
  assumes "safe g Q p c" and "\<And>s r. client_inv s \<Longrightarrow> Q s r \<Longrightarrow> guar g s (f s) \<and> Q' (f s) r"
  shows "safe g Q' (finally_do f p) c"
  using assms by (induction p arbitrary: c) (auto dest: guar_inv intro: guar_trans)

section \<open>The lock\<close>

lemma lock_acquire_safe:
  assumes "client_inv c"
  shows "safe g (\<lambda>s r. held g s = Suc (held g c) \<and> r = Inr ()) (lock_acquire g c) c"
proof (cases "session_lock c = None \<or> (\<exists>n. session_lock c = Some (g, n))")
  case True
  have "guar g c (c\<lparr>session_lock := Some (g, n)\<rparr>)" if "0 < n" for n
    using assms that True by (auto simp: guar_def rely_def held_def client_inv_def)
  then show ?thesis using True by (auto simp: lock_acquire_def held_def)
next
  case False
  then have "held g c = 0" by (auto simp: held_def split: option.split)
  moreover have "guar g t (t\<lparr>session_lock := Some (g, 1)\<rparr>)" if "client_inv t" "session_lock t = None" for t :: "'a client"
    using that by (auto simp: guar_def rely_def held_def client_inv_def)
  ultimately show ?thesis
    using False assms by (auto simp: lock_acquire_def wait_ok_def held_def split: option.split)
qed

lemma releasing_safe:
  assumes "safe g (\<lambda>s r. held g s = Suc n \<and> Q s r) p c" and "\<And>s r l. Q s r \<Longrightarrow> Q (s\<lparr>session_lock := l\<rparr>) r"
  shows "safe g (\<lambda>s r. held g s = n \<and> Q s r) (releasing g p) c"
  using assms(1)
proof (induction p arbitrary: c)
  case (Ret s r)
  let ?s = "s\<lparr>session_lock := (if Suc n = 1 then None else Some (g, Suc n - 1))\<rparr>"
  have s: "guar g c s" "held g s = Suc n" "Q s r" using Ret by auto
  have l: "session_lock s = Some (g, Suc n)" using held_lock [of g s] s(2) by simp
  have "guar g s ?s"
    using guar_inv [OF s(1)] l by (auto simp: guar_def rely_def held_def client_inv_def)
  then show ?case
    using s l assms(2) [OF s(3)] by (auto simp: lock_release_def held_def intro: guar_trans)
qed auto

lemma with_lock_safe:
  assumes "client_inv c" and "held g c = n" and "\<And>s r l. Q s r \<Longrightarrow> Q (s\<lparr>session_lock := l\<rparr>) r"
    and "\<And>s. client_inv s \<Longrightarrow> held g s = Suc n \<Longrightarrow> safe g (\<lambda>s r. held g s = Suc n \<and> Q s r) (body s) s"
  shows "safe g (\<lambda>s r. held g s = n \<and> Q s r) (with_lock g c body) c"
  unfolding with_lock_def
proof (rule safe_and_then [OF safe_mono [OF lock_acquire_safe [OF assms(1)]]])
  show "safe g (\<lambda>s r. held g s = n \<and> Q s r) (releasing g (body s)) s"
    if "client_inv s" "held g s = Suc (held g c) \<and> Inr x = Inr ()" for s x
    using releasing_safe [OF assms(4) assms(3)] that assms(2) by simp
qed auto

section \<open>Calls of a session\<close>

lemma at_session_safe:
  assumes "client_inv c" and "i < length (sessions c)" and "held g c = 0" and "keeps (session_inv True) p"
  shows "safe g (\<lambda>s r. held g s = 0) (at_session i p c) c"
  using assms
proof (induction p arbitrary: c)
  case (Ret s r)
  then have "client_inv (c\<lparr>sessions := (sessions c)[i := s]\<rparr>)" by (simp add: client_inv_put)
  then show ?case using Ret by (auto intro!: guar_other_fields simp: held_def)
next
  case (Wait P s k)
  let ?c = "c\<lparr>sessions := (sessions c)[i := s]\<rparr>"
  have inv: "client_inv ?c" using Wait.prems by (simp add: client_inv_put)
  have held: "held g ?c = 0" using Wait.prems(3) by (simp add: held_def)
  have "safe g (\<lambda>s r. held g s = 0) (at_session i (k (sessions t ! i)) t) t"
    if t: "client_inv t" "rely g ?c t" "P (sessions t ! i)" for t
  proof (rule Wait.IH)
    show i: "i < length (sessions t)" using t(2) Wait.prems(2) by (simp add: rely_def)
    show "held g t = 0" using t(2) held by (simp add: rely_def)
    show "keeps (session_inv True) (k (sessions t ! i))"
      using Wait.prems(4) client_inv_session [OF t(1) i] t(3) by simp
  qed (use t in auto)
  moreover have "guar g c ?c" using inv by (intro guar_other_fields) simp_all
  ultimately show ?case using held by (simp add: wait_ok_def)
qed simp

lemma on_session_safe:
  assumes "client_inv c" and "i < length (sessions c)" and "held g c = 0"
    and "\<And>s. session_inv True s \<Longrightarrow> keeps (session_inv True) (f s)"
  shows "safe g (\<lambda>s r. held g s = 0) (on_session i f c) c"
  using assms at_session_safe [OF assms(1-3)] client_inv_session by (auto simp: on_session_def)

lemma put_same [simp]: "c\<lparr>sessions := (sessions c)[i := sessions c ! i]\<rparr> = c"
  by simp

lemma await_ready_safe:
  assumes "client_inv c" and "i < length (sessions c)"
  shows "safe g (\<lambda>s r. held g s = held g c \<and> length (sessions c) \<le> length (sessions s) \<and>
    ready_event (sessions s ! i) \<and> r = Inr ()) (on_session i session_await_ready c) c"
proof -
  have r: "ready_event (sessions c ! i)" if "is_ready (sessions c ! i)"
    using client_inv_session [OF assms] that by (simp add: session_inv_defs)
  show ?thesis
    using assms r
    by (auto simp: on_session_def session_await_ready_def await_ready_def wait_ok_def rely_def)
qed

text \<open>A push over a session that is ready does not wait.\<close>

lemma send_push_ready:
  fixes s :: "'d session"
  assumes "session_inv cl s" and "is_ready s" and "\<not> defunct s" and "alloc_sane alloc"
  obtains s' r where "session_send_push alloc d s = Ret s' r" and "session_inv cl s'" and "is_ready s'" and "\<not> defunct s'"
proof -
  obtain dumps where dumps: "encoder_dumps s = Some dumps" using assms(1,2) by (auto simp: session_inv_defs)
  then have e: "encode_data d s = Ret s (map_sum id (\<lambda>b. (0, b)) (dumps d))"
    using assms(2) by (simp add: encode_data_def await_ready_def)
  show ?thesis
  proof (cases "dumps d")
    case (Inl x)
    then show ?thesis using that [of s "Inl x"] assms e by (simp add: session_send_push_def)
  next
    case (Inr b)
    obtain h v where h: "send_push alloc (stream s) 0 b = Some (h, v)" "session_inv cl (s\<lparr>stream := h\<rparr>)"
      using send_push_keeps(1) [OF assms(1,4), of 0 b] by (auto simp: on_stream_def split: option.splits)
    then have r: "session_send_push alloc d s = (case except0 v of
        Inl e \<Rightarrow> Ret (s\<lparr>stream := h\<rparr>) (Inl e) | Inr _ \<Rightarrow> Ret (resume_sending (s\<lparr>stream := h\<rparr>)) (Inr ()))"
      using assms(3) e Inr by (simp add: session_send_push_def on_stream_def)
    have k: "is_ready (resume_sending t) = is_ready t" "defunct (resume_sending t) = defunct t" for t :: "'d session"
      by (simp_all add: resume_sending_def defunct_def)
    have "is_ready (s\<lparr>stream := h\<rparr>)" "\<not> defunct (s\<lparr>stream := h\<rparr>)"
      using assms by (auto simp: defunct_def split: if_splits)
    then show ?thesis
      using that [OF r [THEN trans]] h(2) resume_sending_inv [OF h(2)] k [of "s\<lparr>stream := h\<rparr>"] r
      by (cases "except0 v") (auto intro: that)
  qed
qed

text \<open>What the queued pushes leave. The bound of the loop is enough.\<close>

lemma flush_pushes_result:
  assumes "client_inv c" and "i < length (sessions c)" and "is_ready (sessions c ! i)" and "\<not> defunct (sessions c ! i)"
    and "alloc_sane alloc" and "length (push_queue c) \<le> n"
  shows "\<exists>s q r. flush_pushes alloc i n c = Ret (c\<lparr>sessions := (sessions c)[i := s], push_queue := q\<rparr>) r \<and>
    session_inv True s \<and> length q \<le> length (push_queue c)"
  using assms
proof (induction n arbitrary: c)
  case 0
  then show ?case
    using client_inv_session [OF 0(1,2)] by (intro exI [of _ "sessions c ! i"] exI [of _ "[]"] exI [of _ "Inr ()"]) simp
next
  case (Suc n)
  note inv = client_inv_session [OF Suc.prems(1,2)]
  show ?case
  proof (cases "push_queue c")
    case Nil
    then show ?thesis
      using inv by (intro exI [of _ "sessions c ! i"] exI [of _ "[]"] exI [of _ "Inr ()"]) simp
  next
    case (Cons d q)
    obtain s r where s: "session_send_push alloc d (sessions c ! i) = Ret s r" "session_inv True s" "is_ready s" "\<not> defunct s"
      by (rule send_push_ready [OF inv Suc.prems(3-5)])
    let ?c = "c\<lparr>push_queue := q, sessions := (sessions c)[i := s]\<rparr>"
    have p: "on_session i (session_send_push alloc d) (c\<lparr>push_queue := q\<rparr>) = Ret ?c r"
      using Suc.prems(2) s(1) by (simp add: on_session_def)
    show ?thesis
    proof (cases r)
      case (Inl e)
      then show ?thesis using p Cons s(2) by (intro exI [of _ s] exI [of _ q] exI [of _ "Inl e"]) simp
    next
      case (Inr u)
      have "client_inv ?c"
        using client_inv_put [OF Suc.prems(1) s(2), of i] Cons by (auto simp: client_inv_def elim!: queue_fits_shorter)
      then obtain s' q' r' where "flush_pushes alloc i n ?c =
          Ret (?c\<lparr>sessions := (sessions ?c)[i := s'], push_queue := q'\<rparr>) r'" "session_inv True s'" "length q' \<le> length q"
        using Suc.IH [of ?c] Suc.prems(2,5,6) s Cons by auto
      then show ?thesis
        using p Cons Inr by (intro exI [of _ s'] exI [of _ q'] exI [of _ r']) simp
    qed
  qed
qed

section \<open>Connecting\<close>

definition sane_attempt :: "attempt \<Rightarrow> bool" where
  "sane_attempt w \<longleftrightarrow> alloc_sane (att_alloc w)"

text \<open>A call that ends as it began; and one that, when it does not raise, leaves a session.\<close>

abbreviation ends_with :: "nat \<Rightarrow> nat \<Rightarrow> 'd client \<Rightarrow> 'a py \<Rightarrow> bool" where
  "ends_with g n s r \<equiv> held g s = n"

definition has_session :: "'d client \<Rightarrow> unit py \<Rightarrow> bool" where
  "has_session s r \<longleftrightarrow> (r = Inr () \<longrightarrow> current_session s \<noteq> None)"

abbreviation with_session :: "nat \<Rightarrow> nat \<Rightarrow> 'd client \<Rightarrow> unit py \<Rightarrow> bool" where
  "with_session g n s r \<equiv> held g s = n \<and> has_session s r"

lemma has_session_simps [simp]:
  "has_session s (Inl e)" "current_session s = Some i \<Longrightarrow> has_session s r" "has_session (s\<lparr>session_lock := l\<rparr>) r = has_session s r"
  by (simp_all add: has_session_def)

lemma blocking_call_safe:
  "client_inv c \<Longrightarrow> held g c = n \<Longrightarrow> safe g (\<lambda>s x. held g s = n \<and> x = r) (blocking_call r c) c"
  by (simp add: blocking_call_def wait_ok_def rely_def)

lemma new_session_safe:
  assumes "client_inv c" and "held g c = n" and "sane_attempt w"
  shows "safe g (\<lambda>s r. held g s = n \<and> (\<forall>i. r = Inr i \<longrightarrow> i < length (sessions s))) (new_session w c) c"
proof -
  obtain s r where s: "session_cinit (att_alloc w) (att_fileno w) (client_encoders c) True False (push_handler c) = Ret s r"
    "session_inv True s"
  proof (cases "session_cinit (att_alloc w) (att_fileno w) (client_encoders c) True False (push_handler c)")
    case (Wait P t k)
    then show ?thesis
      by (auto simp: session_cinit_def session_send_hello_def Let_def on_stream_def split: option.splits sum.splits)
  qed (use session_cinit_keeps [of "att_alloc w" True "att_fileno w" "client_encoders c" False "push_handler c"] assms(3) that
       in \<open>auto simp: sane_attempt_def\<close>)
  let ?c = "c\<lparr>sessions := sessions c @ [s]\<rparr>"
  have "client_inv ?c" using assms(1) s(2) by (auto simp: client_inv_def less_Suc_eq)
  then have "guar g c ?c" by (intro guar_other_fields) simp_all
  then show ?thesis using s assms(2) by (cases r) (auto simp: new_session_def held_def)
qed

lemma open_session_safe:
  assumes "client_inv c" and "held g c = n" and "sane_attempt w"
  shows "safe g (\<lambda>s r. held g s = n \<and> (\<forall>i. r = Inr i \<longrightarrow> i < length (sessions s))) (open_session_call w c) c"
proof -
  have up: "safe g (ends_with g n) (if http_upgrade s
      then blocking_call (fst (snd (handle_new_socket (address_host s) (att_peer w)))) s else Ret s (Inr ())) s"
    if "client_inv s" "held g s = n" for s :: "'a client"
    using that by (simp add: safe_mono [OF blocking_call_safe [OF that]])
  show ?thesis
    unfolding open_session_call_def
    by (rule safe_and_then [OF blocking_call_safe [OF assms(1,2)]], rule safe_and_then [OF up])
      (use assms(3) in \<open>auto split: sum.split intro: new_session_safe
        simp: safe_and_then [where p = "Ret _ _" and Q = "\<lambda>_ _. True"]\<close>)
qed

lemma use_session_safe:
  assumes "client_inv c" and "held g c = n" and "0 < n" and "i < length (sessions c)" and "sane_attempt w"
  shows "safe g (with_session g n) (use_session w i c) c"
proof -
  have flush: "safe g (\<lambda>s r. held g s = n \<and> i < length (sessions s))
      (if \<not> defunct (sessions s ! i) \<and> push_queue s \<noteq> [] then flush_pushes (att_alloc w) i (length (push_queue s)) s
       else Ret s (Inr ())) s"
    if s: "client_inv s" "held g s = n" "i < length (sessions s)" "ready_event (sessions s ! i)" for s :: "'a client"
  proof (cases "defunct (sessions s ! i)")
    case False
    then have "is_ready (sessions s ! i)"
      using client_inv_session [OF s(1,3)] s(4) by (auto simp: session_inv_defs defunct_def)
    then obtain t q r where f: "flush_pushes (att_alloc w) i (length (push_queue s)) s =
        Ret (s\<lparr>sessions := (sessions s)[i := t], push_queue := q\<rparr>) r" "session_inv True t" "length q \<le> length (push_queue s)"
      using flush_pushes_result [OF s(1,3) _ False, of "att_alloc w" "length (push_queue s)"] assms(5)
      by (auto simp: sane_attempt_def)
    have "client_inv (s\<lparr>sessions := (sessions s)[i := t], push_queue := q\<rparr>)"
      using client_inv_put [OF s(1) f(2), of i] f(3) by (auto simp: client_inv_def elim!: queue_fits_shorter)
    then have "guar g s (s\<lparr>sessions := (sessions s)[i := t], push_queue := q\<rparr>)"
      by (intro guar_other_fields) simp_all
    then show ?thesis using s f(1) by (simp add: held_def)
  qed (use s in simp)
  have set: "guar g s (s\<lparr>client_backoff := b, current_session := Some i\<rparr>)"
    if "client_inv s" "held g s = n" "i < length (sessions s)" for s :: "'a client" and b
    using that assms(3) by (intro guar_owner) (auto simp: client_inv_def)
  show ?thesis
    unfolding use_session_def
    by (rule safe_and_then [OF await_ready_safe [OF assms(1,4)]], rule safe_and_then [OF flush])
      (use assms(2,4) set in \<open>auto simp: held_def\<close>)
qed

lemma connect_attempt_safe:
  assumes "client_inv c" and "held g c = n" and "0 < n" and "sane_attempt w"
  shows "safe g (with_session g n) (connect_attempt w c) c"
proof -
  have fail: "guar g s (s\<lparr>client_backoff := b\<rparr>)" if "client_inv s" for s :: "'a client" and b
    using that by (intro guar_other_fields) (auto simp: client_inv_def)
  have "safe g (with_session g n) (and_then (open_session_call w c) (\<lambda>c i. use_session w i c)) c"
    by (rule safe_and_then [OF open_session_safe [OF assms(1,2,4)]]) (use assms(3,4) in \<open>auto intro: use_session_safe\<close>)
  then show ?thesis
    unfolding connect_attempt_def by (rule safe_catching) (use fail in \<open>auto simp: held_def\<close>)
qed

lemma connect_locked_safe:
  assumes "client_inv c" and "held g c = n" and "sane_attempt w"
  shows "safe g (with_session g n) (connect_locked w g c) c"
  unfolding connect_locked_def
proof (rule with_lock_safe [OF assms(1,2)])
  fix s :: "'a client"
  assume s: "client_inv s" "held g s = Suc n"
  have "safe g (with_session g (Suc n)) (and_then (blocking_call (Inr ()) s) (\<lambda>c _. connect_attempt w c)) s"
    by (rule safe_and_then [OF blocking_call_safe [OF s]]) (auto intro: connect_attempt_safe assms(3))
  then show "safe g (with_session g (Suc n)) (if current_session s \<noteq> None then Ret s (Inr ())
      else if backoff_fails (client_backoff s) \<noteq> 0 then and_then (blocking_call (Inr ()) s) (\<lambda>c _. connect_attempt w c)
      else connect_attempt w s) s"
    using s connect_attempt_safe [OF s _ assms(3)] by auto
qed simp

lemma client_connect_safe:
  assumes "client_inv c" and "held g c = n" and "sane_attempt w"
  shows "safe g (with_session g n) (client_connect w g c) c"
proof -
  have "safe g (ends_with g n) (clear_current_session w g c) c"
    unfolding clear_current_session_def Let_def
  proof (rule safe_mono [OF with_lock_safe [OF assms(1,2), where Q = "\<lambda>_ _. True"]])
    fix s :: "'a client"
    assume s: "client_inv s" "held g s = Suc n"
    have "guar g s (s\<lparr>client_backoff := b, current_session := None\<rparr>)" for b
      using s by (intro guar_owner) (auto simp: client_inv_def)
    then show "safe g (\<lambda>s r. held g s = Suc n \<and> True) (if current_session c = current_session s
        then Ret (s\<lparr>client_backoff := fst (backoff_fail (arithmetic w) (clear_random w) (client_backoff s)), current_session := None\<rparr>) (Inr ())
        else Ret s (Inr ())) s"
      using s by (simp add: held_def)
  qed auto
  then have "safe g (with_session g n) (and_then (clear_current_session w g c) (\<lambda>c _. connect_locked w g c)) c"
    by (rule safe_and_then) (auto intro: connect_locked_safe assms(3))
  then show ?thesis
    using assms connect_locked_safe [OF assms] by (auto simp: client_connect_def)
qed

section \<open>Requests and pushes\<close>

lemma get_result_safe: "client_inv c \<Longrightarrow> held g c = 0 \<Longrightarrow> safe g (ends_with g 0) (get_result timeout i j c) c"
  by (auto simp: get_result_def wait_ok_def rely_def split: option.split)

lemma on_current_safe:
  assumes "client_inv c" and "held g c = 0" and "current_session c \<noteq> None"
    and "\<And>s. session_inv True s \<Longrightarrow> keeps (session_inv True) (f s)"
  shows "safe g (ends_with g 0) (on_current f c) c"
proof -
  obtain i where i: "current_session c = Some i" "i < length (sessions c)"
    using assms(1,3) by (auto simp: client_inv_def)
  have "safe g (ends_with g 0) (and_then (on_session i f c) (\<lambda>c x. Ret c (Inr (i, x)))) c"
    by (rule safe_and_then [OF on_session_safe [OF assms(1) i(2) assms(2,4)]]) auto
  then show ?thesis by (simp add: on_current_def i(1))
qed

lemma connect_and_request_safe:
  assumes "client_inv c" and "held g c = 0" and "sane_attempt w"
  shows "safe g (ends_with g 0) (connect_and_request w g data timeout c) c"
  unfolding connect_and_request_def
proof (rule safe_and_then [OF client_connect_safe [OF assms]])
  fix s :: "'a client" and x
  assume s: "client_inv s" "with_session g 0 s (Inr x)"
  then have "safe g (ends_with g 0) (on_current (session_send_request (att_alloc w) data) s) s"
    using assms(3) by (intro on_current_safe session_send_request_keeps) (auto simp: has_session_def sane_attempt_def)
  then show "safe g (ends_with g 0) (and_then (on_current (session_send_request (att_alloc w) data) s)
      (\<lambda>c (i, j). get_result timeout i j c)) s"
    by (rule safe_and_then) (auto intro: get_result_safe)
qed simp

lemma client_send_request_safe:
  assumes "client_inv c" and "held g c = 0" and "\<And>k. sane_attempt (ws k)"
  shows "safe g (ends_with g 0) (client_send_request ws g data timeout n c) c"
  using assms(1,2)
proof (induction n arbitrary: c)
  case (Suc n)
  show ?case
    unfolding client_send_request.simps
    by (rule safe_catching [OF connect_and_request_safe [OF Suc.prems assms(3)]]) (use Suc.IH in auto)
qed (simp add: connect_and_request_safe assms(3))

lemma guar_lock_free_fields:
  "client_inv c \<Longrightarrow> client_inv t \<Longrightarrow> session_lock t = session_lock c \<Longrightarrow> current_session t = current_session c \<Longrightarrow>
    sessions t = sessions c \<Longrightarrow> held g c = 0 \<Longrightarrow> safe g (ends_with g 0) (Ret t r) c"
  by (simp add: guar_other_fields held_def)

lemma current_is_some: "current_is P c \<Longrightarrow> current_session c \<noteq> None"
  by (auto simp: current_is_def split: option.splits)

lemma client_send_push_safe:
  assumes "client_inv c" and "held g c = 0" and "alloc_sane alloc"
  shows "safe g (ends_with g 0) (client_send_push alloc d c) c"
proof (cases "current_is (\<lambda>s. \<not> defunct s \<and> is_ready s) c")
  case True
  have "safe g (ends_with g 0) (and_then (on_current (session_send_push alloc d) c) (\<lambda>c _. Ret c (Inr ()))) c"
    by (rule safe_and_then [OF on_current_safe [OF assms(1,2) current_is_some [OF True]]])
      (auto intro: session_send_push_keeps assms(3))
  then show ?thesis using True by (simp add: client_send_push_def connect_async_def)
next
  case False
  have "client_inv (c\<lparr>push_queue := deque_append (max_push_queue_len c) d (push_queue c)\<rparr>)"
    "client_inv (c\<lparr>spawned := spawned c @ [ConnectInGreenlet], connect_greenlet := True,
       push_queue := deque_append (max_push_queue_len c) d (push_queue c)\<rparr>)"
    using assms(1) by (simp_all add: client_inv_def)
  then show ?thesis
    using False assms(1,2)
    by (auto simp: client_send_push_def connect_async_def Let_def simp del: safe.simps intro!: guar_lock_free_fields)
qed

lemma client_send_request_async_safe:
  assumes "client_inv c" and "held g c = 0" and "alloc_sane alloc"
  shows "safe g (ends_with g 0) (client_send_request_async alloc d c) c"
proof (cases "is_socket_connected c")
  case True
  have "safe g (ends_with g 0) (and_then (on_current (session_send_request alloc d) c)
      (\<lambda>c (i, j). Ret c (Inr (SessionResult i j)))) c"
    by (rule safe_and_then [OF on_current_safe [OF assms(1,2)]])
      (use True in \<open>auto intro: session_send_request_keeps assms(3) dest: current_is_some simp: is_socket_connected_def\<close>)
  then show ?thesis using True by (simp add: client_send_request_async_def)
next
  case False
  have "client_inv (c\<lparr>async_results := r, spawned := s\<rparr>)" for r s
    using assms(1) by (simp add: client_inv_def)
  then show ?thesis
    using False assms(1,2)
    by (auto simp: client_send_request_async_def Let_def simp del: safe.simps intro!: guar_lock_free_fields)
qed

lemma run_spawned_safe:
  assumes "client_inv c" and "held g c = 0" and "sane_attempt w"
  shows "safe g (ends_with g 0) (run_spawned w g sp c) c"
proof (cases sp)
  case ConnectInGreenlet
  have "guar g s (s\<lparr>connect_greenlet := False\<rparr>)" if "client_inv s" for s :: "'a client"
    using that by (intro guar_other_fields) (auto simp: client_inv_def)
  then show ?thesis
    unfolding ConnectInGreenlet run_spawned.simps connect_in_greenlet_def
    by (intro safe_finally [OF client_connect_safe [OF assms]]) (auto simp: held_def)
next
  case (ConnectAndSendRequestAsync args k)
  have a: "safe g (ends_with g 0) (connect_and_send_request_async w g args c) c"
    using connect_and_request_safe [OF assms, of _ False] assms(1,2)
    by (auto simp: connect_and_send_request_async_def split: list.split pyobject.split)
  have set: "guar g s (set_async_result k x s)" "held g (set_async_result k x s) = held g s"
    if "client_inv s" for s :: "'a client" and x
    using that by (auto intro!: guar_other_fields simp: client_inv_def set_async_result_def held_def)
  show ?thesis
    unfolding ConnectAndSendRequestAsync run_spawned.simps linked_def
    by (rule safe_catching [OF safe_and_then [OF a]]) (use set in auto)
qed

lemma client_set_push_handler_safe:
  assumes "client_inv c" and "held g c = 0"
  shows "safe g (ends_with g 0) (Ret (client_set_push_handler b c) r) c"
proof -
  let ?c = "c\<lparr>push_handler := b\<rparr>"
  have c: "client_inv ?c" using assms(1) by (simp add: client_inv_def)
  have "client_inv (client_set_push_handler b c)"
    using c client_inv_put [OF c set_push_handler_inv [OF client_inv_session [OF c]]]
    by (auto simp: client_set_push_handler_def Let_def client_inv_def split: option.split)
  then have "guar g c (client_set_push_handler b c)"
    by (intro guar_other_fields) (auto simp: client_set_push_handler_def Let_def split: option.split)
  then show ?thesis
    using assms(2) by (auto simp: client_set_push_handler_def Let_def held_def split: option.split)
qed

section \<open>Interleavings\<close>

text \<open>
  What can happen to a client: the calls of the application, the start of a spawned call, and anything that
  happens to one of its sessions, the one it uses or one it has lost.
\<close>

datatype 'd client_action =
    Request "nat \<Rightarrow> attempt" 'd bool nat
  | RequestAsync allocator 'd
  | Push allocator 'd
  | PushHandler bool
  | Start nat attempt
  | OnSession nat allocator "'d action"

fun client_act :: "bool \<Rightarrow> 'd callbacks \<Rightarrow> nat \<Rightarrow> 'd client_action \<Rightarrow> 'd client \<Rightarrow> ('d, unit) client_op" where
  "client_act py3 cb g (Request ws d timeout retries) c = ignoring (client_send_request ws g d timeout retries c)"
| "client_act py3 cb g (RequestAsync alloc d) c = ignoring (client_send_request_async alloc d c)"
| "client_act py3 cb g (Push alloc d) c = client_send_push alloc d c"
| "client_act py3 cb g (PushHandler b) c = Ret (client_set_push_handler b c) (Inr ())"
| "client_act py3 cb g (Start j w) c =
     run_spawned w g (spawned c ! j) (c\<lparr>spawned := take j (spawned c) @ drop (Suc j) (spawned c)\<rparr>)"
| "client_act py3 cb g (OnSession i alloc a) c = on_session i (act alloc py3 cb a) c"

fun client_allowed :: "'d client_action \<Rightarrow> 'd client \<Rightarrow> bool" where
  "client_allowed (Request ws d timeout retries) c = (\<forall>k. sane_attempt (ws k))"
| "client_allowed (RequestAsync alloc d) c = alloc_sane alloc"
| "client_allowed (Push alloc d) c = alloc_sane alloc"
| "client_allowed (PushHandler b) c = True"
| "client_allowed (Start j w) c = (j < length (spawned c) \<and> sane_attempt w)"
| "client_allowed (OnSession i alloc a) c =
     (i < length (sessions c) \<and> alloc_sane alloc \<and> allowed alloc a (sessions c ! i))"

lemma client_act_safe:
  assumes "client_inv c" and "held g c = 0" and "callbacks_keep cb" and "client_allowed a c"
  shows "safe g (ends_with g 0) (client_act py3 cb g a c) c"
proof (cases a)
  case (Request ws d timeout retries)
  have "safe g (ends_with g 0) (client_send_request ws g d timeout retries c) c"
    using assms Request by (intro client_send_request_safe) auto
  then show ?thesis unfolding Request client_act.simps ignoring_def by (rule safe_and_then) auto
next
  case (RequestAsync alloc d)
  have "safe g (ends_with g 0) (client_send_request_async alloc d c) c"
    using assms RequestAsync by (intro client_send_request_async_safe) auto
  then show ?thesis unfolding RequestAsync client_act.simps ignoring_def by (rule safe_and_then) auto
next
  case (Push alloc d)
  then show ?thesis using assms by (auto intro: client_send_push_safe)
next
  case (PushHandler b)
  then show ?thesis using client_set_push_handler_safe [OF assms(1,2)] by simp
next
  case (Start j w)
  let ?c = "c\<lparr>spawned := take j (spawned c) @ drop (Suc j) (spawned c)\<rparr>"
  have c: "client_inv ?c" using assms(1) by (simp add: client_inv_def)
  then have "guar g c ?c" by (intro guar_other_fields) simp_all
  moreover have "safe g (ends_with g 0) (run_spawned w g (spawned c ! j) ?c) ?c"
    using c assms(2,4) Start by (intro run_spawned_safe) (simp_all add: held_def)
  ultimately show ?thesis using Start by (auto intro: safe_from)
next
  case (OnSession i alloc b)
  have i: "i < length (sessions c)" "alloc_sane alloc" "allowed alloc b (sessions c ! i)" using assms(4) OnSession by auto
  have "keeps (session_inv True) (act alloc py3 cb b (sessions c ! i))"
    using act_keeps [OF client_inv_session [OF assms(1) i(1)] i(2) assms(3) i(3)] .
  from at_session_safe [OF assms(1) i(1) assms(2) this] show ?thesis using OnSession i(1) by (simp add: on_session_def)
qed

text \<open>A suspended call: its greenlet, the condition for which it waits, and how it goes on.\<close>

type_synonym 'd waiter = "nat \<times> ('d client \<Rightarrow> bool) \<times> ('d client \<Rightarrow> ('d, unit) client_op)"

inductive call_ends :: "nat \<Rightarrow> ('d, unit) client_op \<Rightarrow> 'd client \<Rightarrow> 'd waiter list \<Rightarrow> bool" for g :: nat where
  call_returns: "call_ends g (Ret c r) c []"
| call_waits: "call_ends g (Wait P c k) c [(g, P, k)]"

inductive client_step :: "bool \<Rightarrow> 'd callbacks \<Rightarrow> 'd client \<times> 'd waiter list \<Rightarrow> 'd client \<times> 'd waiter list \<Rightarrow> bool"
    for py3 :: bool and cb :: "'d callbacks" where
  call: "g \<notin> fst ` set ks \<Longrightarrow> client_allowed a c \<Longrightarrow> call_ends g (client_act py3 cb g a c) c' new \<Longrightarrow>
    client_step py3 cb (c, ks) (c', ks @ new)"
| go_on: "P c \<Longrightarrow> call_ends g (k c) c' new \<Longrightarrow> client_step py3 cb (c, ks @ (g, P, k) # ks') (c', ks @ ks' @ new)"

inductive client_reachable :: "bool \<Rightarrow> 'd callbacks \<Rightarrow> 'd client \<times> 'd waiter list \<Rightarrow> bool"
    for py3 :: bool and cb :: "'d callbacks" where
  start: "client_reachable py3 cb (client_init R host handler maxlen encs upgrade, [])"
| step: "client_reachable py3 cb x \<Longrightarrow> client_step py3 cb x y \<Longrightarrow> client_reachable py3 cb y"

definition waiter_ok :: "'d client \<Rightarrow> 'd waiter \<Rightarrow> bool" where
  "waiter_ok c x = (case x of (g, P, k) \<Rightarrow>
     wait_ok g P c \<and> (\<forall>t. client_inv t \<and> rely g c t \<and> P t \<longrightarrow> safe g (ends_with g 0) (k t) t))"

definition greenlets_inv :: "'d client \<times> 'd waiter list \<Rightarrow> bool" where
  "greenlets_inv x \<longleftrightarrow>
     client_inv (fst x) \<and> distinct (List.map fst (snd x)) \<and> (\<forall>w \<in> set (snd x). waiter_ok (fst x) w) \<and>
     (\<forall>g. 0 < held g (fst x) \<longrightarrow> g \<in> fst ` set (snd x))"

lemma wait_ok_rely: "wait_ok g P c \<Longrightarrow> rely g c t \<Longrightarrow> wait_ok g P t"
  by (auto simp: wait_ok_def rely_def intro: order.strict_trans2)

lemma waiter_ok_rely: "waiter_ok c (g, P, k) \<Longrightarrow> rely g c t \<Longrightarrow> waiter_ok t (g, P, k)"
  by (auto simp: waiter_ok_def intro: wait_ok_rely rely_trans)

text \<open>What one stretch of a greenlet leaves.\<close>

lemma stretch:
  assumes "call_ends g p c' new" and "safe g (ends_with g 0) p c" and "client_inv c" and "g \<notin> fst ` set ks"
    and "distinct (List.map fst ks)" and "\<forall>w \<in> set ks. waiter_ok c w" and "\<forall>h. h \<noteq> g \<and> 0 < held h c \<longrightarrow> h \<in> fst ` set ks"
  shows "greenlets_inv (c', ks @ new)"
proof -
  have s: "guar g c c'" and new: "new = [] \<and> held g c' = 0 \<or> (\<exists>P k. new = [(g, P, k)] \<and> waiter_ok c' (g, P, k))"
    using assms(1,2) by (auto elim!: call_ends.cases simp: waiter_ok_def)
  have "waiter_ok c' w" if "w \<in> set ks" for w
  proof (cases w)
    case (fields h P k)
    then have "h \<noteq> g" using that assms(4) by (auto simp: image_iff)
    then show ?thesis using s assms(6) that fields by (auto simp: guar_def intro: waiter_ok_rely)
  qed
  moreover have "h \<in> fst ` set (ks @ new)" if "0 < held h c'" for h
  proof (cases "h = g")
    case True
    then show ?thesis using that new by auto
  next
    case False
    then have "held h c' = held h c" using s by (simp add: guar_def rely_def)
    then show ?thesis using assms(7) False that by auto
  qed
  moreover have "distinct (List.map fst (ks @ new))"
    using new assms(4,5) by (elim disjE exE conjE) simp_all
  moreover have "\<forall>w \<in> set new. waiter_ok c' w" using new by auto
  ultimately show ?thesis
    using guar_inv [OF s] by (simp only: greenlets_inv_def fst_conv snd_conv set_append) blast
qed

lemma client_step_inv:
  assumes "client_step py3 cb x y" and "greenlets_inv x" and "callbacks_keep cb"
  shows "greenlets_inv y"
  using assms
proof (induction rule: client_step.induct)
  case (call g ks a c c' new)
  then have c: "client_inv c" "held g c = 0" by (auto simp: greenlets_inv_def)
  show ?case
    using call(4) by (intro stretch [OF call(3) client_act_safe [OF c call(5,2)] c(1) call(1)]) (auto simp: greenlets_inv_def)
next
  case (go_on P c g k c' new ks ks')
  then have c: "client_inv c" "waiter_ok c (g, P, k)" by (auto simp: greenlets_inv_def)
  then have "safe g (ends_with g 0) (k c) c" using go_on(1) by (auto simp: waiter_ok_def)
  note after = stretch [OF go_on(2) this c(1), of "ks @ ks'"]
  have "g \<notin> fst ` set (ks @ ks')" "distinct (List.map fst (ks @ ks'))"
    using go_on(3) by (auto simp: greenlets_inv_def)
  moreover have "\<forall>w \<in> set (ks @ ks'). waiter_ok c w" using go_on(3) by (auto simp: greenlets_inv_def)
  moreover have "\<forall>h. h \<noteq> g \<and> 0 < held h c \<longrightarrow> h \<in> fst ` set (ks @ ks')"
    using go_on(3) by (simp add: greenlets_inv_def image_Un) blast
  ultimately show ?case using after by simp
qed

lemma client_reachable_inv:
  assumes "client_reachable py3 cb x" and "callbacks_keep cb"
  shows "greenlets_inv x"
  using assms
proof (induction rule: client_reachable.induct)
  case (start R host handler maxlen encs upgrade)
  show ?case by (simp add: greenlets_inv_def) (simp add: held_def client_init_def)
qed (rule client_step_inv)

section \<open>Property\<close>


text \<open>A push without a connection, and the spawned greenlet that connects: it waits for the socket with the lock.\<close>

definition idle_attempt :: attempt where
  "idle_attempt = \<lparr>arithmetic = hundredths, clear_random = 1 / 2, fail_random = 1 / 2, att_alloc = big_allocator,
     connect_result = Inr (), att_peer = eager_server, setblocking_result = Inr (), att_fileno = 3\<rparr>"


end
