(* ===== verification/Loqui_Reconnect.thy ===== *)
theory Loqui_Reconnect
  imports Loqui_Greenlets Loqui_Exchange
begin

text \<open>
  What the client does: reconnecting and the pushes that were queued meanwhile, requests without a
  connection, and what happens when connecting fails.
\<close>

section \<open>Running a process\<close>

text \<open>A process resumed in the given states, one after the other; and a process that nobody disturbs.\<close>

fun resumed :: "('s, 'a) proc \<Rightarrow> 's list \<Rightarrow> ('s, 'a) proc option" where
  "resumed p [] = Some p"
| "resumed (Wait P s k) (t # ts) = (if P t then resumed (k t) ts else None)"
| "resumed p (t # ts) = None"

primrec alone :: "('s, 'a) proc \<Rightarrow> ('s \<times> 'a py) option" where
  "alone Undefined = None"
| "alone (Ret s r) = Some (s, r)"
| "alone (Wait P s k) = (if P s then alone (k s) else None)"

lemma alone_and_then:
  "alone p = Some (s, Inr x) \<Longrightarrow> alone (and_then p f) = alone (f s x)"
  "alone p = Some (s, Inl e) \<Longrightarrow> alone (and_then p f) = Some (s, Inl e)"
  by (induction p) (auto split: if_splits)

lemma alone_catching:
  "alone p = Some (s, Inr x) \<Longrightarrow> alone (catching p f) = Some (s, Inr x)"
  "alone p = Some (s, Inl e) \<Longrightarrow> alone (catching p f) = alone (f s e)"
  by (induction p) (auto split: if_splits)

lemma alone_releasing:
  "alone p = Some (s, r) \<Longrightarrow> alone (releasing g p) = alone (releasing g (Ret s r))"
  by (induction p) (auto split: if_splits)

section \<open>Flushing\<close>

lemma send_push_established:
  assumes "ample alloc" and "established cd s" and "codec_dumps cd d = Inr (Some b)"
    and "length b \<le> max_payload" and "write_used (stream s) < 2 ^ 59"
  obtains t where "session_send_push alloc d s = Ret t (Inr ())" and "established cd t"
    and "unsent (stream t) = unsent (stream s) @ wire (FPush 0 b)"
    and "write_used (stream t) \<le> write_used (stream s) + frame_room"
proof -
  have v: "valid_command (CmdPush 0 b)" using assms(4) by (simp add: valid_command_def)
  have sp: "sent_payload b = b" using assms(4) by (intro sent_payload_small) (simp add: max_payload_def)
  have q: "quiet (stream s)" using assms(2) by (simp add: established_def)
  obtain h where h: "send_push alloc (stream s) 0 (Some b) = Some (h, Inr 1)" "quiet h"
      "unsent h = unsent (stream s) @ wire (FPush 0 b)" "write_used h \<le> write_used (stream s) + frame_room"
    by (rule queue_command [OF assms(1) q assms(5) v])
      (use that in \<open>auto simp: command_frame_def command_value_def sp\<close>)
  have "session_send_push alloc d s = Ret (resume_sending (s\<lparr>stream := h\<rparr>)) (Inr ())"
    using established_ready(2) [OF assms(2)] assms(2,3) h(1)
    by (simp add: session_send_push_def encode_data_def await_ready_def established_def on_stream_def except0_def)
  then show ?thesis using that [of "resume_sending (s\<lparr>stream := h\<rparr>)"] h assms(2) by (simp add: established_def)
qed

lemma flush_delivers:
  assumes "ample alloc" and "established cd (sessions c ! i)" and "i < length (sessions c)"
    and "push_queue c = ds" and "length ds \<le> n"
    and "\<forall>d \<in> set ds. codec_dumps cd d = Inr (Some (enc d)) \<and> length (enc d) \<le> max_payload"
    and "write_used (stream (sessions c ! i)) + length ds * frame_room < 2 ^ 59"
  shows "\<exists>s. flush_pushes alloc i n c = Ret (c\<lparr>sessions := (sessions c)[i := s], push_queue := []\<rparr>) (Inr ()) \<and>
    established cd s \<and>
    unsent (stream s) = unsent (stream (sessions c ! i)) @ concat (List.map (\<lambda>d. wire (FPush 0 (enc d))) ds)"
  using assms(2-)
proof (induction ds arbitrary: c n)
  case Nil
  then show ?case by (cases n) (auto intro!: exI [of _ "sessions c ! i"])
next
  case (Cons d ds)
  then obtain m where n: "n = Suc m" by (cases n) auto
  have room: "write_used (stream (sessions c ! i)) < 2 ^ 59" using Cons.prems(6) by simp
  obtain t where t: "session_send_push alloc d (sessions c ! i) = Ret t (Inr ())" "established cd t"
      "unsent (stream t) = unsent (stream (sessions c ! i)) @ wire (FPush 0 (enc d))"
      "write_used (stream t) \<le> write_used (stream (sessions c ! i)) + frame_room"
    by (rule send_push_established [OF assms(1) Cons.prems(1), of d "enc d"]) (use Cons.prems(5) room in auto)
  let ?c = "c\<lparr>push_queue := ds, sessions := (sessions c)[i := t]\<rparr>"
  obtain s where s: "flush_pushes alloc i m ?c = Ret (?c\<lparr>sessions := (sessions ?c)[i := s], push_queue := []\<rparr>) (Inr ())"
      "established cd s" "unsent (stream s) = unsent (stream t) @ concat (List.map (\<lambda>d. wire (FPush 0 (enc d))) ds)"
    using Cons.IH [of ?c m] Cons.prems t n by (auto simp: algebra_simps)
  have "flush_pushes alloc i n c = Ret (c\<lparr>sessions := (sessions c)[i := s], push_queue := []\<rparr>) (Inr ())"
    using Cons.prems(2,3) t(1) s(1) n by (simp add: on_session_def)
  then show ?case using s(2,3) t(3) by auto
qed

section \<open>Connecting\<close>

text \<open>What the others do not touch while a greenlet connects.\<close>

definition undisturbed :: "nat \<Rightarrow> 'd client \<Rightarrow> 'd client \<Rightarrow> bool" where
  "undisturbed g c t \<longleftrightarrow> session_lock t = Some (g, 1) \<and> http_upgrade t = http_upgrade c \<and>
     address_host t = address_host c \<and> client_encoders t = client_encoders c"

definition upgrade_result :: "'d client \<Rightarrow> attempt \<Rightarrow> unit py" where
  "upgrade_result c w = fst (snd (handle_new_socket (address_host c) (att_peer w)))"

text \<open>An attempt on which the library calls succeed.\<close>

definition good_attempt :: "'d client \<Rightarrow> attempt \<Rightarrow> bool" where
  "good_attempt c w \<longleftrightarrow> connect_result w = Inr () \<and> setblocking_result w = Inr () \<and> ample (att_alloc w) \<and>
     (http_upgrade c \<longrightarrow> upgrade_result c w = Inr ())"

text \<open>How often connecting waits for the library: for the end of its sleep, for the socket, for the upgrade.\<close>

definition library_waits :: "'d client \<Rightarrow> nat" where
  "library_waits c = (if backoff_fails (client_backoff c) \<noteq> 0 then 1 else 0) + 1 + (if http_upgrade c then 1 else 0)"

text \<open>What connecting does after the session has become ready.\<close>

definition flush_and_finish :: "attempt \<Rightarrow> nat \<Rightarrow> nat \<Rightarrow> 'd client \<Rightarrow> ('d, unit) client_op" where
  "flush_and_finish w g i t = releasing g (catching
     (and_then (if \<not> defunct (sessions t ! i) \<and> push_queue t \<noteq> []
                then flush_pushes (att_alloc w) i (length (push_queue t)) t
                else Ret t (Inr ())) (\<lambda>c _.
      Ret (c\<lparr>client_backoff := backoff_succeed (client_backoff c), current_session := Some i\<rparr>) (Inr ())))
     (\<lambda>c e. if e = SocketError
       then Ret (c\<lparr>client_backoff := fst (backoff_fail (arithmetic w) (fail_random w) (client_backoff c))\<rparr>) (Inl ConnectionError)
       else Ret c (Inl e)))"

lemma list_one_two: "length ts = 1 \<Longrightarrow> \<exists>t. ts = [t]" "length ts = 2 \<Longrightarrow> \<exists>t u. ts = [t, u]"
    "length ts = 3 \<Longrightarrow> \<exists>t u v. ts = [t, u, v]"
  by (auto simp: length_Suc_conv numeral_eq_Suc)

lemmas connect_defs =
  client_connect_def connect_locked_def with_lock_def lock_acquire_def connect_attempt_def open_session_call_def
  blocking_call_def undisturbed_def good_attempt_def upgrade_result_def use_session_def flush_and_finish_def [abs_def]

lemma connect_reaches_ready:
  fixes c :: "'d client"
  assumes "current_session c = None" and "session_lock c = None" and "good_attempt c w"
    and "valid_command (hello_of (List.map fst (client_encoders c)))"
    and "length ts = library_waits c" and "\<forall>t \<in> set ts. undisturbed g c t"
  obtains s k new where "resumed (client_connect w g c) ts =
      Some (Wait (\<lambda>t. ready_event (sessions t ! length (sessions (last ts)))) s k)"
    and "s = (last ts)\<lparr>sessions := sessions (last ts) @ [new]\<rparr>"
    and "unsent (stream new) = wire (command_frame 1 (hello_of (List.map fst (client_encoders c))))" and "\<not> defunct new"
    and "\<And>t. k t = flush_and_finish w g (length (sessions (last ts))) t"
proof -
  obtain new :: "'d session" where new: "session_cinit (att_alloc w) (att_fileno w) (client_encoders c) True False
        (push_handler (last ts)) = Ret new (Inr ())"
      "unsent (stream new) = wire (command_frame 1 (hello_of (List.map fst (client_encoders c))))"
      "\<not> is_ready new" "\<not> ready_event new" "\<not> defunct new"
    by (rule client_opens [of "att_alloc w" "client_encoders c" "att_fileno w" False "push_handler (last ts)"])
      (use assms(3,4) that in \<open>auto simp: good_attempt_def defunct_def\<close>)
  let ?c = "c\<lparr>session_lock := Some (g, 1)\<rparr>"
  let ?t = "last ts" and ?i = "length (sessions (last ts))"
  let ?s = "?t\<lparr>sessions := sessions ?t @ [new]\<rparr>"
  have t: "client_encoders ?t = client_encoders c" "?t \<in> set ts"
    using assms(5,6) by (cases "ts = []"; auto simp: library_waits_def undisturbed_def)+
  have made: "new_session w ?t = Ret ?s (Inr ?i)" using new(1) t(1) by (simp add: new_session_def)
  have await: "on_session ?i session_await_ready ?s = Wait (\<lambda>t. ready_event (sessions t ! ?i)) ?s (\<lambda>t. Ret t (Inr ()))"
    using new(3,4) by (simp add: on_session_def session_await_ready_def await_ready_def)
  have "resumed (client_connect w g c) ts = Some (Wait (\<lambda>t. ready_event (sessions t ! ?i)) ?s (flush_and_finish w g ?i))"
  proof (cases "backoff_fails (client_backoff c) = 0"; cases "http_upgrade c")
    assume f: "backoff_fails (client_backoff c) = 0" "\<not> http_upgrade c"
    then have "length ts = 1" using assms(5) by (simp add: library_waits_def)
    then obtain t1 where "ts = [t1]" using list_one_two(1) by blast
    then show ?thesis using f assms made await by (simp add: connect_defs)
  next
    assume f: "backoff_fails (client_backoff c) = 0" "http_upgrade c"
    then have "length ts = 2" using assms(5) by (simp add: library_waits_def)
    then obtain t1 t2 where "ts = [t1, t2]" using list_one_two(2) by blast
    then show ?thesis using f assms made await by (simp add: connect_defs)
  next
    assume f: "backoff_fails (client_backoff c) \<noteq> 0" "\<not> http_upgrade c"
    then have "length ts = 2" using assms(5) by (simp add: library_waits_def)
    then obtain t1 t2 where "ts = [t1, t2]" using list_one_two(2) by blast
    then show ?thesis using f assms made await by (simp add: connect_defs)
  next
    assume f: "backoff_fails (client_backoff c) \<noteq> 0" "http_upgrade c"
    then have "length ts = 3" using assms(5) by (simp add: library_waits_def)
    then obtain t1 t2 t3 where "ts = [t1, t2, t3]" using list_one_two(3) by blast
    then show ?thesis using f assms made await by (simp add: connect_defs)
  qed
  then show ?thesis using that [of ?s "flush_and_finish w g ?i" new] new(2,5) by blast
qed

lemma resumed_append: "resumed p ts = Some q \<Longrightarrow> resumed p (ts @ us) = resumed q us"
  by (induction p ts rule: resumed.induct) (auto split: if_splits)

text \<open>Connecting, up to its last stretch.\<close>

lemma connect_last_stretch:
  assumes "current_session c = None" and "session_lock c = None" and "good_attempt c w"
    and "valid_command (hello_of (List.map fst (client_encoders c)))"
    and "length ts = library_waits c" and "\<forall>t \<in> set ts. undisturbed g c t"
    and "i = length (sessions (last ts))" and "ready_event (sessions t ! i)"
  shows "resumed (client_connect w g c) (ts @ [t]) = Some (flush_and_finish w g i t)"
proof (rule connect_reaches_ready [OF assms(1-6)])
  fix s k
  assume "resumed (client_connect w g c) ts = Some (Wait (\<lambda>t. ready_event (sessions t ! length (sessions (last ts)))) s k)"
    and k: "\<And>t. k t = flush_and_finish w g (length (sessions (last ts))) t"
  from resumed_append [OF this(1), of "[t]"] show ?thesis using assms(7,8) k by simp
qed

section \<open>Properties of connecting\<close>

text \<open>
  C9: Reconnecting delivers what was queued. A client without a session connects, with the library's calls
  succeeding, and waits, however the queue, the sessions and other calls change meanwhile. When its new session has become
  ready it flushes: every push that is in the queue then, in order, is encoded by the session's codec and queued as a
  push frame behind what the session has queued already; then the queue is empty, the session is the client's
  session, the backoff is reset and the lock free.
\<close>

theorem reconnect_delivers:
  fixes c t :: "'d client"
  assumes "current_session c = None" and "session_lock c = None" and "good_attempt c w"
    and "valid_command (hello_of (List.map fst (client_encoders c)))"
    and "length ts = library_waits c" and "\<forall>t \<in> set ts. undisturbed g c t" and "i = length (sessions (last ts))"
    and "undisturbed g c t" and "i < length (sessions t)" and "ready_event (sessions t ! i)" and "established cd (sessions t ! i)"
    and "\<forall>d \<in> set (push_queue t). codec_dumps cd d = Inr (Some (enc d)) \<and> length (enc d) \<le> max_payload"
    and "write_used (stream (sessions t ! i)) + length (push_queue t) * frame_room < 2 ^ 59"
  shows "\<exists>s. resumed (client_connect w g c) (ts @ [t]) =
      Some (Ret (t\<lparr>sessions := (sessions t)[i := s], push_queue := [], client_backoff := backoff_succeed (client_backoff t),
        current_session := Some i, session_lock := None\<rparr>) (Inr ())) \<and>
    established cd s \<and>
    unsent (stream s) = unsent (stream (sessions t ! i)) @ concat (List.map (\<lambda>d. wire (FPush 0 (enc d))) (push_queue t))"
proof -
  have "\<exists>s. (if \<not> defunct (sessions t ! i) \<and> push_queue t \<noteq> []
      then flush_pushes (att_alloc w) i (length (push_queue t)) t else Ret t (Inr ())) =
        Ret (t\<lparr>sessions := (sessions t)[i := s], push_queue := []\<rparr>) (Inr ()) \<and> established cd s \<and>
      unsent (stream s) = unsent (stream (sessions t ! i)) @ concat (List.map (\<lambda>d. wire (FPush 0 (enc d))) (push_queue t))"
  proof (cases "push_queue t = []")
    case True
    then have "t\<lparr>push_queue := []\<rparr> = t" by simp
    then show ?thesis using True assms(11) by (intro exI [of _ "sessions t ! i"]) simp
  next
    case False
    then show ?thesis
      using flush_delivers [OF _ assms(11,9) refl order_refl assms(12,13), of "att_alloc w"] assms(3)
        established_ready(2) [OF assms(11)] by (simp add: good_attempt_def)
  qed
  then obtain s where s: "(if \<not> defunct (sessions t ! i) \<and> push_queue t \<noteq> []
      then flush_pushes (att_alloc w) i (length (push_queue t)) t else Ret t (Inr ())) =
        Ret (t\<lparr>sessions := (sessions t)[i := s], push_queue := []\<rparr>) (Inr ())" "established cd s"
      "unsent (stream s) = unsent (stream (sessions t ! i)) @ concat (List.map (\<lambda>d. wire (FPush 0 (enc d))) (push_queue t))"
    by blast
  then have "flush_and_finish w g i t = Ret (t\<lparr>sessions := (sessions t)[i := s], push_queue := [],
      client_backoff := backoff_succeed (client_backoff t), current_session := Some i, session_lock := None\<rparr>) (Inr ())"
    using assms(8) by (simp add: flush_and_finish_def lock_release_def undisturbed_def)
  then show ?thesis using connect_last_stretch [OF assms(1-7,10)] s(2,3) by auto
qed

text \<open>A client with two queued pushes that connects, and the states in which it goes on.\<close>

definition pushing_client :: "byte list client" where
  "pushing_client = (client_init hundredths [] False (Some 5000) [([106], plain_codec)] False)\<lparr>push_queue := [[1], [2, 3]]\<rparr>"

definition connecting_client :: "byte list client" where
  "connecting_client = pushing_client\<lparr>session_lock := Some (0, 1)\<rparr>"

lemma pushing_client_ok:
  "current_session pushing_client = None" "session_lock pushing_client = None" "good_attempt pushing_client idle_attempt"
  "valid_command (hello_of (List.map fst (client_encoders pushing_client)))"
  "length [connecting_client] = library_waits pushing_client"
  "\<forall>t \<in> set [connecting_client]. undisturbed 0 pushing_client t" "0 = length (sessions (last [connecting_client]))"
  "undisturbed 0 pushing_client (connecting_client\<lparr>sessions := ss\<rparr>)"
  using ample_exists
  by (simp_all add: pushing_client_def connecting_client_def client_init_def good_attempt_def idle_attempt_def
      valid_command_def hello_of_def plain_name_def COMMA_def PIPE_def max_payload_def library_waits_def backoff_fails_def Backoff_init_def
      undisturbed_def Let_def)

lemma reconnect_delivers_witness:
  "\<exists>s t. resumed (client_connect idle_attempt 0 pushing_client)
      [connecting_client, connecting_client\<lparr>sessions := [ready_session True]\<rparr>] = Some (Ret t (Inr ())) \<and>
    sessions t = [s] \<and> current_session t = Some 0 \<and> push_queue t = [] \<and> session_lock t = None \<and>
    unsent (stream s) = wire (FPush 0 [1]) @ wire (FPush 0 [2, 3])"
proof -
  let ?t = "connecting_client\<lparr>sessions := [ready_session True]\<rparr>"
  have t: "push_queue ?t = [[1], [2, 3]]" "sessions ?t = [ready_session True]"
    by (simp_all add: connecting_client_def pushing_client_def)
  have r: "ready_event (ready_session True)" by (simp add: ready_session_def)
  have codec: "\<forall>d \<in> set [[1], [2, 3 :: byte]]. codec_dumps plain_codec d = Inr (Some d) \<and> length d \<le> max_payload"
    by (simp add: plain_codec_def max_payload_def)
  show ?thesis
    using reconnect_delivers [OF pushing_client_ok, of "[ready_session True]" plain_codec "\<lambda>d. d"] r codec
    unfolding t by (auto simp: ready_session_ok frame_room_def)
qed

text \<open>
  A connection that dies before it is ready counts as a success. When the new session has been closed or has lost its socket
  before the handshake was done, connecting still returns without an exception: it resets the backoff and
  makes the dead session the client's session, and the queued pushes stay where they are.
\<close>

theorem dead_session_counts_as_success:
  assumes "current_session c = None" and "session_lock c = None" and "good_attempt c w"
    and "valid_command (hello_of (List.map fst (client_encoders c)))"
    and "length ts = library_waits c" and "\<forall>t \<in> set ts. undisturbed g c t" and "i = length (sessions (last ts))"
    and "undisturbed g c t" and "ready_event (sessions t ! i)" and "defunct (sessions t ! i)"
  shows "resumed (client_connect w g c) (ts @ [t]) =
    Some (Ret (t\<lparr>client_backoff := backoff_succeed (client_backoff t), current_session := Some i, session_lock := None\<rparr>)
      (Inr ()))"
  using connect_last_stretch [OF assms(1-7,9)] assms(8,10)
  by (simp add: flush_and_finish_def lock_release_def undisturbed_def)

lemma dead_session_counts_as_success_witness:
  "\<exists>t. resumed (client_connect idle_attempt 0 pushing_client)
      [connecting_client, connecting_client\<lparr>sessions := [terminate True (ready_session True)]\<rparr>] = Some (Ret t (Inr ())) \<and>
    current_session t = Some 0 \<and> defunct (sessions t ! 0) \<and> push_queue t = [[1], [2, 3]]"
proof -
  have "ready_event (terminate True (ready_session True))" "defunct (terminate True (ready_session True))"
    by (simp_all add: terminate_def cleanup_socket_eq defunct_def)
  then show ?thesis
    using dead_session_counts_as_success [OF pushing_client_ok, of "[terminate True (ready_session True)]"]
    by (auto simp: connecting_client_def pushing_client_def)
qed

text \<open>
  A push that cannot be encoded costs a connection. When the codec raises on the first queued push (anything but a
  socket error), connecting raises that exception; the push is gone from the queue, the
  new session stays open without being the client's session, and the failure is not counted.
\<close>

theorem failed_flush_orphans_session:
  assumes "current_session c = None" and "session_lock c = None" and "good_attempt c w"
    and "valid_command (hello_of (List.map fst (client_encoders c)))"
    and "length ts = library_waits c" and "\<forall>t \<in> set ts. undisturbed g c t" and "i = length (sessions (last ts))"
    and "undisturbed g c t" and "i < length (sessions t)" and "ready_event (sessions t ! i)" and "established cd (sessions t ! i)"
    and "push_queue t = d # ds" and "codec_dumps cd d = Inl e" and "e \<noteq> SocketError"
  shows "resumed (client_connect w g c) (ts @ [t]) = Some (Ret (t\<lparr>push_queue := ds, session_lock := None\<rparr>) (Inl e)) \<and>
    \<not> defunct (sessions t ! i)"
proof -
  have "session_send_push (att_alloc w) d (sessions t ! i) = Ret (sessions t ! i) (Inl e)"
    using assms(11,13) established_ready(2) [OF assms(11)]
    by (simp add: session_send_push_def encode_data_def await_ready_def established_def)
  then have "flush_and_finish w g i t = Ret (t\<lparr>push_queue := ds, session_lock := None\<rparr>) (Inl e)"
    using assms(8,9,12,14) established_ready(2) [OF assms(11)]
    by (simp add: flush_and_finish_def lock_release_def undisturbed_def on_session_def)
  then show ?thesis using connect_last_stretch [OF assms(1-7,10)] established_ready(2) [OF assms(11)] by simp
qed

lemma failed_flush_orphans_session_witness:
  "\<exists>s t. resumed (client_connect idle_attempt 0 pushing_client)
      [connecting_client, connecting_client\<lparr>sessions := [s]\<rparr>] = Some (Ret t (Inl (ForeignError 1))) \<and>
    sessions t = [s] \<and> \<not> defunct s \<and> current_session t = None \<and> push_queue t = [[2, 3]]"
proof -
  define cd :: "byte list codec" where "cd = plain_codec\<lparr>codec_dumps := \<lambda>_. Inl (ForeignError 1)\<rparr>"
  define s where "s = (ready_session True)\<lparr>encoder_dumps := Some (codec_dumps cd)\<rparr>"
  have s: "established cd s" "ready_event s" "codec_dumps cd [1] = Inl (ForeignError 1)"
    by (simp_all add: s_def cd_def ready_session_def established_def cinit_quiet)
  then show ?thesis
    using failed_flush_orphans_session [OF pushing_client_ok, of "[s]" cd "[1]" "[[2, 3]]" "ForeignError 1"]
    by (intro exI [of _ s] exI [of _ "connecting_client\<lparr>sessions := [s], push_queue := [[2, 3]], session_lock := None\<rparr>"])
      (simp add: connecting_client_def pushing_client_def, simp add: client_init_def)
qed

section \<open>Properties of requests\<close>

lemma connect_refused:
  assumes "current_session c = None" and "session_lock c = None" and "connect_result w = Inl SocketError"
  shows "alone (client_connect w g c) =
    Some (c\<lparr>client_backoff := fst (backoff_fail (arithmetic w) (fail_random w) (client_backoff c))\<rparr>, Inl ConnectionError)"
proof -
  have "c\<lparr>session_lock := None\<rparr> = c" using assms(2) by simp
  then show ?thesis using assms
    by (simp add: connect_defs lock_release_def)
qed

lemma request_when_refused:
  assumes "current_session c = None" and "session_lock c = None" and "connect_result w = Inl SocketError"
  shows "alone (connect_and_request w g d timeout c) =
    Some (c\<lparr>client_backoff := fst (backoff_fail (arithmetic w) (fail_random w) (client_backoff c))\<rparr>, Inl ConnectionError)"
  unfolding connect_and_request_def by (rule alone_and_then(2) [OF connect_refused [OF assms]])

lemma request_when_not_upgraded:
  assumes "current_session c = None" and "session_lock c = None" and "http_upgrade c"
    and "connect_result w = Inr () \<and> upgrade_result c w = Inl ConnectionError"
  shows "alone (connect_and_request w g d timeout c) = Some (c, Inl ConnectionError)"
proof -
  have "c\<lparr>session_lock := None\<rparr> = c" using assms(2) by simp
  then have "alone (client_connect w g c) = Some (c, Inl ConnectionError)"
    using assms by (simp add: connect_defs lock_release_def)
  then show ?thesis unfolding connect_and_request_def by (rule alone_and_then(2))
qed

text \<open>
  C5: A client's request is answered. On a client whose session is established, \<open>send_request\<close> queues the
  request and waits, without reconnecting; the server's session, given the bytes, calls the application; and when
  the client's session has received those of the answer, the waiting call is resumed and returns exactly the application's answer.
\<close>

theorem client_request_answered:
  fixes c :: "'d client"
  assumes "ample (att_alloc (ws retries))" and "current_session c = Some i" and "i < length (sessions c)"
    and "established cd (sessions c ! i)" and "is_client (sessions c ! i)" and "unsent (stream (sessions c ! i)) = []"
    and "established cd s" and "\<not> is_client s" and "has_on_request s" and "unsent (stream s) = []"
    and "transports cd d b" and "transports cd (f d) b'" and "answers_with f cb"
    and "bump (sh_seq (stream (sessions c ! i))) \<noteq> 0" and "write_used (stream (sessions c ! i)) < 2 ^ 58"
    and "write_used (stream s) < 2 ^ 58"
  shows "\<exists>P c1 k s1 x. client_send_request ws g d timeout retries c = Wait P c1 k \<and>
    handle_data_received py3 (att_alloc (ws retries)) cb (unsent (stream (sessions c1 ! i))) s = Ret s1 (Inr ()) \<and>
    handle_data_received py3 (att_alloc (ws retries)) cb' (unsent (stream s1)) (sessions c1 ! i) = Ret x (Inr ()) \<and>
    (let t = c1\<lparr>sessions := (sessions c1)[i := x]\<rparr> in P t \<and> k t = Ret t (Inr (Data (f d))))"
proof -
  let ?s = "sessions c ! i" and ?j = "length (results (sessions c ! i))"
  obtain x1 s1 x2 where x: "session_send_request (att_alloc (ws retries)) d ?s = Ret x1 (Inr ?j)" "results x1 = results ?s @ [None]"
      "handle_data_received py3 (att_alloc (ws retries)) cb (unsent (stream x1)) s = Ret s1 (Inr ())"
      "handle_data_received py3 (att_alloc (ws retries)) cb' (unsent (stream s1)) x1 = Ret x2 (Inr ())"
      "results x2 = results ?s @ [Some (Data (f d))]"
    using request_exchange [OF assms(1,4-16), of _ cb'] by blast
  let ?c = "c\<lparr>sessions := (sessions c)[i := x1]\<rparr>"
  let ?k = "\<lambda>t. case result_of i ?j t of Some a \<Rightarrow> Ret t (answer_value a) | None \<Rightarrow> Ret t (Inl GeventTimeout)"
  have "client_connect (ws retries) g c = Ret c (Inr ())"
    using assms(2) established_ready(2) [OF assms(4)] by (simp add: client_connect_def current_is_def)
  then have r: "connect_and_request (ws retries) g d timeout c = Wait (\<lambda>t. result_of i ?j t \<noteq> None \<or> timeout) ?c ?k"
    using assms(2,3) x(1,2)
    by (simp add: connect_and_request_def on_current_def on_session_def get_result_def result_of_def Let_def)
  obtain k where k: "client_send_request ws g d timeout retries c = Wait (\<lambda>t. result_of i ?j t \<noteq> None \<or> timeout) ?c k"
    and kt: "\<And>t a. result_of i ?j t = Some (Data a) \<Longrightarrow> k t = Ret t (Inr (Data a))"
    using r by (cases retries) auto
  have "result_of i ?j (?c\<lparr>sessions := (sessions ?c)[i := x2]\<rparr>) = Some (Data (f d))"
    using assms(3) x(5) by (simp add: result_of_def Let_def)
  then show ?thesis
    using k kt x(3,4) assms(3)
    by (intro exI [of _ "\<lambda>t. result_of i ?j t \<noteq> None \<or> timeout"] exI [of _ ?c] exI [of _ k] exI [of _ s1] exI [of _ x2])
      (simp add: Let_def)
qed

lemma client_request_answered_witness:
  "\<exists>P c1 k s1 x. client_send_request (\<lambda>_. idle_attempt) 0 [1, 2] False 3
      (pushing_client\<lparr>sessions := [ready_session True], current_session := Some 0\<rparr>) = Wait P c1 k \<and>
    handle_data_received True big_allocator reversing (unsent (stream (sessions c1 ! 0))) (ready_session False) = Ret s1 (Inr ()) \<and>
    handle_data_received True big_allocator reversing (unsent (stream s1)) (sessions c1 ! 0) = Ret x (Inr ()) \<and>
    k (c1\<lparr>sessions := (sessions c1)[0 := x]\<rparr>) = Ret (c1\<lparr>sessions := (sessions c1)[0 := x]\<rparr>) (Inr (Data [2, 1]))"
proof -
  have w: "att_alloc idle_attempt = big_allocator" by (simp add: idle_attempt_def)
  have "is_client (ready_session True)" "\<not> is_client (ready_session False)" "has_on_request (ready_session False)"
    by (simp_all add: ready_session_def)
  then show ?thesis
    using client_request_answered [of "\<lambda>_. idle_attempt" 3
        "pushing_client\<lparr>sessions := [ready_session True], current_session := Some 0\<rparr>" 0 plain_codec "ready_session False"
        "[1, 2]" "[1, 2]" rev "[2, 1]" reversing 0 False True reversing]
      ample_exists plain_transports [of "[1, 2]"] plain_transports [of "[2, 1]"] reversing_answers
    unfolding w by (fastforce simp: ready_session_ok max_payload_def Let_def)
qed

text \<open>
  C32: \<open>send_request\<close> gives up. When every attempt to connect is refused, a request on a client without
  a session ends: it raises \<open>ConnectionError\<close> after its retries, having tried once more often than there are retries,
  each failure counted by the backoff; the lock is free and nothing else has changed.
\<close>

theorem request_gives_up:
  assumes "current_session c = None" and "session_lock c = None"
    and "\<forall>k \<le> retries. connect_result (ws k) = Inl SocketError \<and> arithmetic (ws k) = R"
  shows "alone (client_send_request ws g d timeout retries c) =
    Some (c\<lparr>client_backoff := backoff_run R (client_backoff c)
        (List.map (\<lambda>k. Some (fail_random (ws k))) (rev [0..<Suc retries]))\<rparr>, Inl ConnectionError)"
  using assms
proof (induction retries arbitrary: c)
  case 0
  then show ?case using request_when_refused [of c "ws 0" g d timeout] by simp
next
  case (Suc n)
  let ?c = "c\<lparr>client_backoff := fst (backoff_fail R (fail_random (ws (Suc n))) (client_backoff c))\<rparr>"
  have "alone (connect_and_request (ws (Suc n)) g d timeout c) = Some (?c, Inl ConnectionError)"
    using request_when_refused [of c "ws (Suc n)"] Suc.prems by simp
  then have "alone (client_send_request ws g d timeout (Suc n) c) = alone (client_send_request ws g d timeout n ?c)"
    by (simp add: alone_catching(2) is_connection_error_def)
  then show ?case using Suc.IH [of ?c] Suc.prems by simp
qed

lemma request_gives_up_witness:
  "\<exists>b. alone (client_send_request (\<lambda>_. idle_attempt\<lparr>connect_result := Inl SocketError\<rparr>) 0 [7] False 3 pushing_client) =
    Some (pushing_client\<lparr>client_backoff := b\<rparr>, Inl ConnectionError) \<and> backoff_fails b = 4"
  using request_gives_up [OF pushing_client_ok(1,2), of 3 "\<lambda>_. idle_attempt\<lparr>connect_result := Inl SocketError\<rparr>" hundredths 0 "[7]" False]
  by (auto simp: idle_attempt_def pushing_client_def client_init_def Backoff_init_def backoff_fails_def backoff_fail_def
      numeral_eq_Suc Let_def)

text \<open>
  A refused upgrade is not counted. When the HTTP server answers, but does not switch protocols,
  the exception is \<open>ConnectionError\<close> itself, which the handler of socket errors does not catch: the request raises it
  after its retries, and the backoff has not noticed, so there was no delay between the attempts.
\<close>

theorem refused_upgrade_not_counted:
  assumes "current_session c = None" and "session_lock c = None" and "http_upgrade c"
    and "\<forall>k \<le> retries. connect_result (ws k) = Inr () \<and> upgrade_result c (ws k) = Inl ConnectionError"
  shows "alone (client_send_request ws g d timeout retries c) = Some (c, Inl ConnectionError)"
  using assms(4)
proof (induction retries)
  case 0
  then show ?case using request_when_not_upgraded [OF assms(1-3)] by simp
next
  case (Suc n)
  then have "alone (connect_and_request (ws (Suc n)) g d timeout c) = Some (c, Inl ConnectionError)"
    using request_when_not_upgraded [OF assms(1-3)] by simp
  then show ?case using Suc by (simp add: alone_catching(2) is_connection_error_def)
qed

text \<open>A server that closes the connection at once.\<close>

lemma refused_upgrade_not_counted_witness:
  "alone (client_send_request (\<lambda>_. idle_attempt\<lparr>att_peer := eager_server\<lparr>incoming := []\<rparr>\<rparr>) 0 [7] False 3
      (pushing_client\<lparr>http_upgrade := True\<rparr>)) = Some (pushing_client\<lparr>http_upgrade := True\<rparr>, Inl ConnectionError)"
proof -
  have "send_error (eager_server\<lparr>incoming := []\<rparr>) = None" "\<forall>call. recv_error (eager_server\<lparr>incoming := []\<rparr>) call = None"
    by (simp_all add: eager_server_def)
  moreover have "0 < length (expected_handshake_responses ! 0)" by (simp add: expected_handshake_responses_def lower_def)
  ultimately have "upgrade_result c (idle_attempt\<lparr>att_peer := eager_server\<lparr>incoming := []\<rparr>\<rparr>) = Inl ConnectionError"
    for c :: "byte list client"
    by (simp add: upgrade_result_def handle_new_socket_def read_response_takes Let_def)
  then show ?thesis
    using pushing_client_ok(1,2) by (intro refused_upgrade_not_counted) (simp_all add: idle_attempt_def)
qed

text \<open>
  \<open>send_request_async\<close> without a connection never works. It returns a result that is
  still empty and spawns a call of \<open>_connect_and_send_request_async\<close> with two arguments, but that method takes one: whenever the
  call is started, it does not connect, and puts \<open>TypeError\<close> into the result.
\<close>

theorem async_request_fails:
  assumes "\<not> is_socket_connected c"
  shows "\<exists>c1 sp. client_send_request_async alloc d c = Ret c1 (Inr (OwnResult (length (async_results c)))) \<and>
    async_results c1 = async_results c @ [None] \<and> spawned c1 = spawned c @ [sp] \<and>
    (\<forall>w g t. run_spawned w g sp t =
      Ret (t\<lparr>async_results := (async_results t)[length (async_results c) := Some (Failed TypeError)]\<rparr>) (Inr ()))"
  using assms
  by (simp add: client_send_request_async_def Let_def linked_def connect_and_send_request_async_def set_async_result_def)

lemma async_request_fails_witness:
  "\<exists>c1 sp. client_send_request_async big_allocator [7] pushing_client = Ret c1 (Inr (OwnResult 0)) \<and>
    run_spawned idle_attempt 5 sp c1 = Ret (c1\<lparr>async_results := [Some (Failed TypeError)]\<rparr>) (Inr ())"
proof -
  have c: "\<not> is_socket_connected pushing_client" "async_results pushing_client = []"
    by (simp_all add: is_socket_connected_def current_is_def pushing_client_def client_init_def)
  obtain c1 and sp :: "byte list spawned" where "client_send_request_async big_allocator [7] pushing_client = Ret c1 (Inr (OwnResult 0))"
      "async_results c1 = [None]"
      "\<And>w g t. run_spawned w g sp t = Ret (t\<lparr>async_results := (async_results t)[0 := Some (Failed TypeError)]\<rparr>) (Inr ())"
    using async_request_fails [OF c(1), of big_allocator "[7]"] unfolding c(2) append_Nil list.size(3) by blast
  then show ?thesis by (intro exI [of _ c1] exI [of _ sp]) simp
qed

section \<open>Properties of pushes\<close>

fun push_all :: "allocator \<Rightarrow> 'd list \<Rightarrow> 'd client \<Rightarrow> 'd client option" where
  "push_all alloc [] c = Some c"
| "push_all alloc (d # ds) c =
     (case client_send_push alloc d c of Ret c (Inr ()) \<Rightarrow> push_all alloc ds c | _ \<Rightarrow> None)"

lemma newest_newest: "newest n (newest n xs @ ys) = newest n (xs @ ys)"
  by (cases n; cases "length xs \<le> the n") (auto simp: newest_def ac_simps)

lemma connected_cong:
  "sessions t = sessions c \<Longrightarrow> current_session t = current_session c \<Longrightarrow> is_socket_connected t = is_socket_connected c"
  by (cases "current_session c") (simp_all add: is_socket_connected_def current_is_def)

lemma push_unconnected:
  assumes "\<not> is_socket_connected c"
  shows "client_send_push alloc d c = Ret (c\<lparr>push_queue := newest (max_push_queue_len c) (push_queue c @ [d]),
      spawned := spawned c @ (if connect_greenlet c then [] else [ConnectInGreenlet]), connect_greenlet := True\<rparr>) (Inr ())"
proof -
  have "\<not> current_is (\<lambda>s. \<not> defunct s \<and> is_ready s) c" "\<not> current_is (\<lambda>s. \<not> defunct s \<and> \<not> is_ready s) c"
    using assms by (auto simp: is_socket_connected_def current_is_def split: option.splits)
  then show ?thesis
    by (cases "connect_greenlet c") (simp_all add: client_send_push_def connect_async_def deque_append_def Let_def)
qed

text \<open>
  Pushes without a connection are kept, the newest of them. Each is queued, in order, in a queue of bounded length
  from which the oldest are dropped; one greenlet is spawned that connects, and no second one.
\<close>

theorem unconnected_pushes_kept:
  assumes "\<not> is_socket_connected c" and "queue_fits (max_push_queue_len c) (push_queue c)"
  shows "\<exists>c'. push_all alloc ds c = Some c' \<and>
    push_queue c' = newest (max_push_queue_len c) (push_queue c @ ds) \<and>
    queue_fits (max_push_queue_len c) (push_queue c') \<and>
    spawned c' = spawned c @ (if connect_greenlet c \<or> ds = [] then [] else [ConnectInGreenlet]) \<and>
    sessions c' = sessions c \<and> current_session c' = current_session c"
  using assms
proof (induction ds arbitrary: c)
  case Nil
  then show ?case by simp
next
  case (Cons d ds)
  let ?c = "c\<lparr>push_queue := newest (max_push_queue_len c) (push_queue c @ [d]),
      spawned := spawned c @ (if connect_greenlet c then [] else [ConnectInGreenlet]), connect_greenlet := True\<rparr>"
  have unconnected: "\<not> is_socket_connected ?c"
    using Cons.prems(1) by (subst connected_cong [where c = c]) simp_all
  have bound: "queue_fits (max_push_queue_len ?c) (push_queue ?c)" by simp
  from Cons.IH [OF unconnected bound] obtain c' where c': "push_all alloc ds ?c = Some c'"
      "push_queue c' = newest (max_push_queue_len ?c) (push_queue ?c @ ds)" "queue_fits (max_push_queue_len ?c) (push_queue c')"
      "spawned c' = spawned ?c @ (if connect_greenlet ?c \<or> ds = [] then [] else [ConnectInGreenlet])"
      "sessions c' = sessions ?c" "current_session c' = current_session ?c"
    by blast
  have fields: "max_push_queue_len ?c = max_push_queue_len c" "connect_greenlet ?c"
      "push_queue ?c = newest (max_push_queue_len c) (push_queue c @ [d])" "sessions ?c = sessions c"
      "spawned ?c = spawned c @ (if connect_greenlet c then [] else [ConnectInGreenlet])" "current_session ?c = current_session c"
    by simp_all
  have "push_all alloc (d # ds) c = Some c'"
    unfolding push_all.simps push_unconnected [OF Cons.prems(1)] by (simp only: c'(1) proc.case sum.case unit.case)
  moreover have "newest (max_push_queue_len c) (newest (max_push_queue_len c) (push_queue c @ [d]) @ ds) =
      newest (max_push_queue_len c) (push_queue c @ d # ds)"
    by (simp only: newest_newest append_assoc append_Cons append_Nil)
  ultimately show ?case using c'(2-6) unfolding fields by (intro exI [of _ c']) auto
qed

text \<open>Room for two pushes.\<close>

lemma unconnected_pushes_kept_witness:
  "\<exists>c'. push_all big_allocator [[4], [5], [6]] (pushing_client\<lparr>max_push_queue_len := Some 2\<rparr>) = Some c' \<and>
    push_queue c' = [[5], [6]] \<and> spawned c' = [ConnectInGreenlet]"
proof -
  let ?c = "pushing_client\<lparr>max_push_queue_len := Some 2\<rparr>"
  have "\<not> is_socket_connected ?c" "push_queue ?c = [[1], [2, 3]]" "spawned ?c = []" "\<not> connect_greenlet ?c"
    by (simp_all add: is_socket_connected_def current_is_def pushing_client_def client_init_def)
  then show ?thesis
    using unconnected_pushes_kept [of ?c big_allocator "[[4], [5], [6]]"] by (auto simp: newest_def queue_fits_def)
qed

end
