(* ===== verification/Loqui_Arithmetic.thy ===== *)
theory Loqui_Arithmetic
  imports Loqui_Numbers
begin

text \<open>
  Subtracting a C constant from a Python integer (\<open>__Pyx_PyInt_SubtractObjC\<close> of \<open>py/loqui/client.c\<close>, used for
  \<open>retries - 1\<close>): integers of few digits are computed in a C \<open>long\<close>, others by the interpreter. It agrees with
  subtraction. A \<open>long long\<close> is taken to be no longer than a \<open>long\<close>, as on LP64, so its cases never apply.
\<close>

text \<open>The interpreter's integer for a value.\<close>

definition long_of_value :: "int \<Rightarrow> pylong" where
  "long_of_value n = PyLong (n < 0) (digits_of (nat \<bar>n\<bar>))"

lemma long_of_value_value [simp]: "long_value (long_of_value n) = n"
  by (simp add: long_of_value_def digits_of_value)

definition long_subtract :: "pylong \<Rightarrow> 64 word \<Rightarrow> pylong" where
  "long_subtract x intval =
     (let neg = is_negative x; ds = long_digits x;
          in_c = (\<lambda>a. PyLong_FromLong ((if neg then - a else a) - intval));
          interpreter = long_of_value (long_value x - sint intval)
      in if length ds \<le> 1 then in_c (case ds of [] \<Rightarrow> 0 | d # _ \<Rightarrow> ucast d)
         else if length ds \<le> 4 \<and> LONG_BITS - 1 > length ds * PyLong_SHIFT then in_c (join_digits ds)
         else interpreter)"

lemma in_c_exact:
  assumes "uint a = digits_value ds" and "digits_value ds < 2 ^ 60" and "- (2 ^ 60) < sint b" and "sint b < 2 ^ 60"
  shows "PyLong_FromLong ((if neg then - a else a) - b) = long_of_value (long_value (PyLong neg ds) - sint b)"
proof -
  let ?n = "long_value (PyLong neg ds) - sint b"
  have "word_of_int (digits_value ds) = a" using assms(1) by (metis word_of_int_uint)
  then have "(if neg then - a else a) = word_of_int (long_value (PyLong neg ds))"
    by (cases neg) (auto simp: wi_hom_neg [symmetric])
  moreover have "word_of_int (sint b) = b" by (simp only: of_int_sint scast_id)
  ultimately have "(if neg then - a else a) - b = word_of_int ?n"
    by (simp only: of_int_diff)
  moreover have "\<bar>long_value (PyLong neg ds)\<bar> < 2 ^ 60"
    using assms(2) digits_value_nonneg [of ds] by (cases neg) (simp_all only: long_value.simps if_True if_False abs_minus abs_of_nonneg)
  then have "- (2 ^ 63) \<le> ?n" "?n < 2 ^ 63" using assms(3,4) by (simp_all add: abs_less_iff del: long_value.simps)
  ultimately show ?thesis using sint_64 [of ?n] by (simp add: PyLong_FromLong_def long_of_value_def)
qed

lemma long_subtract_exact:
  assumes "canonical x" and "- (2 ^ 60) < sint b" and "sint b < 2 ^ 60"
  shows "long_subtract x b = long_of_value (long_value x - sint b)"
proof -
  obtain neg ds where x: "x = PyLong neg ds" by (cases x)
  have digit: "uint d < 2 ^ 30" if "d \<in> set ds" for d
    using assms(1) that by (auto simp: x PyLong_SHIFT_def list_all_iff)
  show ?thesis
  proof (cases "length ds \<le> 1")
    case True
    let ?a = "(case ds of [] \<Rightarrow> 0 | d # _ \<Rightarrow> ucast d) :: 64 word"
    have "uint (ucast d :: 64 word) = uint d" for d :: digit
      by (rule uint_up_ucast) (simp add: is_up)
    then have "uint ?a = digits_value ds" using True by (cases ds) simp_all
    moreover have "digits_value ds < 2 ^ 60" using True digit by (cases ds) (fastforce simp: PyLong_SHIFT_def)+
    ultimately show ?thesis using True in_c_exact [of ?a ds b neg] assms(2,3) by (simp add: x long_subtract_def)
  next
    case more: False
    show ?thesis
    proof (cases "length ds = 2")
      case True
      then obtain d0 d1 where ds: "ds = [d0, d1]" by (auto simp: length_Suc_conv numeral_2_eq_2)
      have d: "uint d0 < 2 ^ PyLong_SHIFT" "uint d1 < 2 ^ PyLong_SHIFT" using digit by (simp_all add: ds PyLong_SHIFT_def)
      then have "digits_value ds < 2 ^ 60" by (simp add: ds PyLong_SHIFT_def)
      then show ?thesis using in_c_exact [OF two_digits [OF d], of b neg] assms(2,3)
        by (simp add: x ds long_subtract_def LONG_BITS_def PyLong_SHIFT_def)
    next
      case False
      then show ?thesis using more by (simp add: x long_subtract_def LONG_BITS_def PyLong_SHIFT_def)
    qed
  qed
qed

end
