(* ===== verification/Loqui_ObjectCalls.thy ===== *)
theory Loqui_ObjectCalls
  imports Loqui_SessionCalls Loqui_Pickle Loqui_Reconnect Loqui_Arithmetic
begin

text \<open>
  The remaining calls from Python that bring arguments: the constructors of \<open>SocketWatcher\<close>, \<open>Backoff\<close>,
  \<open>LoquiSocketSession\<close> and the clients, the watcher's \<open>mark_ready\<close>, which is the callback of gevent's io watchers, and the client's
  \<open>send_request\<close>, whose \<open>retries\<close> may be any object.
\<close>

section \<open>Socket watcher\<close>

definition new_SocketWatcher :: "python \<Rightarrow> pyobj list \<Rightarrow> kwargs option \<Rightarrow> SocketWatcher py" where
  "new_SocketWatcher P args kwds =
     py_bind (all_arguments [''sock_fileno''] args kwds) (\<lambda>vs.
       py_bind (convert P PyInt_As_int (vs ! 0)) (\<lambda>n. Inr (SocketWatcher_cinit (sint n))))"

text \<open>\<open>read\<close> is true by default. The method returns \<open>None\<close>.\<close>

definition call_mark_ready ::
    "python \<Rightarrow> pyobj list \<Rightarrow> kwargs option \<Rightarrow> SocketWatcher \<Rightarrow> SocketWatcher \<times> unit py" where
  "call_mark_ready P args kwds w =
     (case py_bind (bind_arguments [''fileno'', ''read''] 1 args kwds) (\<lambda>vs.
        py_bind (case vs ! 0 of Some x \<Rightarrow> convert P PyInt_As_int x | None \<Rightarrow> Inl TypeError) (\<lambda>n.
        py_bind (or_default True (is_true P) (vs ! 1)) (\<lambda>read. Inr (sint n, read)))) of
        Inl e \<Rightarrow> (w, Inl e)
      | Inr (fileno, read) \<Rightarrow> (mark_ready fileno read w, Inr ()))"

section \<open>Backoff\<close>

text \<open>\<open>min_delay * 10\<close>; what an object of another type makes of it is a parameter.\<close>

fun times_ten :: "rounding \<Rightarrow> (nat \<Rightarrow> pyobj py) \<Rightarrow> pyobj \<Rightarrow> pyobj py" where
  "times_ten R other (PyInt n) = Inr (PyInt (n * 10))"
| "times_ten R other (PyBool b) = Inr (PyInt (of_bool b * 10))"
| "times_ten R other (PyFloat r) = Inr (PyFloat (to_double R (r * 10)))"
| "times_ten R other (PyOther k) = other k"
| "times_ten R other (PyBytes b) = Inr (PyBytes (concat (replicate 10 b)))"
| "times_ten R other (PyText t) = Inr (PyText (concat (replicate 10 t)))"
| "times_ten R other (PyList xs) = Inr (PyList (concat (replicate 10 xs)))"
| "times_ten R other (PyTuple xs) = Inr (PyTuple (concat (replicate 10 xs)))"
| "times_ten R other _ = Inl TypeError"

text \<open>\<open>__init__\<close> with its wrapper; an exception leaves the fields written until then.\<close>

definition call_Backoff_init ::
    "rounding \<Rightarrow> python \<Rightarrow> (nat \<Rightarrow> pyobj py) \<Rightarrow> pyobj list \<Rightarrow> kwargs option \<Rightarrow> Backoff \<Rightarrow> Backoff \<times> unit py" where
  "call_Backoff_init R P other args kwds b =
     (case bind_arguments [''min_delay'', ''max_delay'', ''jitter''] 0 args kwds of
        Inl e \<Rightarrow> (b, Inl e)
      | Inr vs \<Rightarrow>
          let mn = (case vs ! 0 of Some x \<Rightarrow> x | None \<Rightarrow> PyFloat (1 / 2));
              mx = (case vs ! 1 of Some x \<Rightarrow> x | None \<Rightarrow> PyNone);
              jit = (case vs ! 2 of Some x \<Rightarrow> x | None \<Rightarrow> PyBool True)
          in case as_double R P mn of
               Inl e \<Rightarrow> (b, Inl e)
             | Inr m \<Rightarrow>
                 let b = b\<lparr>min_delay := to_float R m\<rparr> in
                 case py_bind (if mx = PyNone then times_ten R other mn else Inr mx) (as_double R P) of
                   Inl e \<Rightarrow> (b, Inl e)
                 | Inr x \<Rightarrow>
                     let b = b\<lparr>max_delay := to_float R x\<rparr> in
                     case is_true P jit of
                       Inl e \<Rightarrow> (b, Inl e)
                     | Inr j \<Rightarrow> (b\<lparr>use_jitter := j, current_delay := min_delay b, fail_count := 0\<rparr>, Inr ()))"

section \<open>Session\<close>

text \<open>
  \<open>fileno_of\<close> is the socket's method \<open>fileno\<close>, \<open>codecs_of\<close> the encoders that a dict stands for. A handler counts when it is
  true; one whose truth test raises is not represented.
\<close>

definition new_LoquiSocketSession ::
    "python \<Rightarrow> allocator \<Rightarrow> (pyobj \<Rightarrow> pyobj py) \<Rightarrow> (pyobj \<Rightarrow> (byte list \<times> 'd codec) list) \<Rightarrow>
      pyobj list \<Rightarrow> kwargs option \<Rightarrow> ('d, unit) op py" where
  "new_LoquiSocketSession P alloc fileno_of codecs_of args kwds =
     py_bind (bind_arguments [''sock'', ''encoders'', ''is_client'', ''on_request'', ''on_push''] 2 args kwds) (\<lambda>vs.
       py_bind (or_default True (is_true P) (vs ! 2)) (\<lambda>client.
       let sock = (case vs ! 0 of Some x \<Rightarrow> x | None \<Rightarrow> PyNone);
           encoders = (case vs ! 1 of Some x \<Rightarrow> x | None \<Rightarrow> PyNone);
           handles = (\<lambda>v. case v of Some x \<Rightarrow> is_true P x = Inr True | None \<Rightarrow> False)
       in py_bind (fileno_of sock) (\<lambda>n.
          py_bind (convert P PyInt_As_int n) (\<lambda>fileno.
          Inr (session_cinit alloc (sint fileno) (codecs_of encoders) client (handles (vs ! 3)) (handles (vs ! 4)))))))"

section \<open>Client\<close>

text \<open>
  What \<open>deque\<close> makes of its \<open>maxlen\<close>: \<open>None\<close> is no bound; a number must fit \<open>Py_ssize_t\<close> and not be negative. On Python 3 it
  must be an \<open>int\<close> (\<open>int_of\<close> is what a foreign type gives); Python 2 takes any number.
\<close>

fun index_int :: "(nat \<Rightarrow> int py) \<Rightarrow> pyobj \<Rightarrow> int py" where
  "index_int int_of (PyInt n) = Inr n"
| "index_int int_of (PyBool b) = Inr (of_bool b)"
| "index_int int_of (PyOther k) = int_of k"
| "index_int int_of _ = Inl TypeError"

definition deque_maxlen :: "bool \<Rightarrow> python \<Rightarrow> (nat \<Rightarrow> int py) \<Rightarrow> pyobj \<Rightarrow> nat option py" where
  "deque_maxlen py3 P int_of x =
     (if x = PyNone then Inr None
      else py_bind (if py3 then index_int int_of x else number_int P x) (\<lambda>n.
        if n < - (2 ^ 63) \<or> 2 ^ 63 \<le> n then Inl OverflowError
        else if n < 0 then Inl ValueError
        else Inr (Some (nat n))))"

fun tuple_argument :: "pyobj \<Rightarrow> pyobj list option py" where
  "tuple_argument PyNone = Inr None"
| "tuple_argument (PyTuple xs) = Inr (Some xs)"
| "tuple_argument _ = Inl TypeError"

definition given :: "pyobj \<Rightarrow> pyobj option \<Rightarrow> pyobj" where
  "given d v = (case v of None \<Rightarrow> d | Some x \<Rightarrow> x)"

text \<open>
  \<open>__init__\<close> of both client classes with its wrapper, on a new object. \<open>host_of\<close> is the text of the address's first item,
  \<open>default_encoders\<close> what \<open>encoders.py\<close> has. The time-out is only converted here.
\<close>

definition new_LoquiClient ::
    "bool \<Rightarrow> rounding \<Rightarrow> python \<Rightarrow> (nat \<Rightarrow> pyobj py) \<Rightarrow> (nat \<Rightarrow> int py) \<Rightarrow> (pyobj list option \<Rightarrow> byte list) \<Rightarrow>
      (pyobj \<Rightarrow> (byte list \<times> 'd codec) list) \<Rightarrow> pyobj \<Rightarrow> bool \<Rightarrow> pyobj list \<Rightarrow> kwargs option \<Rightarrow> 'd client py" where
  "new_LoquiClient py3 R P other int_of host_of codecs_of default_encoders upgrade args kwds =
     py_bind (bind_arguments [''address'', ''push_handler'', ''connect_timeout'', ''max_push_queue_len'', ''encoders''] 1 args kwds)
     (\<lambda>vs. py_bind (tuple_argument (given PyNone (vs ! 0))) (\<lambda>address.
       py_bind (convert P PyInt_As_int (given (PyInt 5) (vs ! 2))) (\<lambda>connect_timeout.
       py_bind (deque_maxlen py3 P int_of (given (PyInt 5000) (vs ! 3))) (\<lambda>maxlen.
       let c = client_init R (host_of address) (is_true P (given PyNone (vs ! 1)) = Inr True) maxlen
                 (codecs_of (given default_encoders (vs ! 4))) upgrade
       in case call_Backoff_init R P other [] (Some [(''min_delay'', PyFloat (1 / 4)), (''max_delay'', PyInt 2)])
                 \<lparr>min_delay = 0, max_delay = 0, current_delay = 0, fail_count = 0, use_jitter = False\<rparr> of
            (b, Inl e) \<Rightarrow> Inl e
          | (b, Inr u) \<Rightarrow> Inr (c\<lparr>client_backoff := b\<rparr>)))))"

section \<open>Requests of the client\<close>

text \<open>\<open>retries - 1\<close>\<close>

fun minus_one :: "rounding \<Rightarrow> (nat \<Rightarrow> pyobj py) \<Rightarrow> pyobj \<Rightarrow> pyobj py" where
  "minus_one R other (PyInt n) = Inr (PyInt (n - 1))"
| "minus_one R other (PyBool b) = Inr (PyInt (of_bool b - 1))"
| "minus_one R other (PyFloat r) = Inr (PyFloat (to_double R (r - 1)))"
| "minus_one R other (PyOther k) = other k"
| "minus_one R other _ = Inl TypeError"

lemma minus_one_digits:
  "canonical x \<Longrightarrow> minus_one R other (PyInt (long_value x)) = Inr (PyInt (long_value (long_subtract x 1)))"
  by (simp add: long_subtract_exact)

text \<open>
  \<open>send_request\<close> for any \<open>retries\<close>. The method calls itself from its exception handler, as a C function, so each attempt
  keeps a frame of the C stack, which has room for \<open>frames\<close> of them; overflowing it is undefined. The \<open>j\<close>-th attempt meets the
  network \<open>ws j\<close>.
\<close>

primrec send_request_retrying ::
    "rounding \<Rightarrow> python \<Rightarrow> (nat \<Rightarrow> pyobj py) \<Rightarrow> (nat \<Rightarrow> attempt) \<Rightarrow> nat \<Rightarrow> 'd \<Rightarrow> bool \<Rightarrow> nat \<Rightarrow>
      nat \<Rightarrow> pyobj \<Rightarrow> 'd client \<Rightarrow> ('d, 'd answer) client_op" where
  "send_request_retrying R P other ws g data timeout 0 j retries c = Undefined"
| "send_request_retrying R P other ws g data timeout (Suc frames) j retries c =
     catching (connect_and_request (ws j) g data timeout c) (\<lambda>c e.
       if is_connection_error e
       then (case is_true P retries of
               Inl e' \<Rightarrow> Ret c (Inl e')
             | Inr False \<Rightarrow> Ret c (Inl e)
             | Inr True \<Rightarrow>
                 (case minus_one R other retries of
                    Inl e' \<Rightarrow> Ret c (Inl e')
                  | Inr retries \<Rightarrow> send_request_retrying R P other ws g data timeout frames (Suc j) retries c))
       else Ret c (Inl e))"

definition call_client_send_request ::
    "rounding \<Rightarrow> python \<Rightarrow> (nat \<Rightarrow> pyobj py) \<Rightarrow> (nat \<Rightarrow> attempt) \<Rightarrow> nat \<Rightarrow> nat \<Rightarrow>
      pyobj list \<Rightarrow> kwargs option \<Rightarrow> pyobj client \<Rightarrow> (pyobj, pyobj answer) client_op" where
  "call_client_send_request R P other ws g frames args kwds c =
     (case bind_arguments [''request_data'', ''timeout'', ''retries''] 1 args kwds of
        Inl e \<Rightarrow> Ret c (Inl e)
      | Inr vs \<Rightarrow>
          send_request_retrying R P other ws g (case vs ! 0 of Some d \<Rightarrow> d | None \<Rightarrow> PyNone)
            (vs ! 1 \<noteq> None \<and> vs ! 1 \<noteq> Some PyNone) frames 0
            (case vs ! 2 of Some r \<Rightarrow> r | None \<Rightarrow> PyInt 3) c)"

text \<open>A count of retries that is not negative counts down, as \<open>client_send_request\<close> has it.\<close>

lemma catching_cong: "(\<And>s e. f s e = g s e) \<Longrightarrow> catching p f = catching p g"
  by (induction p) (auto split: sum.split)

lemma retrying_counts_down:
  "n < frames \<Longrightarrow> send_request_retrying R P other ws g data timeout frames j (PyInt (int n)) c =
     client_send_request (\<lambda>k. ws (j + n - k)) g data timeout n c"
proof (induction n arbitrary: frames j c)
  case 0
  then obtain f where "frames = Suc f" by (cases frames) simp_all
  moreover have "catching p (\<lambda>c e. if is_connection_error e then Ret c (Inl e) else Ret c (Inl e)) = p" for p :: "('d, 'd answer) client_op"
    by (induction p) (auto split: sum.split)
  ultimately show ?case by (simp cong: if_cong)
next
  case (Suc n)
  then obtain f where f: "frames = Suc f" "n < f" by (cases frames) simp_all
  have "send_request_retrying R P other ws g data timeout f (Suc j) (PyInt (int n)) c =
      client_send_request (\<lambda>k. ws (j + Suc n - k)) g data timeout n c" for c
    using Suc.IH [OF f(2), of "Suc j"] by simp
  then show ?case by (simp add: f(1) cong: if_cong)
qed

text \<open>A count below zero never gets to zero, nor does a float that is no integer.\<close>

lemma retrying_for_ever:
  assumes "current_session c = None" and "session_lock c = None" and "\<forall>k. connect_result (ws k) = Inl SocketError"
    and "n < 0"
  shows "alone (send_request_retrying R P other ws g data timeout frames j (PyInt n) c) = None"
  using assms
proof (induction frames arbitrary: j n c)
  case (Suc f)
  let ?c = "c\<lparr>client_backoff := fst (backoff_fail (arithmetic (ws j)) (fail_random (ws j)) (client_backoff c))\<rparr>"
  have "alone (connect_and_request (ws j) g data timeout c) = Some (?c, Inl ConnectionError)"
    using request_when_refused [of c "ws j"] Suc.prems by simp
  then have "alone (send_request_retrying R P other ws g data timeout (Suc f) j (PyInt n) c) =
      alone (send_request_retrying R P other ws g data timeout f (Suc j) (PyInt (n - 1)) ?c)"
    using Suc.prems(4) by (simp add: alone_catching(2) is_connection_error_def)
  also have "\<dots> = None" using Suc.IH [of ?c "n - 1" "Suc j"] Suc.prems by simp
  finally show ?case .
qed simp

section \<open>Properties\<close>

lemma request_binding:
  "set (List.map fst kw) \<subseteq> {''timeout'', ''retries''} \<Longrightarrow> distinct (List.map fst kw) \<Longrightarrow>
     bind_arguments [''request_data'', ''timeout'', ''retries''] 1 [d] (Some kw) =
       Inr [Some d, map_of kw ''timeout'', map_of kw ''retries'']"
  using bind_keywords [of "[''request_data'', ''timeout'', ''retries'']" kw 1 "[d]"] by (simp add: python_binding_def)

lemma request_positional:
  "bind_arguments [''request_data'', ''timeout'', ''retries''] 1 [d] None = Inr [Some d, None, None]"
  by (simp add: bind_arguments_def numeral_eq_Suc)

text \<open>
  C27: The client retries as often as it is told, unless it is told a number below zero. A call with
  \<open>retries\<close> not negative, given by keyword or left to its default of 3, is the counted request of \<open>client_send_request\<close>, provided the C
  stack has a frame for each attempt; but with a negative number and a server that
  refuses every connection, the request never returns: it recurses, however large the stack is.
\<close>

theorem requests_retry_as_told:
  assumes "n < frames" and "3 < frames"
  shows "call_client_send_request R P other ws g frames [d] (Some [(''retries'', PyInt (int n))]) c =
      client_send_request (\<lambda>k. ws (n - k)) g d False n c \<and>
    call_client_send_request R P other ws g frames [d] None c = client_send_request (\<lambda>k. ws (3 - k)) g d False 3 c \<and>
    (current_session c = None \<and> session_lock c = None \<and> (\<forall>k. connect_result (ws k) = Inl SocketError) \<and> m < 0 \<longrightarrow>
      alone (call_client_send_request R P other ws g stack [d] (Some [(''retries'', PyInt m)]) c) = None)"
  using retrying_counts_down [OF assms(1), of R P other ws g d False 0 c]
    retrying_counts_down [OF assms(2), of R P other ws g d False 0 c] retrying_for_ever [of c ws m R P other g d False stack 0]
  by (simp add: call_client_send_request_def request_binding request_positional del: One_nat_def)

definition fresh_client :: "pyobj client" where
  "fresh_client = client_init hundredths [] False (Some 5000) [] False"

text \<open>Two retries, and \<open>retries=-1\<close> with a million frames against a server that refuses.\<close>

lemma requests_retry_as_told_witness:
  "call_client_send_request hundredths plain_python (\<lambda>_. Inl TypeError) (\<lambda>_. idle_attempt\<lparr>connect_result := Inl SocketError\<rparr>) 0 5
      [PyInt 7] (Some [(''retries'', PyInt 2)]) fresh_client =
    client_send_request (\<lambda>_. idle_attempt\<lparr>connect_result := Inl SocketError\<rparr>) 0 (PyInt 7) False 2 fresh_client \<and>
    alone (call_client_send_request hundredths plain_python (\<lambda>_. Inl TypeError)
        (\<lambda>_. idle_attempt\<lparr>connect_result := Inl SocketError\<rparr>) 0 1000000 [PyInt 7] (Some [(''retries'', PyInt (- 1))]) fresh_client) = None"
proof -
  let ?ws = "\<lambda>_ :: nat. idle_attempt\<lparr>connect_result := Inl SocketError\<rparr>"
  have "current_session fresh_client = None" "session_lock fresh_client = None" "connect_result (?ws 0) = Inl SocketError"
    by (simp_all add: fresh_client_def client_init_def idle_attempt_def)
  then show ?thesis
    using requests_retry_as_told [where frames = 5 and n = 2 and ws = ?ws and c = fresh_client and m = "- 1" and stack = 1000000
      and d = "PyInt 7" and g = 0 and R = hundredths and P = plain_python and other = "\<lambda>_. Inl TypeError"] by simp
qed

section \<open>The library's own calls\<close>

text \<open>What the client's constructor and \<open>connect\<close> pass is what \<open>client_init\<close> and \<open>new_session\<close> have in place of the calls.\<close>

lemma client_backoff_call:
  assumes "to_double R (1 / 4) = 1 / 4" and "to_double R 2 = 2"
  shows "call_Backoff_init R P other [] (Some [(''min_delay'', PyFloat (1 / 4)), (''max_delay'', PyInt 2)]) b =
    (Backoff_init R (1 / 4) (Some 2) True, Inr ())"
proof -
  have "bind_arguments [''min_delay'', ''max_delay'', ''jitter''] 0 []
      (Some [(''min_delay'', PyFloat (1 / 4)), (''max_delay'', PyInt 2)]) = Inr [Some (PyFloat (1 / 4)), Some (PyInt 2), None]"
    using bind_keywords [of "[''min_delay'', ''max_delay'', ''jitter'']" "[(''min_delay'', PyFloat (1 / 4)), (''max_delay'', PyInt 2)]" 0 "[]"]
    by (simp add: python_binding_def)
  moreover have "(2 :: int) < 2 ^ 1024" by simp
  ultimately show ?thesis
    by (cases b) (simp add: call_Backoff_init_def Backoff_init_def Let_def assms)
qed

text \<open>
  Constructing a client: any address that is a tuple, any handler; the length of the queue of pushes must not be negative,
  and \<open>None\<close> leaves it without a bound.
\<close>

lemma client_constructed:
  fixes codecs_of :: "pyobj \<Rightarrow> (byte list \<times> 'd codec) list"
    and py3 P other int_of host_of encs upgrade a
  assumes "to_double R (1 / 4) = 1 / 4" and "to_double R 2 = 2" and "- (2 ^ 63) \<le> n" and "n < 2 ^ 63"
  defines "new \<equiv> new_LoquiClient py3 R P other int_of host_of codecs_of encs upgrade [PyTuple a]"
  shows "new None = Inr (client_init R (host_of (Some a)) False (Some 5000) (codecs_of encs) upgrade)"
    "new (Some [(''max_push_queue_len'', PyInt n)]) =
       (if n < 0 then Inl ValueError
        else Inr (client_init R (host_of (Some a)) False (Some (nat n)) (codecs_of encs) upgrade))"
    "new (Some [(''push_handler'', h), (''max_push_queue_len'', PyNone)]) =
       Inr (client_init R (host_of (Some a)) (is_true P h = Inr True) None (codecs_of encs) upgrade)"
proof -
  let ?names = "[''address'', ''push_handler'', ''connect_timeout'', ''max_push_queue_len'', ''encoders'']"
  have none: "bind_arguments ?names 1 [PyTuple a] None = Inr [Some (PyTuple a), None, None, None, None]"
    by (simp add: bind_arguments_def numeral_eq_Suc)
  have len: "bind_arguments ?names 1 [PyTuple a] (Some [(''max_push_queue_len'', x)]) = Inr [Some (PyTuple a), None, None, Some x, None]" for x
    using bind_keywords [of ?names "[(''max_push_queue_len'', x)]" 1 "[PyTuple a]"] by (simp add: python_binding_def)
  have both: "bind_arguments ?names 1 [PyTuple a] (Some [(''push_handler'', h), (''max_push_queue_len'', x)]) =
      Inr [Some (PyTuple a), Some h, None, Some x, None]" for x
    using bind_keywords [of ?names "[(''push_handler'', h), (''max_push_queue_len'', x)]" 1 "[PyTuple a]"]
    by (simp add: python_binding_def)
  have init: "(client_init R x y z e u)\<lparr>client_backoff := Backoff_init R (1 / 4) (Some 2) True\<rparr> = client_init R x y z e u"
    for x y z and e :: "(byte list \<times> 'd codec) list" and u
    by (simp add: client_init_def)
  note simps = new_def new_LoquiClient_def given_def convert_def PyInt_As_int_def deque_maxlen_def client_backoff_call [OF assms(1,2)] init
  show "new None = Inr (client_init R (host_of (Some a)) False (Some 5000) (codecs_of encs) upgrade)"
    by (simp add: simps none del: One_nat_def)
  show "new (Some [(''max_push_queue_len'', PyInt n)]) =
       (if n < 0 then Inl ValueError
        else Inr (client_init R (host_of (Some a)) False (Some (nat n)) (codecs_of encs) upgrade))"
    using assms(3,4) by (simp add: simps len del: One_nat_def)
  show "new (Some [(''push_handler'', h), (''max_push_queue_len'', PyNone)]) =
       Inr (client_init R (host_of (Some a)) (is_true P h = Inr True) None (codecs_of encs) upgrade)"
    by (simp add: simps both del: One_nat_def)
qed

lemma client_session_call:
  assumes "fileno_of sock = Inr (PyInt n)" and "- (2 ^ 31) \<le> n" and "n < 2 ^ 31"
  shows "new_LoquiSocketSession P alloc fileno_of codecs_of [sock] (Some [(''encoders'', e), (''on_push'', x)]) =
    Inr (session_cinit alloc n (codecs_of e) True False (is_true P x = Inr True))"
proof -
  let ?names = "[''sock'', ''encoders'', ''is_client'', ''on_request'', ''on_push'']"
  have b: "bind_arguments ?names 2 [sock] (Some [(''encoders'', e), (''on_push'', x)]) = Inr [Some sock, Some e, None, None, Some x]"
    using bind_keywords [of ?names "[(''encoders'', e), (''on_push'', x)]" 2 "[sock]"] by (simp add: python_binding_def)
  have "sint (word_of_int n :: u32) = n" using assms(2,3) by (simp add: sint_sbintrunc' signed_take_bit_int_eq_self)
  then show ?thesis using assms by (simp add: new_LoquiSocketSession_def b or_default_def convert_def PyInt_As_int_def)
qed

end
