(* ===== verification/Loqui_RunLoop.thy ===== *)
theory Loqui_RunLoop
  imports Loqui_Exchange
begin

text \<open>
  The run loop as a whole (\<open>py/loqui/socket_session.c\<close>, \<open>_run_loop\<close>): its start, its turns, the stretches of which
  \<open>Loqui_Events\<close> has, its waits, and gevent's io watchers, through which the hub calls \<open>mark_ready\<close> when the socket
  can be read or written. A watcher is started and stopped; starting a started one changes nothing. The property is that bytes
  that are queued get noticed while the loop waits.
\<close>

section \<open>The loop\<close>

text \<open>
  The session, the loop's local variables, and where its greenlet is: \<open>in_turn\<close> from the end of a wait to the next. The local
  \<open>write_watcher_started\<close> of the source is never set, so the code always takes the watcher for stopped.
\<close>

record 'd loop =
  loop_session :: "'d session"
  in_turn :: bool
  read_watcher :: bool
  write_watcher :: bool
  bytes_written :: "size_t option"

text \<open>A call on the session, made by the loop: the local variables are its own across a wait.\<close>

primrec at_loop :: "('d session, 'a) proc \<Rightarrow> 'd loop \<Rightarrow> ('d loop, 'a) proc" where
  "at_loop Undefined l = Undefined"
| "at_loop (Ret s r) l = Ret (l\<lparr>loop_session := s\<rparr>) r"
| "at_loop (Wait c s k) l =
     Wait (\<lambda>t. c (loop_session t)) (l\<lparr>loop_session := s\<rparr>) (\<lambda>t. at_loop (k (loop_session t)) t)"

text \<open>\<open>if write_watcher_started == False and write_buffer_len() > 0: sock_write_watcher.start(...)\<close>\<close>

definition start_write_watcher :: "'d loop \<Rightarrow> 'd loop" where
  "start_write_watcher l =
     (if write_buffer_len (stream (loop_session l)) > 0 then l\<lparr>write_watcher := True\<rparr> else l)"

text \<open>The \<open>finally\<close> block.\<close>

definition stop_watchers :: "'d loop \<Rightarrow> 'd loop" where
  "stop_watchers l = l\<lparr>read_watcher := False, write_watcher := False, in_turn := False\<rparr>"

text \<open>
  One turn, from the end of the wait: what \<open>recv\<close> and \<open>send\<close> do in it is \<open>io\<close>. When the buffer is
  empty after a write, the write watcher is stopped.
\<close>

definition run_loop_turn ::
    "allocator \<Rightarrow> bool \<Rightarrow> 'd callbacks \<Rightarrow> recv_result \<times> send_result \<Rightarrow> 'd loop \<Rightarrow> ('d loop, turn) proc" where
  "run_loop_turn alloc py3 cb io l =
     and_then (at_loop (run_loop_read alloc py3 cb (fst io) (loop_session l)) l) (\<lambda>l t.
       if t \<noteq> GoOn then Ret l (Inr t)
       else
         let writing = sock_should_write (loop_session l) in
         and_then (at_loop (run_loop_write alloc py3 (bytes_written l) (snd io) (loop_session l)) l) (\<lambda>l (n, t).
           let l = l\<lparr>bytes_written := n\<rparr> in
           if t \<noteq> GoOn then Ret l (Inr t)
           else
             let l = (if writing \<and> \<not> sock_write_blocked (watcher (loop_session l)) then l\<lparr>write_watcher := False\<rparr> else l)
             in Ret (l\<lparr>loop_session := run_loop_end py3 (loop_session l)\<rparr>) (Inr StartOver)))"

text \<open>The loop for up to \<open>n\<close> turns; the \<open>i\<close>-th from the end meets \<open>ios i\<close>.\<close>

definition enter_turn :: "'d loop \<Rightarrow> 'd loop" where
  "enter_turn l = l\<lparr>in_turn := True\<rparr>"

primrec run_loop_turns ::
    "allocator \<Rightarrow> bool \<Rightarrow> 'd callbacks \<Rightarrow> (nat \<Rightarrow> recv_result \<times> send_result) \<Rightarrow> nat \<Rightarrow> 'd loop \<Rightarrow> ('d loop, unit) proc" where
  "run_loop_turns alloc py3 cb ios 0 l = Ret l (Inr ())"
| "run_loop_turns alloc py3 cb ios (Suc n) l =
     (if \<not> has_sock (loop_session l) then Ret (stop_watchers l) (Inr ())
      else
        let l = start_write_watcher l;
            (s, now) = run_loop_wait (loop_session l);
            turn = (\<lambda>l. catching
              (and_then (run_loop_turn alloc py3 cb (ios n) (enter_turn l)) (\<lambda>l t.
                 if t = LoopEnds then Ret (stop_watchers l) (Inr False) else Ret l (Inr True)))
              (\<lambda>l e. Ret (stop_watchers l) (Inl e)));
            rest = (\<lambda>l. and_then (turn l) (\<lambda>l more.
              if more then run_loop_turns alloc py3 cb ios n (l\<lparr>in_turn := False\<rparr>) else Ret l (Inr ())))
        in if now then rest (l\<lparr>loop_session := s\<rparr>)
           else Wait (\<lambda>l. \<not> waiter_blocked (watcher (loop_session l))) (l\<lparr>loop_session := s\<rparr>) rest)"

text \<open>
  The greenlet from its start: reading \<open>self._sock.recv\<close> raises \<open>AttributeError\<close> when the socket is gone already; the read watcher is started
  and stays started.
\<close>

definition run_loop_start :: "'d session \<Rightarrow> 'd loop" where
  "run_loop_start s =
     \<lparr>loop_session = s, in_turn = False, read_watcher = True, write_watcher = False, bytes_written = None\<rparr>"

definition run_loop ::
    "allocator \<Rightarrow> bool \<Rightarrow> 'd callbacks \<Rightarrow> (nat \<Rightarrow> recv_result \<times> send_result) \<Rightarrow> nat \<Rightarrow> 'd session \<Rightarrow> ('d loop, unit) proc" where
  "run_loop alloc py3 cb ios n s =
     (if \<not> has_sock s then Ret (stop_watchers (run_loop_start s)) (Inl AttributeError)
      else run_loop_turns alloc py3 cb ios n (run_loop_start s))"

section \<open>Staying in an invariant\<close>

text \<open>
  \<open>stays F I Q p\<close>: wherever the process waits, \<open>I\<close> holds, if the others keep \<open>I\<close> and leave alone what \<open>F\<close> gives of the state;
  and where it ends, \<open>Q\<close> does. (That it is never undefined is shown in \<open>Loqui_Invariant\<close>.)
\<close>

primrec stays :: "('s \<Rightarrow> 'f) \<Rightarrow> ('s \<Rightarrow> bool) \<Rightarrow> ('s \<Rightarrow> 'a py \<Rightarrow> bool) \<Rightarrow> ('s, 'a) proc \<Rightarrow> bool" where
  "stays F I Q Undefined = True"
| "stays F I Q (Ret s r) = Q s r"
| "stays F I Q (Wait c s k) = (I s \<and> (\<forall>t. I t \<and> F t = F s \<and> c t \<longrightarrow> stays F I Q (k t)))"

lemma stays_and_then:
  "stays F I Q p \<Longrightarrow> (\<And>s x. Q s (Inr x) \<Longrightarrow> stays F I R (f s x)) \<Longrightarrow> (\<And>s e. Q s (Inl e) \<Longrightarrow> R s (Inl e)) \<Longrightarrow>
     stays F I R (and_then p f)"
  by (induction p) (auto split: sum.split)

lemma stays_catching:
  "stays F I Q p \<Longrightarrow> (\<And>s e. Q s (Inl e) \<Longrightarrow> stays F I R (f s e)) \<Longrightarrow> (\<And>s x. Q s (Inr x) \<Longrightarrow> R s (Inr x)) \<Longrightarrow>
     stays F I R (catching p f)"
  by (induction p) (auto split: sum.split)

lemma stays_mono: "stays F I Q p \<Longrightarrow> (\<And>s r. Q s r \<Longrightarrow> R s r) \<Longrightarrow> stays F I R p"
  by (induction p) auto

section \<open>Noticing\<close>

text \<open>
  \<open>calm\<close>: in a turn the greenlet is not blocked; while it waits with its write watcher stopped, no switch is thought to be under
  way; and the socket is taken for blocked only with the watcher started. \<open>noticed\<close>: besides, when it is blocked so and
  bytes are queued, the hub has a callback to run, which resumes it. \<open>turn\<close> and \<open>ww\<close> are the loop's.
\<close>

definition calm :: "bool \<Rightarrow> bool \<Rightarrow> 'd session \<Rightarrow> bool" where
  "calm turn ww s \<longleftrightarrow>
     (turn \<longrightarrow> \<not> waiter_blocked (watcher s)) \<and> (sock_write_blocked (watcher s) \<longrightarrow> ww) \<and>
     (has_sock s \<and> waiter_blocked (watcher s) \<and> \<not> ww \<longrightarrow> \<not> is_switching (watcher s))"

definition noticed :: "bool \<Rightarrow> bool \<Rightarrow> 'd session \<Rightarrow> bool" where
  "noticed turn ww s \<longleftrightarrow> calm turn ww s \<and>
     (has_sock s \<and> waiter_blocked (watcher s) \<and> \<not> ww \<and> write_buffer_len (stream s) \<noteq> 0 \<longrightarrow> hub_callbacks (watcher s) > 0)"

lemmas noticed_defs = noticed_def calm_def

text \<open>In a turn, \<open>noticed\<close> says nothing about the stream: only the watcher's flags count.\<close>

lemma calm_turn: "noticed True ww s \<longleftrightarrow> \<not> waiter_blocked (watcher s) \<and> (sock_write_blocked (watcher s) \<longrightarrow> ww)"
  by (auto simp: noticed_defs)

lemma calm_stream [simp]: "calm turn ww (s\<lparr>stream := h\<rparr>) = calm turn ww s"
  by (simp add: calm_def)

lemma resume_noticed: "calm turn ww s \<Longrightarrow> noticed turn ww (resume_sending s)"
  by (auto simp: noticed_defs resume_sending_def watcher_defs)

text \<open>Changes of a session that leave its watcher and its stream alone.\<close>

lemma calm_updates [simp]:
  "calm turn ww (snd (new_result s)) = calm turn ww s" "calm turn ww (put_inflight q r s) = calm turn ww s"
  "noticed turn ww (snd (new_result s)) = noticed turn ww s" "noticed turn ww (put_inflight q r s) = noticed turn ww s"
  "noticed turn ww (set_result i v s) = noticed turn ww s" "noticed turn ww (snd (pop_inflight q s)) = noticed turn ww s"
  "noticed turn ww (s\<lparr>encoder_dumps := d, encoder_loads := e, session_encoding := n\<rparr>) = noticed turn ww s"
  "noticed turn ww (s\<lparr>is_ready := b, ready_event := b'\<rparr>) = noticed turn ww s"
  "calm turn ww (s\<lparr>results := rs\<rparr>) = calm turn ww s" "noticed turn ww (s\<lparr>results := rs\<rparr>) = noticed turn ww s"
  by (simp_all add: noticed_defs new_result_def put_inflight_def set_result_def pop_inflight_def)

lemma noticed_calm: "noticed turn ww s \<Longrightarrow> calm turn ww s"
  by (simp add: noticed_def)

section \<open>Calls by other greenlets\<close>

text \<open>
  What a call leaves: bytes noticed, unless it raises \<open>MemoryError\<close> (an allocation was refused, with part of a frame written) or
  \<open>SystemError\<close> (the sequence number wrapped to 0), which skip the notification.
\<close>

definition left_noticed :: "bool \<Rightarrow> bool \<Rightarrow> 'd session \<Rightarrow> 'a py \<Rightarrow> bool" where
  "left_noticed turn ww s r \<longleftrightarrow> noticed turn ww s \<or> r = Inl MemoryError \<or> r = Inl SystemError"

lemma noticed_stream_same:
  "write_buffer h = write_buffer (stream s) \<Longrightarrow> write_buffer_position h = write_buffer_position (stream s) \<Longrightarrow>
     noticed turn ww (s\<lparr>stream := h\<rparr>) = noticed turn ww s"
  by (simp add: noticed_defs write_buffer_len_def)

lemma next_seq_buffer [simp]:
  "write_buffer (fst (next_seq h)) = write_buffer h" "write_buffer_position (fst (next_seq h)) = write_buffer_position h"
  by (simp_all add: next_seq_def Let_def)

text \<open>A send method of the handler: an exception other than the two leaves the buffer.\<close>

definition clean_refusal :: "LoquiStreamHandler \<Rightarrow> (LoquiStreamHandler \<times> u32 py) option \<Rightarrow> bool" where
  "clean_refusal h r \<longleftrightarrow>
     (\<forall>h' v e. r = Some (h', v) \<and> except0 v = Inl e \<longrightarrow>
        write_buffer h' = write_buffer h \<and> write_buffer_position h' = write_buffer_position h \<or> e = MemoryError \<or> e = SystemError)"

lemma finish_send_clean: "clean_refusal h' (finish_send h r n)"
  by (auto simp: clean_refusal_def finish_send_def except0_def Let_def split: option.splits prod.splits if_splits)

lemma send_clean:
  "clean_refusal h (send_ping alloc h fl)" "clean_refusal h (send_request alloc h fl d)"
  "clean_refusal h (send_push alloc h fl d)" "clean_refusal h (send_response alloc h fl q d)"
  by (auto simp: send_ping_def send_request_def send_push_def send_response_def PyBytes_AsStringAndSize_def finish_send_clean
      case_prod_beta split: option.split)
    (auto simp: clean_refusal_def)

lemma send_then_resume:
  assumes "clean_refusal (stream s) r" and "noticed turn ww s"
    and "\<And>h x. stays (\<lambda>_. ()) (noticed turn ww) (left_noticed turn ww) (f (s\<lparr>stream := h\<rparr>) x)"
  shows "stays (\<lambda>_. ()) (noticed turn ww) (left_noticed turn ww) (and_then (on_stream s r) f)"
  using assms noticed_stream_same [of _ s turn ww]
  by (auto simp: on_stream_def clean_refusal_def left_noticed_def split: option.split sum.split)

lemma await_ready_noticed:
  "noticed turn ww s \<Longrightarrow> (\<And>s. noticed turn ww s \<Longrightarrow> stays (\<lambda>_. ()) (noticed turn ww) Q (k s)) \<Longrightarrow>
     stays (\<lambda>_. ()) (noticed turn ww) Q (await_ready s k)"
  by (simp add: await_ready_def)

lemma encode_noticed:
  "noticed turn ww s \<Longrightarrow> stays (\<lambda>_. ()) (noticed turn ww) (\<lambda>s _. noticed turn ww s) (encode_data d s)"
  unfolding encode_data_def by (rule await_ready_noticed) (auto split: option.split)

lemma calls_noticed:
  assumes "noticed turn ww s"
  shows "stays (\<lambda>_. ()) (noticed turn ww) (left_noticed turn ww) (session_send_push alloc d s)"
    "stays (\<lambda>_. ()) (noticed turn ww) (left_noticed turn ww) (session_send_request alloc d s)"
    "stays (\<lambda>_. ()) (noticed turn ww) (left_noticed turn ww) (session_send_response alloc q d s)"
    "stays (\<lambda>_. ()) (noticed turn ww) (left_noticed turn ww) (session_send_ping alloc s)"
proof -
  note [simp] = resume_noticed noticed_calm
  show "stays (\<lambda>_. ()) (noticed turn ww) (left_noticed turn ww) (session_send_push alloc d s)"
    unfolding session_send_push_def using assms
    by (auto simp: left_noticed_def intro!: stays_and_then [OF encode_noticed] send_then_resume send_clean)
  show "stays (\<lambda>_. ()) (noticed turn ww) (left_noticed turn ww) (session_send_request alloc d s)"
    unfolding session_send_request_def using assms
    by (auto simp: left_noticed_def new_result_def intro!: stays_and_then [OF encode_noticed] send_then_resume send_clean)
  have pop: "noticed turn ww (snd (pop_inflight q s))" using assms by simp
  show "stays (\<lambda>_. ()) (noticed turn ww) (left_noticed turn ww) (session_send_response alloc q d s)"
    unfolding session_send_response_def using assms pop
    by (auto simp: left_noticed_def simp del: calm_updates split: prod.split option.split
        intro!: stays_and_then [OF encode_noticed] send_then_resume send_clean)
  show "stays (\<lambda>_. ()) (noticed turn ww) (left_noticed turn ww) (session_send_ping alloc s)"
    unfolding session_send_ping_def using assms calm_updates(3) [of turn ww s]
    by (auto simp: left_noticed_def new_result_def intro!: send_then_resume send_clean)
qed

text \<open>The hub's callbacks, readiness, and the calls that do not wait.\<close>

lemma events_noticed:
  assumes "noticed turn ww s"
  shows "noticed turn ww (s\<lparr>watcher := hub_runs_callback (watcher s)\<rparr>)"
    "noticed turn ww (s\<lparr>watcher := mark_ready n r (watcher s)\<rparr>)"
    "noticed turn ww (cleanup_socket py3 s)" "noticed turn ww (set_push_handler s)"
  using assms by (auto simp: noticed_defs watcher_defs cleanup_socket_eq set_push_handler_def)

lemma noticed_wakes:
  "noticed turn ww s \<Longrightarrow> has_sock s \<and> waiter_blocked (watcher s) \<and> \<not> ww \<and> write_buffer_len (stream s) \<noteq> 0 \<Longrightarrow>
     \<not> waiter_blocked (hub_runs_callback (watcher s))"
  by (auto simp: noticed_defs watcher_defs)

section \<open>The loop's own turns\<close>

abbreviation during :: "bool \<Rightarrow> ('d, 'a) op \<Rightarrow> bool" where
  "during ww \<equiv> stays (\<lambda>_. ()) (noticed True ww) (\<lambda>s _. noticed True ww s)"

named_theorems turn_intros

definition callbacks_stay :: "'d callbacks \<Rightarrow> bool" where
  "callbacks_stay cb \<longleftrightarrow>
     (\<forall>ww q d s. noticed True ww s \<longrightarrow> during ww (on_request cb q d s)) \<and>
     (\<forall>ww d s. noticed True ww s \<longrightarrow> during ww (on_push cb d s))"

lemma during_and_then [turn_intros]:
  "during ww p \<Longrightarrow> (\<And>s x. noticed True ww s \<Longrightarrow> during ww (f s x)) \<Longrightarrow> during ww (and_then p f)"
  by (rule stays_and_then)

lemma during_catching [turn_intros]:
  "during ww p \<Longrightarrow> (\<And>s e. noticed True ww s \<Longrightarrow> during ww (f s e)) \<Longrightarrow> during ww (catching p f)"
  by (rule stays_catching)

lemma turn_updates [simp]:
  "noticed True ww (s\<lparr>stream := h\<rparr>) = noticed True ww s" "noticed True ww (s\<lparr>inflight_requests := d\<rparr>) = noticed True ww s"
  "noticed True ww (s\<lparr>session_ping_interval := n, encoder_dumps := d', encoder_loads := e, session_encoding := c, is_ready := b,
     ready_event := b'\<rparr>) = noticed True ww s" "noticed True ww (s\<lparr>session_ping_interval := n\<rparr>) = noticed True ww s"
  "noticed True ww s \<Longrightarrow> noticed True ww (resume_sending s)"
  by (simp_all add: calm_turn) (auto simp: resume_sending_def watcher_defs)

lemma during_on_stream [turn_intros]: "noticed True ww s \<Longrightarrow> during ww (on_stream s r)"
  by (auto simp: on_stream_def calm_turn split: option.split)

lemmas [turn_intros] = await_ready_noticed

lemma during_codec [turn_intros]:
  "noticed True ww s \<Longrightarrow> during ww (encode_data d s)" "noticed True ww s \<Longrightarrow> during ww (decode_data fl b s)"
  by (auto simp: encode_data_def decode_data_def intro!: await_ready_noticed split: option.split)

lemma during_close [turn_intros]: "noticed True ww s \<Longrightarrow> during ww (session_close alloc code reason via s)"
  by (auto simp: session_close_def Let_def calm_turn on_stream_def split: option.split sum.split)

lemma during_send_response [turn_intros]: "noticed True ww s \<Longrightarrow> during ww (session_send_response alloc q d s)"
  by (auto simp: session_send_response_def pop_inflight_def intro!: turn_intros split: prod.split option.split)

lemma during_hello_ack [turn_intros]: "noticed True ww s \<Longrightarrow> during ww (session_send_hello_ack py3 alloc e c s)"
  by (auto simp: session_send_hello_ack_def intro!: turn_intros)

lemma during_handlers:
  assumes "noticed True ww s"
  shows "during ww (handle_response fl q d s)" "during ww (handle_pong fl q s)" "during ww (handle_error code q d s)"
    "during ww (handle_hello py3 alloc encs s)" "during ww (handle_hello_ack alloc pint enc s)" "during ww (handle_go_away alloc code' d s)"
proof -
  have pop: "noticed True ww (snd (pop_inflight q s))" using assms by simp
  show "during ww (handle_response fl q d s)" "during ww (handle_pong fl q s)" "during ww (handle_error code q d s)"
    using pop by (auto simp: handle_response_def handle_pong_def handle_error_def simp del: calm_updates(6) intro!: turn_intros
        split: prod.split option.split inflight.split)
  show "during ww (handle_hello py3 alloc encs s)"
    unfolding handle_hello_def using assms by (auto simp: Let_def intro!: turn_intros split: option.split)
  show "during ww (handle_hello_ack alloc pint enc s)"
    unfolding handle_hello_ack_def using assms by (auto split: option.split intro!: turn_intros)
  show "during ww (handle_go_away alloc code' d s)"
    unfolding handle_go_away_def using assms by (auto split: sum.split intro!: turn_intros)
qed

lemma during_requests:
  assumes "callbacks_stay cb" and "noticed True ww s"
  shows "during ww (handle_request alloc cb fl q d s)" "during ww (handle_push cb fl d s)"
  using assms by (auto simp: handle_request_def handle_push_def callbacks_stay_def intro!: turn_intros split: option.split)

lemma during_each:
  "(\<And>ev s. noticed True ww s \<Longrightarrow> during ww (f ev s)) \<Longrightarrow> noticed True ww s \<Longrightarrow> during ww (each_event f evs s)"
  by (induction evs arbitrary: s) (auto intro!: during_and_then)

lemma during_events:
  assumes "callbacks_stay cb" and "noticed True ww s"
  shows "during ww (handle_client_events alloc cb evs s)" "during ww (handle_server_events py3 alloc cb evs s)"
proof -
  have "during ww (handle_client_event alloc cb ev s)" "during ww (handle_server_event py3 alloc cb ev s)"
    if "noticed True ww s" for ev s
    using during_handlers [OF that] during_requests [OF assms(1) that] that
    by (auto simp: handle_client_event_def handle_server_event_def handle_ping_def split: event.split)
  then show "during ww (handle_client_events alloc cb evs s)" "during ww (handle_server_events py3 alloc cb evs s)"
    unfolding handle_client_events_def handle_server_events_def using assms(2) by (blast intro: during_each)+
qed

lemma during_data:
  assumes "callbacks_stay cb" and "noticed True ww s"
  shows "during ww (handle_data_received py3 alloc cb data s)"
proof -
  have s: "noticed True ww (s\<lparr>stream := h\<rparr>)" for h using assms(2) by simp
  show ?thesis unfolding handle_data_received_def using s during_events [OF assms(1) s]
    by (auto simp: Let_def intro!: during_and_then turn_intros split: option.split sum.split py_error.split)
qed

lemma turn_goes_on:
  assumes "during ww p" and "\<And>s. noticed True ww s \<Longrightarrow> noticed True ww (g s)" and "x \<noteq> StartOver"
  shows "stays (\<lambda>_. ()) (noticed True ww) (\<lambda>s r. noticed True ww s \<and> r \<noteq> Inr StartOver) (and_then p (\<lambda>s _. Ret (g s) (Inr x)))"
  by (rule stays_and_then [OF assms(1)]) (use assms(2,3) in auto)

lemma during_read:
  assumes "callbacks_stay cb" and "noticed True ww s" and "io \<noteq> RecvAgain"
  shows "stays (\<lambda>_. ()) (noticed True ww) (\<lambda>s r. noticed True ww s \<and> r \<noteq> Inr StartOver) (run_loop_read alloc py3 cb io s)"
  using assms(2,3) events_noticed(3) [of True ww] during_close [of ww s] during_data [OF assms(1,2)]
  by (auto simp: run_loop_read_def intro!: turn_goes_on split: recv_result.split list.split)

text \<open>The writing half runs without a wait; what it leaves of the buffer it knows.\<close>

lemma compact_len:
  assumes "reset_or_compact_write_buf alloc h = Some h'"
  shows "write_buffer_len h' = write_buffer_len h"
proof -
  have "buf_length (reset_buffer alloc (free_big_buffer wb)) = 0" for wb
    by (simp add: reset_buffer_def free_big_buffer_def)
  then show ?thesis using assms
    by (auto simp: reset_or_compact_write_buf_def write_buffer_len_def Let_def split: if_splits option.splits)
qed

lemma consume_remaining:
  assumes "write_buffer_consume_bytes alloc h n = Some (h', remaining)"
  shows "remaining = write_buffer_len h'"
proof -
  define m where "m = (if n > write_buffer_len h then write_buffer_len h else n)"
  obtain r: "reset_or_compact_write_buf alloc (h\<lparr>write_buffer_position := write_buffer_position h + m\<rparr>) = Some h'"
    and "remaining = write_buffer_len h - m"
    using assms by (auto simp: write_buffer_consume_bytes_def Let_def m_def [symmetric] split: option.splits)
  then show ?thesis using compact_len [OF r] by (simp add: write_buffer_len_def)
qed

text \<open>After a turn: the loop can go to its next wait.\<close>

definition settled :: "'d loop \<Rightarrow> bool" where
  "settled l \<longleftrightarrow>
     (let s = loop_session l; w = watcher s; ww = (write_watcher l \<or> write_buffer_len (stream s) \<noteq> 0) in
      has_sock s \<longrightarrow> \<not> waiter_blocked w \<and> (sock_write_blocked w \<longrightarrow> ww) \<and> (\<not> ww \<longrightarrow> \<not> is_switching w))"

definition loop_locals :: "'d loop \<Rightarrow> bool \<times> bool \<times> bool \<times> size_t option" where
  "loop_locals l = (in_turn l, read_watcher l, write_watcher l, bytes_written l)"

definition loop_noticed :: "'d loop \<Rightarrow> bool" where
  "loop_noticed l = noticed (in_turn l) (write_watcher l) (loop_session l)"

lemma at_loop_stays:
  "stays (\<lambda>_. ()) (noticed (in_turn l) (write_watcher l)) Q p \<Longrightarrow>
     stays loop_locals loop_noticed (\<lambda>l' r. Q (loop_session l') r \<and> loop_locals l' = loop_locals l) (at_loop p l)"
proof (induction p arbitrary: l)
  case (Wait c s k)
  have "stays loop_locals loop_noticed (\<lambda>l' r. Q (loop_session l') r \<and> loop_locals l' = loop_locals l) (at_loop (k (loop_session t)) t)"
    if "loop_noticed t" "loop_locals t = loop_locals l" "c (loop_session t)" for t
  proof -
    have "in_turn t = in_turn l" "write_watcher t = write_watcher l" using that by (simp_all add: loop_locals_def)
    then have "stays (\<lambda>_. ()) (noticed (in_turn t) (write_watcher t)) Q (k (loop_session t))"
      using Wait.prems that by (simp add: loop_noticed_def)
    then show ?thesis using Wait.IH [of "k (loop_session t)" t] that(2) by simp
  qed
  then have "\<forall>t. loop_noticed t \<and> loop_locals t = loop_locals (l\<lparr>loop_session := s\<rparr>) \<and> c (loop_session t) \<longrightarrow>
      stays loop_locals loop_noticed (\<lambda>l' r. Q (loop_session l') r \<and> loop_locals l' = loop_locals l) (at_loop (k (loop_session t)) t)"
    by (simp add: loop_locals_def)
  moreover have "loop_noticed (l\<lparr>loop_session := s\<rparr>)" using Wait.prems by (simp add: loop_noticed_def)
  ultimately show ?case by (simp only: at_loop.simps stays.simps simp_thms)
qed (simp_all add: loop_locals_def)

lemma peek_nonempty:
  "write_buffer_get_bytes alloc h n False = Some (h', Some bs) \<Longrightarrow> h' = h \<and> write_buffer_len h \<noteq> 0"
  by (auto simp: write_buffer_get_bytes_def Let_def word_gt_0 split: if_splits)

lemma during_send:
  assumes "noticed True ww s"
  shows "stays (\<lambda>_. ()) (noticed True ww)
    (\<lambda>s r. \<not> waiter_blocked (watcher s) \<and> (\<forall>n. r = Inr n \<and> has_sock s \<longrightarrow> write_buffer_len (stream s) \<noteq> 0))
    (run_loop_send alloc py3 prev io s)"
proof -
  have "\<not> waiter_blocked (watcher (cleanup_socket py3 s)) \<and> \<not> has_sock (cleanup_socket py3 s)" if "noticed True ww s" for s :: "'a session"
    using events_noticed(3) [OF that, of py3] by (simp add: calm_turn cleanup_socket_eq)
  then have closing: "stays (\<lambda>_. ()) (noticed True ww)
      (\<lambda>s r. \<not> waiter_blocked (watcher s) \<and> (\<forall>n. r = Inr n \<and> has_sock s \<longrightarrow> write_buffer_len (stream s) \<noteq> 0))
      (and_then (session_close alloc CLOSE_NORMAL None False s) (\<lambda>s _. Ret (cleanup_socket py3 s) (Inr prev)))"
    by (intro stays_and_then [OF during_close [OF assms]]) (auto simp: calm_turn)
  show ?thesis using assms closing
    by (auto simp: run_loop_send_def Let_def calm_turn dest!: peek_nonempty split: option.split prod.split send_result.split)
qed

definition written :: "'d session \<Rightarrow> bool \<Rightarrow> 'd session \<Rightarrow> (size_t option \<times> turn) py \<Rightarrow> bool" where
  "written s0 ww s r \<longleftrightarrow>
     (\<forall>n t. r = Inr (n, t) \<longrightarrow> \<not> waiter_blocked (watcher s) \<and>
        (has_sock s \<longrightarrow>
          (if t = GoOn then if sock_should_write s0 then sock_write_blocked (watcher s) \<longrightarrow> write_buffer_len (stream s) \<noteq> 0
             else sock_write_blocked (watcher s) \<longrightarrow> ww
           else write_buffer_len (stream s) \<noteq> 0)))"

lemma during_write:
  assumes "noticed True ww s"
  shows "stays (\<lambda>_. ()) (noticed True ww) (written s ww) (run_loop_write alloc py3 prev io s)"
proof (cases "sock_should_write s")
  case True
  show ?thesis unfolding run_loop_write_def using True
    by (auto simp: written_def intro!: stays_and_then [OF during_send [OF assms]] dest!: consume_remaining
        split: option.split prod.split)
next
  case False
  then show ?thesis using assms by (simp add: run_loop_write_def written_def calm_turn)
qed

lemma end_turn_settled:
  assumes "has_sock s \<Longrightarrow> \<not> waiter_blocked (watcher s) \<and> (sock_write_blocked (watcher s) \<longrightarrow> ww \<or> write_buffer_len (stream s) \<noteq> 0)"
    and "loop_session l = run_loop_end py3 s" and "write_watcher l = ww"
  shows "settled l"
  using assms by (auto simp: settled_def run_loop_end_def cleanup_socket_eq watcher_reset_def Let_def)

text \<open>A turn ends settled, unless the loop ends.\<close>

lemma turn_settles:
  assumes "callbacks_stay cb" and "in_turn l" and "loop_noticed l" and "fst io \<noteq> RecvAgain"
  shows "stays loop_locals loop_noticed (\<lambda>l r. r = Inr StartOver \<or> r = Inr GoOn \<longrightarrow> settled l) (run_loop_turn alloc py3 cb io l)"
proof -
  let ?R = "\<lambda>l r. r = Inr StartOver \<or> r = Inr GoOn \<longrightarrow> settled l"
  let ?ww = "write_watcher l"
  have s: "noticed True ?ww (loop_session l)" using assms(2,3) by (simp add: loop_noticed_def)
  have read: "stays loop_locals loop_noticed
      (\<lambda>l' r. (noticed True ?ww (loop_session l') \<and> r \<noteq> Inr StartOver) \<and> loop_locals l' = loop_locals l)
      (at_loop (run_loop_read alloc py3 cb (fst io) (loop_session l)) l)"
    using at_loop_stays [of l "\<lambda>s r. noticed True ?ww s \<and> r \<noteq> Inr StartOver"] during_read [OF assms(1) s assms(4)] assms(2)
    by simp
  have rest: "stays loop_locals loop_noticed ?R
      (let writing = sock_should_write (loop_session l1) in
         and_then (at_loop (run_loop_write alloc py3 (bytes_written l1) (snd io) (loop_session l1)) l1) (\<lambda>l (n, t).
           let l = l\<lparr>bytes_written := n\<rparr> in
           if t \<noteq> GoOn then Ret l (Inr t)
           else
             let l = (if writing \<and> \<not> sock_write_blocked (watcher (loop_session l)) then l\<lparr>write_watcher := False\<rparr> else l)
             in Ret (l\<lparr>loop_session := run_loop_end py3 (loop_session l)\<rparr>) (Inr StartOver)))"
    if l1: "noticed True ?ww (loop_session l1)" "loop_locals l1 = loop_locals l" for l1 :: "'a loop"
  proof -
    have loc: "in_turn l1" "write_watcher l1 = ?ww" using l1(2) assms(2) by (simp_all add: loop_locals_def)
    have w: "stays loop_locals loop_noticed
        (\<lambda>l' r. written (loop_session l1) ?ww (loop_session l') r \<and> loop_locals l' = loop_locals l1)
        (at_loop (run_loop_write alloc py3 (bytes_written l1) (snd io) (loop_session l1)) l1)"
      using at_loop_stays [of l1 "written (loop_session l1) ?ww"
          "run_loop_write alloc py3 (bytes_written l1) (snd io) (loop_session l1)"] during_write [OF l1(1)] loc
      by simp
    show ?thesis unfolding Let_def
    proof (rule stays_and_then [OF w])
      fix l2 :: "'a loop" and x :: "size_t option \<times> turn"
      obtain n t where x: "x = (n, t)" by (cases x)
      assume "written (loop_session l1) ?ww (loop_session l2) (Inr x) \<and> loop_locals l2 = loop_locals l1"
      then have wr: "written (loop_session l1) ?ww (loop_session l2) (Inr (n, t))" and ww: "write_watcher l2 = ?ww"
        using loc by (simp_all add: x loop_locals_def)
      show "stays loop_locals loop_noticed ?R (case x of (n, t) \<Rightarrow>
          if t \<noteq> GoOn then Ret (l2\<lparr>bytes_written := n\<rparr>) (Inr t)
          else Ret ((if sock_should_write (loop_session l1) \<and>
                \<not> sock_write_blocked (watcher (loop_session (l2\<lparr>bytes_written := n\<rparr>)))
              then l2\<lparr>bytes_written := n, write_watcher := False\<rparr> else l2\<lparr>bytes_written := n\<rparr>)
            \<lparr>loop_session := run_loop_end py3 (loop_session
              (if sock_should_write (loop_session l1) \<and> \<not> sock_write_blocked (watcher (loop_session (l2\<lparr>bytes_written := n\<rparr>)))
               then l2\<lparr>bytes_written := n, write_watcher := False\<rparr> else l2\<lparr>bytes_written := n\<rparr>))\<rparr>) (Inr StartOver))"
      proof (cases "t = GoOn")
        case True
        have ends: "settled (l3\<lparr>loop_session := run_loop_end py3 (loop_session l2)\<rparr>)"
          if "write_watcher l3 = (if sock_should_write (loop_session l1) \<and> \<not> sock_write_blocked (watcher (loop_session l2))
            then False else ?ww)" for l3 :: "'a loop"
          by (rule end_turn_settled [where s = "loop_session l2" and ww = "write_watcher l3"])
            (use that wr True in \<open>auto simp: written_def split: if_splits\<close>)
        show ?thesis using True ww ends [of "l2\<lparr>bytes_written := n\<rparr>"] ends [of "l2\<lparr>bytes_written := n, write_watcher := False\<rparr>"]
          by (cases "sock_should_write (loop_session l1) \<and> \<not> sock_write_blocked (watcher (loop_session l2))") (auto simp: x)
      next
        case False
        then show ?thesis using wr by (auto simp: x written_def settled_def Let_def)
      qed
    qed auto
  qed
  show ?thesis unfolding run_loop_turn_def
    by (rule stays_and_then [OF read]) (use rest in auto)
qed

lemma settled_updates [simp]: "settled (l\<lparr>in_turn := b\<rparr>) = settled l"
  by (simp add: settled_def)

lemma settled_waits:
  assumes "settled l" and "\<not> in_turn l" and "has_sock (loop_session l)"
  defines "l' \<equiv> start_write_watcher l"
  defines "w \<equiv> run_loop_wait (loop_session l')"
  shows "\<not> in_turn l'" and "noticed (snd w) (write_watcher l') (fst w)"
proof -
  have "write_watcher l' = (write_watcher l \<or> write_buffer_len (stream (loop_session l)) \<noteq> 0)"
    and same: "loop_session l' = loop_session l" "in_turn l' = in_turn l"
    by (simp_all add: l'_def start_write_watcher_def word_gt_0)
  then show "noticed (snd w) (write_watcher l') (fst w)" using assms(1,3)
    by (auto simp: settled_def w_def run_loop_wait_def watcher_wait_def noticed_defs Let_def)
  show "\<not> in_turn l'" using same assms(2) by simp
qed

lemma loop_stays:
  assumes "callbacks_stay cb" and "\<And>n. fst (ios n) \<noteq> RecvAgain"
  shows "\<not> in_turn l \<Longrightarrow> settled l \<Longrightarrow> stays loop_locals loop_noticed (\<lambda>_ _. True) (run_loop_turns alloc py3 cb ios n l)"
proof (induction n arbitrary: l)
  case (Suc n)
  define rest where "rest = (\<lambda>l. and_then (catching
      (and_then (run_loop_turn alloc py3 cb (ios n) (enter_turn l)) (\<lambda>l t.
         if t = LoopEnds then Ret (stop_watchers l) (Inr False) else Ret l (Inr True)))
      (\<lambda>l e. Ret (stop_watchers l) (Inl e)))
    (\<lambda>l more. if more then run_loop_turns alloc py3 cb ios n (l\<lparr>in_turn := False\<rparr>) else Ret l (Inr ())))"
  have rest: "stays loop_locals loop_noticed (\<lambda>_ _. True) (rest l)"
    if "noticed True (write_watcher l) (loop_session l)" for l :: "'a loop"
  proof -
    have "in_turn (enter_turn l)" "loop_noticed (enter_turn l)" using that by (simp_all add: enter_turn_def loop_noticed_def)
    note turn = turn_settles [OF assms(1) this assms(2), of alloc py3 n]
    have "stays loop_locals loop_noticed (\<lambda>l r. r = Inr True \<longrightarrow> settled l)
        (and_then (run_loop_turn alloc py3 cb (ios n) (enter_turn l)) (\<lambda>l t.
           if t = LoopEnds then Ret (stop_watchers l) (Inr False) else Ret l (Inr True)))"
      by (rule stays_and_then [OF turn]) (auto intro: turn.exhaust)
    then show ?thesis unfolding rest_def
      by (intro stays_and_then [where Q = "\<lambda>l r. r = Inr True \<longrightarrow> settled l"] stays_catching
            [where Q = "\<lambda>l r. r = Inr True \<longrightarrow> settled l"]) (auto intro!: Suc.IH)
  qed
  show ?case
  proof (cases "has_sock (loop_session l)")
    case True
    note waits = settled_waits [OF Suc.prems(2,1) True]
    obtain s now where w: "run_loop_wait (loop_session (start_write_watcher l)) = (s, now)" by fastforce
    have wake: "stays loop_locals loop_noticed (\<lambda>_ _. True) (rest t)"
      if "loop_noticed t" "\<not> waiter_blocked (watcher (loop_session t))" for t :: "'a loop"
      by (rule rest) (use that in \<open>auto simp: loop_noticed_def noticed_defs\<close>)
    have unfold: "run_loop_turns alloc py3 cb ios (Suc n) l =
        (let l' = (start_write_watcher l)\<lparr>loop_session := s\<rparr> in
         if now then rest l' else Wait (\<lambda>l. \<not> waiter_blocked (watcher (loop_session l))) l' rest)"
      using True w by (simp add: rest_def Let_def)
    have "now \<or> loop_noticed ((start_write_watcher l)\<lparr>loop_session := s\<rparr>)"
      "now \<Longrightarrow> stays loop_locals loop_noticed (\<lambda>_ _. True) (rest ((start_write_watcher l)\<lparr>loop_session := s\<rparr>))"
      using waits w rest [of "(start_write_watcher l)\<lparr>loop_session := s\<rparr>"]
      by (cases now, auto simp: loop_noticed_def)
    then show ?thesis unfolding unfold using wake by (auto simp: Let_def)
  qed simp
qed simp

section \<open>Properties\<close>

text \<open>
  C34: Bytes queued by a send are noticed by the run loop. Wherever the loop waits, for any number of turns and
  whatever \<open>recv\<close> and \<open>send\<close> do (a spurious readiness apart), it is blocked with bytes queued only while its
  write watcher is started or the hub has a callback to run, and that callback resumes it; the greenlets that send, the hub's
  callbacks, readiness and the closing of the socket keep this, unless a send raises \<open>MemoryError\<close> or \<open>SystemError\<close>.
\<close>

theorem queued_bytes_noticed:
  assumes "callbacks_stay cb" and "\<And>n. fst (ios n) \<noteq> RecvAgain"
    and "\<not> waiter_blocked (watcher s)" and "\<not> sock_write_blocked (watcher s)" and "\<not> is_switching (watcher s)"
  shows "stays loop_locals loop_noticed (\<lambda>_ _. True) (run_loop alloc py3 cb ios n s) \<and>
    (\<forall>turn ww t. noticed turn ww t \<longrightarrow>
       (has_sock t \<and> waiter_blocked (watcher t) \<and> \<not> ww \<and> write_buffer_len (stream t) \<noteq> 0 \<longrightarrow>
          \<not> waiter_blocked (hub_runs_callback (watcher t))) \<and>
       stays (\<lambda>_. ()) (noticed turn ww) (left_noticed turn ww) (session_send_push alloc d t) \<and>
       stays (\<lambda>_. ()) (noticed turn ww) (left_noticed turn ww) (session_send_request alloc d t) \<and>
       stays (\<lambda>_. ()) (noticed turn ww) (left_noticed turn ww) (session_send_response alloc q d t) \<and>
       stays (\<lambda>_. ()) (noticed turn ww) (left_noticed turn ww) (session_send_ping alloc t) \<and>
       noticed turn ww (t\<lparr>watcher := hub_runs_callback (watcher t)\<rparr>) \<and>
       noticed turn ww (t\<lparr>watcher := mark_ready i r (watcher t)\<rparr>) \<and> noticed turn ww (cleanup_socket py3 t))"
proof -
  have "stays loop_locals loop_noticed (\<lambda>_ _. True) (run_loop_turns alloc py3 cb ios n (run_loop_start s))"
    by (rule loop_stays [OF assms(1,2)]) (use assms(3-5) in \<open>auto simp: run_loop_start_def settled_def Let_def\<close>)
  then have run: "stays loop_locals loop_noticed (\<lambda>_ _. True) (run_loop alloc py3 cb ios n s)"
    by (simp add: run_loop_def)
  show ?thesis
    by (intro conjI allI impI) (rule run, erule (1) noticed_wakes, (erule calls_noticed events_noticed)+)
qed

lemma queued_bytes_noticed_witness:
  "\<exists>c l k. run_loop big_allocator True \<lparr>on_request = (\<lambda>q d s. Ret s (Inr None)), on_push = (\<lambda>d s. Ret s (Inr ()))\<rparr>
      (\<lambda>_. (RecvData [1], Sent 1)) 3 (ready_session False) = Wait c l k \<and>
    waiter_blocked (watcher (loop_session l)) \<and> \<not> write_watcher l \<and> loop_noticed l"
proof -
  let ?cb = "\<lparr>on_request = (\<lambda>q d s. Ret s (Inr None)), on_push = (\<lambda>d s. Ret s (Inr ()))\<rparr> :: byte list callbacks"
  let ?run = "run_loop big_allocator True ?cb (\<lambda>_. (RecvData [1], Sent 1)) 3 (ready_session False)"
  have "callbacks_stay ?cb" by (simp add: callbacks_stay_def)
  then have "stays loop_locals loop_noticed (\<lambda>_ _. True) ?run"
    by (intro conjunct1 [OF queued_bytes_noticed]) (simp_all add: ready_session_def watcher_defs)
  moreover have "write_buffer_len (stream (ready_session False)) = 0"
    using length_unsent [of "stream (ready_session False)"] ready_session_ok(2) [of False] ready_session_ok(3) [of False]
    by (simp add: session_inv_def handler_inv_def unsigned_eq_0_iff)
  moreover from this obtain c l k where "?run = Wait c l k" "waiter_blocked (watcher (loop_session l))" "\<not> write_watcher l"
    by (auto simp: run_loop_def run_loop_start_def ready_session_def numeral_3_eq_3 start_write_watcher_def run_loop_wait_def
        watcher_defs)
  ultimately show ?thesis by auto
qed

text \<open>
  C35: \<open>close\<close> does not wake the run loop. When the loop waits with nothing queued, \<open>close\<close> queues its
  GOAWAY frame and returns without \<open>_resume_sending\<close>, which every other send calls: the frame stays queued and the loop blocked
  through any number of hub callbacks, though one call of \<open>_resume_sending\<close> would have had it resumed. When the close timer
  fires, the socket is dropped, and the loop, which that wakes, ends with the frame never given to \<open>send\<close>.
\<close>

theorem close_leaves_loop_asleep:
  assumes "ample alloc" and "session_inv cl s" and "write_used (stream s) < 2 ^ 59"
    and "valid_command (CmdGoAway 0 (ucast code) reason)" and "has_sock s" and "\<not> shutting_down s" and "\<not> close_event s"
    and "noticed False False s" and "waiter_blocked (watcher s)" and "hub_callbacks (watcher s) = 0" and "unsent (stream s) = []"
  shows "\<exists>t. session_close alloc code reason False s = Ret t (Inr ()) \<and>
    unsent (stream t) = wire (command_frame (bump (sh_seq (stream s))) (CmdGoAway 0 (ucast code) reason)) \<and>
    (\<forall>n. waiter_blocked ((hub_runs_callback ^^ n) (watcher t))) \<and>
    \<not> waiter_blocked (hub_runs_callback (watcher (resume_sending t))) \<and>
    (let u = close_timeout py3 t; v = u\<lparr>watcher := hub_runs_callback (watcher u)\<rparr> in
       unsent (stream u) = unsent (stream t) \<and> \<not> waiter_blocked (watcher v) \<and>
       run_loop_read alloc py3 cb io v = Ret v (Inr LoopEnds))"
proof -
  let ?c = "CmdGoAway 0 (ucast code) reason"
  have "write_ok (stream s)" using assms(2) by (simp add: session_inv_def handler_inv_def)
  then obtain h where h: "perform alloc (stream s) ?c = Some (h, Inr (command_value (stream s) ?c))" "write_ok h"
      "unsent h = wire (command_frame (bump (sh_seq (stream s))) ?c)"
    using queue_any [OF assms(1) _ assms(3,4)] assms(11) by (metis append_Nil)
  define t where "t = s\<lparr>shutting_down := True, ready_event := True, shutdown_event := True, stream := h,
    close_timers := close_timers s + 1\<rparr>"
  have close: "session_close alloc code reason False s = Ret t (Inr ())"
    using h(1) assms(5,6) by (simp add: session_close_def on_stream_def except0_def command_value_def t_def Let_def)
  have idle: "watcher t = watcher s" "has_sock t" "\<not> close_event t" "\<not> is_switching (watcher s)" "\<not> sock_write_blocked (watcher s)"
    using assms by (simp_all add: t_def noticed_defs)
  have "(hub_runs_callback ^^ n) (watcher s) = watcher s" for n
    using assms(10) by (induction n) (simp_all add: hub_runs_callback_def)
  moreover have "write_buffer_len h \<noteq> 0" using length_unsent [OF h(2)] by (auto simp: h(3) wire_def)
  ultimately show ?thesis using close idle assms(9,10) h(3)
    by (intro exI [of _ t])
      (simp add: t_def resume_sending_def watcher_defs close_timeout_def cleanup_socket_eq run_loop_read_def)
qed

lemma close_leaves_loop_asleep_witness:
  "\<exists>s t. run_loop_wait (ready_session False) = (s, False) \<and> session_close big_allocator CLOSE_NORMAL None False s = Ret t (Inr ()) \<and>
    unsent (stream t) \<noteq> [] \<and> waiter_blocked ((hub_runs_callback ^^ 7) (watcher t))"
proof -
  define s where "s = fst (run_loop_wait (ready_session False))"
  have s: "session_inv False s" "write_used (stream s) < 2 ^ 59" "unsent (stream s) = []" "run_loop_wait (ready_session False) = (s, False)"
    using ready_session_ok [of False]
    by (simp_all add: s_def run_loop_wait_def watcher_wait_def ready_session_def session_inv_defs watcher_defs watcher_ok_def)
  have "noticed False False s" "waiter_blocked (watcher s)" "hub_callbacks (watcher s) = 0" "has_sock s" "\<not> shutting_down s"
      "\<not> close_event s"
    using s(3) length_unsent [of "stream s"] s(1)
    by (simp_all add: s_def run_loop_wait_def watcher_wait_def ready_session_def watcher_defs noticed_defs session_inv_def
        handler_inv_def unsigned_eq_0_iff)
  moreover have "valid_command (CmdGoAway 0 (ucast CLOSE_NORMAL) None)" by (simp add: valid_command_def max_payload_def opt_bytes_def)
  ultimately obtain t where "session_close big_allocator CLOSE_NORMAL None False s = Ret t (Inr ())"
      "unsent (stream t) = wire (command_frame (bump (sh_seq (stream s))) (CmdGoAway 0 (ucast CLOSE_NORMAL) None))"
      "waiter_blocked ((hub_runs_callback ^^ 7) (watcher t))"
    using close_leaves_loop_asleep [OF ample_exists s(1,2), of CLOSE_NORMAL None] s(3) by blast
  then show ?thesis using s(4) by (auto simp: wire_def)
qed

end
