(* ===== verification/Spec2Isabelle.thy ===== *)
theory Spec2Isabelle
  imports Loqui_Memory Loqui_Rpc Loqui_Python3 Loqui_Liveness Loqui_Closing Loqui_EventObjects Loqui_ObjectCalls
  Loqui_RunLoop
begin

text \<open>
  Loqui is an RPC protocol over one TCP connection: a stream of frames in both directions. This
  is a verification development for its C core as used by the Python package: the header-only
  codec in \<open>src/c/\<close>, and the stream handler, the socket watcher, the socket session, the exponential backoff and the client that the Cython compiler
  generates (\<open>src/py/loqui/*.c\<close>).

  \<^bold>\<open>The program's parts.\<close> A socket session owns a \<open>LoquiStreamHandler\<close>. To send, it
  calls one of nine \<open>send_\<close> methods; each calls an append function of \<open>encoder.h\<close>, which writes a
  header and a payload to the growable \<open>write_buffer\<close> (\<open>buffer.h\<close>). The session's loop reads the
  front of that buffer, writes it to the socket and drops what was written. Received bytes go to
  \<open>on_bytes_received\<close>, which runs the incremental decoder of \<open>decoder.h\<close> over them; each
  complete frame becomes an event object (\<open>opcodes.c\<close>), and a ping is answered at once. A client owns at most
  one session at a time; it connects under a lock, with growing delays after failures, and keeps pushes in a queue until a session is ready.

  \<^bold>\<open>Theories and the code they model.\<close>
  \<^item> \<open>Loqui_Prelude\<close>: machine types, pointers, allocators, Python results; generic lemmas.
  \<^item> \<open>Loqui_Sysdep\<close> (\<open>c/sysdep.h\<close>): byte order macros, for hosts of both kinds.
  \<^item> \<open>Loqui_Buffer\<close> (\<open>c/buffer.h\<close>): \<open>loqui_buffer_write\<close>, \<open>loqui_buffer_ensure_size\<close>;
    the invariant \<open>buffer_ok\<close> and the abstraction \<open>buf_bytes\<close>.
  \<^item> \<open>Loqui_Wire\<close> (\<open>c/constants.h\<close> and the README's frame tables): the constants, and the
    abstract specification: \<open>frame\<close>, its bytes \<open>wire\<close>, cutting one frame off a stream
    \<open>cut_frame\<close>, cutting all \<open>deframe\<close>. Cutting accepts exactly the encodings.
  \<^item> \<open>Loqui_Encoder\<close> (\<open>c/encoder.h\<close>): the nine append functions, each proved to append
    \<open>wire\<close> of its frame or to report a refused allocation.
  \<^item> \<open>Loqui_Decoder\<close> (\<open>c/decoder.h\<close>): accessors and the decoder; a decoding step implements
    \<open>cut_frame\<close> for every chunk (\<open>decodes\<close>).
  \<^item> \<open>Loqui_Opcodes\<close> (\<open>opcodes.c\<close>): events and their constructors.
  \<^item> \<open>Loqui_Stream\<close> and \<open>Loqui_Receive\<close> (\<open>stream_handler.c\<close>): the handler's state and all its
    operations; the receive loop is a total function, its termination proved from the decoder's
    consumption.
  \<^item> \<open>Loqui_Sending\<close>: what the \<open>send_\<close> methods queue; sequence numbers.
  \<^item> \<open>Loqui_Queue\<close>: the write buffer as a queue of bytes. The interface of the session's write loop is
    the locale \<open>byte_queue\<close>, interpreted by the handler.
  \<^item> \<open>Loqui_Receiving\<close>: \<open>on_bytes_received\<close> refines the stream specification.
  \<^item> \<open>Loqui_Transfer\<close>: the locale \<open>stream_receiver\<close>, from which chunking independence follows,
    interpreted by the handler; whole command sequences from handler to handler.
  \<^item> \<open>Loqui_Handler\<close>: the handler as a state machine; its invariant in every reachable state, memory
    safety, and what malformed handshakes do.
  \<^item> \<open>Loqui_Memory\<close>: the bound on the decode buffer's allocation.
  \<^item> \<open>Loqui_Watcher\<close> (\<open>socket_watcher.c\<close>): the object that wakes the session's run loop.
  \<^item> \<open>Loqui_Process\<close>: calls that may wait, as processes \<open>proc\<close> over a state type, and what it is that they keep an
    invariant.
  \<^item> \<open>Loqui_Session\<close> (\<open>socket_session.c\<close>): the session's state, sending, closing, construction.
    Calls wait for the ready event or the close event and go on in a later state.
  \<^item> \<open>Loqui_Events\<close> (\<open>socket_session.c\<close>): the handlers of received events, the ping loop and the run
    loop, cut at the points at which they wait.
  \<^item> \<open>Loqui_Invariant\<close>: the session's invariant, kept by every operation (\<open>keeps\<close>) and by every
    interleaving of suspended calls (\<open>sys_step\<close>, \<open>sys_reachable\<close>); no call is undefined.
  \<^item> \<open>Loqui_Liveness\<close>: calls wait only while the ready event is not set (\<open>prompt\<close>), so every suspended
    call ends once it is.
  \<^item> \<open>Loqui_RunLoop\<close> (\<open>socket_session.c\<close>): the run loop as one process, with gevent's io watchers: bytes that are queued
    are noticed while it waits, except the GOAWAY of \<open>close\<close>.
  \<^item> \<open>Loqui_Exchange\<close>: two sessions: handshake, request and answer, pings.
  \<^item> \<open>Loqui_Closing\<close>: answers, clean-up, draining and closing, and what ends or strands the run loop.
  \<^item> \<open>Loqui_Backoff\<close> (\<open>exponential_backoff.c\<close>): the delays between attempts, over the reals with the
    platform's rounding as a parameter; their bounds.
  \<^item> \<open>Loqui_Upgrade\<close> (\<open>client.c\<close>, \<open>LoquiHTTPUpgradeClient\<close>): the HTTP upgrade of a new connection.
  \<^item> \<open>Loqui_Client\<close> (\<open>client.c\<close>, \<open>LoquiClient\<close>): the client's state, its lock, connecting, requests, pushes.
  \<^item> \<open>Loqui_Greenlets\<close>: the client's calls under every interleaving, by rely and guarantee: \<open>safe\<close>,
    \<open>client_step\<close>, \<open>client_reachable\<close>.
  \<^item> \<open>Loqui_Reconnect\<close>: what connecting delivers, requests through the client, and failures.
  \<^item> \<open>Loqui_Rpc\<close>: a client's and a server's session joined by a network with any delays and any splitting of the
    streams, as an inductive step relation: answers go to their requests, nothing is undefined, the connection can always finish.
  \<^item> \<open>Loqui_Python3\<close>: what the parameter \<open>py3\<close>, the interpreter's version, changes: the handshake fails there.
  \<^item> \<open>Loqui_Numbers\<close> and \<open>Loqui_Arithmetic\<close> (every \<open>.c\<close> file has a copy): CPython's integers as digits, their conversions
    to C types and back, and subtraction.
  \<^item> \<open>Loqui_Arguments\<close> (every \<open>.c\<close> file): Python objects, binding of arguments to parameters, conversions and type tests.
  \<^item> \<open>Loqui_Calls\<close> (\<open>stream_handler.c\<close>), \<open>Loqui_SessionCalls\<close> (\<open>socket_session.c\<close>), \<open>Loqui_ObjectCalls\<close> (\<open>socket_watcher.c\<close>,
    \<open>exponential_backoff.c\<close>, \<open>client.c\<close>): the methods and constructors as Python calls them, on objects of any type. The theories of the
    components have C values and bytes as arguments; these theories give the step before.
  \<^item> \<open>Loqui_EventObjects\<close> (\<open>opcodes.c\<close>): the event classes from Python: construction and attributes.
  \<^item> \<open>Loqui_Pickle\<close> (\<open>exponential_backoff.c\<close>, \<open>client.c\<close>): pickling of the backoff and the clients.
  \<^item> This theory: properties that span encoder, decoder and handler.

  \<^bold>\<open>How failure is modelled.\<close> Undefined behaviour of the C code (an access outside an
  object, an overlapping \<open>memcpy\<close>, a call on an object of the wrong type) is the option \<open>None\<close>;
  exceptions are the left side of a sum. \<open>malloc\<close> and \<open>realloc\<close> ask an \<open>allocator\<close>, an
  arbitrary predicate on sizes. \<open>alloc_sane\<close> says it grants no object of \<open>2^62\<close> bytes or more (the
  documented limit of the address space of a 64-bit system); \<open>ample\<close>, that it grants all below.
  The allocator is constant during one call, which loses no behaviour of the theorems about arbitrary
  allocators except those of an allocator that answers the same size differently within one call.

  \<^bold>\<open>Bounds.\<close> Machine integers are words. Properties that need the memory in use to be
  possible bound it by \<open>2^59\<close> or \<open>2^60\<close> bytes, far above any machine and below the \<open>2^62\<close> at which
  the doubling in \<open>loqui_buffer_write\<close> could be refused. The flush of the
  client's queue is bounded by the length the queue has when it starts; running out would be \<open>Undefined\<close>, and
  the client's safety shows that it never happens, because a ready session does not wait.

  \<^bold>\<open>Library code.\<close> gevent's \<open>Event\<close> is a flag, its \<open>AsyncResult\<close> a cell, its \<open>RLock\<close> an owner with a count, and
  \<open>spawn\<close> a list of calls to start, as gevent documents them. Codecs, application handlers, the network, the allocator, random numbers,
  floating-point rounding, and what the interpreter makes of objects of foreign types are parameters. C recursion is bounded by a number of
  frames, overflowing which is \<open>Undefined\<close>; a property that a call returns gives the number that is enough.

  \<^bold>\<open>Not modelled.\<close> Greenlets killed from outside; logging; the value of the client's connect time-out; Cython's reference
  counting, tracebacks and module code; the Python server \<open>server.py\<close>; the Rust, Go and Elixir implementations.
\<close>

section \<open>Properties across components\<close>

text \<open>
  Encoder and decoder are inverse. The bytes an append function writes for a frame with a
  payload of at most 50 MiB, read by an idle decoder in one chunk with anything behind them, give exactly
  that frame, held complete, and the number of its bytes.
\<close>

theorem encoder_decoder_inverse:
  assumes "ample alloc" and "current_version f" and "length (frame_payload f) \<le> max_payload"
    and "length rest < 2 ^ 32"
  shows "\<exists>b pk c. append_frame alloc zero_buffer f = Some (0, b) \<and>
    (let data = buf_bytes b @ rest in
     loqui_decoder_read_data alloc idle_decoder (of_nat (length data)) data 0
       = Some (LOQUI_DECODE_COMPLETE, pk, c)) \<and>
    frame_held pk (raw_of f) \<and> unat c = length (buf_bytes b)"
proof -
  have pay: "length (frame_payload f) < 2 ^ 32" using assms(3) by (simp add: max_payload_def)
  have len: "length (wire f) < 2 ^ 33"
    using assms(3) header_len_frame [of f] header_len_pos_le [of "frame_opcode f"]
    by (simp add: wire_def max_payload_def)
  have no: "\<not> refuses alloc (length (buf_bytes zero_buffer) + length (wire f))"
    using ample_refuses [OF assms(1)] len by (fastforce simp: zero_buffer_def max_object_def)
  obtain b where b: "append_frame alloc zero_buffer f = Some (0, b)" "buf_bytes b = wire f"
    using append_frame_outcome [OF zero_buffer_ok ample_sane [OF assms(1)] assms(2) pay] no
    by (auto simp: frame_outcome_def append_outcome_def wire_def ac_simps zero_buffer_def)
  let ?d = "wire f @ rest"
  have sz: "unat (of_nat (length ?d) :: size_t) = length ?d"
    using len assms(4) by (intro unat_of_nat_size) simp
  have ne: "?d \<noteq> []" by (simp add: wire_def)
  obtain st pk c where r: "loqui_decoder_read_data alloc idle_decoder (of_nat (length ?d)) ?d 0 = Some (st, pk, c)"
    and d: "decodes alloc ?d 0 (length ?d) (Some (st, pk, c))"
    using decoder_read_decodes [OF ample_sane [OF assms(1)] idle_decoder_ok(1) sz ne] idle_decoder_ok(2)
    by (auto simp: decodes_def)
  have "st = LOQUI_DECODE_COMPLETE \<and> frame_held pk (raw_of f) \<and> unat c = length (wire f)"
    using d cut_frame_wire [OF assms(3), of rest] assms(1)
    by (cases st) (auto simp: decodes_def ample_def)
  then show ?thesis using b r by (auto simp: Let_def)
qed

lemma encoder_decoder_inverse_witness:
  "\<exists>b pk c. append_frame big_allocator zero_buffer (FPong 0 5) = Some (0, b) \<and>
    loqui_decoder_read_data big_allocator idle_decoder (of_nat (length (buf_bytes b @ [3]))) (buf_bytes b @ [3]) 0
      = Some (LOQUI_DECODE_COMPLETE, pk, c) \<and> frame_held pk (raw_of (FPong 0 5))"
  using encoder_decoder_inverse [of big_allocator "FPong 0 5" "[3]"] ample_exists
  by (auto simp: max_payload_def Let_def)

text \<open>
  The sender does not enforce the receiver's limit. A push of more than 50 MiB is sent
  without complaint, and the peer that receives it raises \<open>LoquiDecoderError\<close> with the status for an
  invalid size.
\<close>

theorem oversized_payload_breaks_receiver:
  assumes "ample alloc" and "write_ok s" and "unsent s = []" and "receiver_ok r" and "pending (decode_buffer r) = []"
    and "write_used s < 2 ^ 31" and "write_used r < 2 ^ 31" and "max_payload < length data" and "length data < 2 ^ 32"
  shows "\<exists>s' r'. send_push alloc s fl (Some data) = Some (s', Inr 1) \<and>
    on_bytes_received alloc r (Some (unsent s')) = Some (r', Inl (LoquiDecoderError (-3)))"
proof -
  let ?f = "FPush fl data"
  have len: "length (wire ?f) < 2 ^ 33" using assms(9) by (simp add: wire_def size_field_def)
  have "\<not> refuses alloc (length (buf_bytes (write_buffer s)) + length (wire ?f))"
    using ample_refuses [OF assms(1)] len assms(6) by (fastforce simp: max_object_def write_used_def)
  then obtain s' where s': "send_push alloc s fl (Some data) = Some (s', Inr 1)" "unsent s' = wire ?f"
    using send_push_outcome [OF assms(2) ample_sane [OF assms(1)], of fl data] assms(3,9)
    by (auto simp: send_outcome_def Let_def sent_payload_small)
  have "cut_frame (wire ?f) = BadSize"
    using header_len_frame [of ?f, symmetric] payload_len_frame [of ?f] assms(8,9)
    by (simp add: wire_def Let_def header_len_def)
  then have "stream_frames (wire ?f) = []" "snd (deframe (wire ?f)) = Bad LOQUI_DECODE_INVALID_SIZE"
    by (simp_all add: stream_frames_def deframe_simps)
  moreover have "length (buf_bytes (write_buffer r)) + length (wire ?f) < 2 ^ 60"
    using assms(7) len by (simp add: write_used_def)
  ultimately have "\<exists>r'. on_bytes_received alloc r (Some (wire ?f)) = Some (r', Inl (LoquiDecoderError (-3)))"
    using receive_conforms [OF assms(1), of r "wire ?f"] assms(4,5)
    by (auto simp: conforms_def Let_def receiver_ok_def decoder_inv_def)
  then show ?thesis using s' by auto
qed

lemma oversized_payload_breaks_receiver_witness:
  "\<exists>s' r'. send_push big_allocator (empty_handler 0 0) 0 (Some (replicate 52428801 0)) = Some (s', Inr 1) \<and>
    on_bytes_received big_allocator (empty_handler 0 0) (Some (unsent s')) = Some (r', Inl (LoquiDecoderError (-3)))"
  using oversized_payload_breaks_receiver [of big_allocator "empty_handler 0 0" "empty_handler 0 0"
      "replicate 52428801 0" 0] ample_exists
  by (simp add: empty_handler_receiver write_used_def max_payload_def)

text \<open>
  A decoder error discards events that were already decoded. When a chunk completes frames and
  then breaks the protocol, the call raises and returns none of their events, although the pongs
  for the pings among them have been queued; the decoder restarts with nothing pending.
\<close>

theorem decoder_error_discards_events:
  assumes "ample alloc" and "receiver_ok h"
    and "write_used h + length (pending (decode_buffer h) @ d) < receive_limit"
    and "snd (deframe (pending (decode_buffer h) @ d)) = Bad st"
    and "list_all2 legal (stream_frames (pending (decode_buffer h) @ d)) evs"
  shows "\<exists>h'. on_bytes_received alloc h (Some d) = Some (h', Inl (LoquiDecoderError (status_value st))) \<and>
    receiver_ok h' \<and> pending (decode_buffer h') = [] \<and>
    unsent h' = unsent h @
      concat (List.map wire (concat (List.map frame_reply (stream_frames (pending (decode_buffer h) @ d)))))"
proof -
  have "outcome fs (Bad st) acc = Some (Inl (LoquiDecoderError (status_value st)))"
    if "list_all2 legal fs es" for fs es acc
    using that by (induction arbitrary: acc rule: list_all2_induct) (simp_all add: legal_def)
  from this [OF assms(5)] show ?thesis
    using receive_conforms [OF assms(1), of h d] assms(2-4) replies_legal [OF assms(5)]
    by (auto simp: conforms_def received_def Let_def receiver_ok_def decoder_inv_def write_used_def receive_limit_def)
qed

text \<open>A ping, then a byte that is no opcode.\<close>

lemma decoder_error_discards_events_witness:
  "\<exists>h'. on_bytes_received big_allocator (empty_handler 0 0) (Some [3, 0, 0, 0, 0, 7, 99])
      = Some (h', Inl (LoquiDecoderError (-2))) \<and> unsent h' = [4, 0, 0, 0, 0, 7]"
proof -
  have w: "[3, 0, 0, 0, 0, 7, 99] = wire (FPing 0 7) @ [99]" by (simp add: wire_def be32_bytes_def)
  have "cut_frame [3, 0, 0, 0, 0, 7, 99] = Frame (raw_of (FPing 0 7)) [99]"
    unfolding w by (rule cut_frame_wire) (simp add: max_payload_def)
  moreover have "cut_frame [99] = BadOpcode" by (simp add: header_len_def)
  ultimately have "stream_frames [3, 0, 0, 0, 0, 7, 99] = [FPing 0 7]"
    "snd (deframe [3, 0, 0, 0, 0, 7, 99]) = Bad LOQUI_DECODE_INVALID_OPCODE"
    by (simp_all add: stream_frames_def deframe_simps del: cut_frame.simps)
  then show ?thesis
    using decoder_error_discards_events [of big_allocator "empty_handler 0 0" "[3, 0, 0, 0, 0, 7, 99]"
        LOQUI_DECODE_INVALID_OPCODE "[Ping 0 7]"] ample_exists
    by (auto simp: empty_handler_receiver write_used_def receive_limit_def legal_def wire_def be32_bytes_def)
qed

end
